(* ===== verification/Prelude.thy ===== *)
theory Prelude
  imports Main "HOL-Library.Word"
begin

text \<open>
  Shared ground of the development: machine types, the result type of Go functions that can
  return an error or panic, Go's slice primitives on byte lists, big-endian encoding of 16 and
  32 bit words (\<open>encoding/binary\<close>), \<open>time.Time.Sub\<close>, and iteration over Go maps, whose order
  the language leaves open. The components import this theory and rely on its simp rules and
  on the collections \<open>go_defs\<close> (definitions that proofs unfold together) and \<open>be_simps\<close>
  (encode/decode equations).
\<close>

unbundle bit_operations_syntax

named_theorems go_defs "definitions of Go primitives unfolded together"
named_theorems be_simps "big-endian encode and decode equations"

section \<open>Machine types and results\<close>

type_synonym byte = "8 word"
type_synonym u16 = "16 word"
type_synonym u32 = "32 word"
type_synonym u64 = "64 word"

text \<open>A Go function returns a value, returns a non-nil error, or panics.\<close>

datatype ('e, 'a) outcome = Ok 'a | Err 'e | Panic

definition is_ok :: "('e, 'a) outcome \<Rightarrow> bool" where
  "is_ok x = (case x of Ok _ \<Rightarrow> True | _ \<Rightarrow> False)"

fun map_ok :: "('a \<Rightarrow> 'b) \<Rightarrow> ('e, 'a) outcome \<Rightarrow> ('e, 'b) outcome" where
  "map_ok f (Ok x) = Ok (f x)"
| "map_ok f (Err e) = Err e"
| "map_ok f Panic = Panic"

fun projOk :: "('e, 'a) outcome \<Rightarrow> 'a" where
  "projOk (Ok x) = x"

lemma is_ok_simps [simp]: "is_ok (Ok x)" "\<not> is_ok (Err e)" "\<not> is_ok Panic"
  by (simp_all add: is_ok_def)

lemma is_okE: "is_ok x \<Longrightarrow> (\<And>y. x = Ok y \<Longrightarrow> P) \<Longrightarrow> P"
  by (cases x) auto

lemma map_ok_eq_Ok [simp]: "map_ok f x = Ok y \<longleftrightarrow> (\<exists>z. x = Ok z \<and> y = f z)"
  by (cases x) auto

section \<open>Slices\<close>

text \<open>
  \<open>xs[lo:hi]\<close> panics unless \<open>lo \<le> hi\<close> and \<open>hi\<close> is within the slice; \<open>None\<close> is the panic.
  \<open>copy_at off src dst\<close> is \<open>copy(dst[off:], src)\<close> for an offset within \<open>dst\<close>: it writes
  as many bytes as fit.
\<close>

definition slice :: "'a list \<Rightarrow> nat \<Rightarrow> nat \<Rightarrow> 'a list option" where
  "slice xs lo hi = (if lo \<le> hi \<and> hi \<le> length xs then Some (take (hi - lo) (drop lo xs)) else None)"

definition copy_at :: "nat \<Rightarrow> 'a list \<Rightarrow> 'a list \<Rightarrow> 'a list" where
  "copy_at off src dst =
     take off dst @ take (length dst - off) src @ drop (off + length src) dst"

lemma length_copy_at [simp]: "length (copy_at off src dst) = length dst"
  by (auto simp: copy_at_def)

lemma copy_at_Nil [simp]: "copy_at off [] dst = dst"
  by (simp add: copy_at_def)

lemma copy_at_suffix:
  "length src = length suf \<Longrightarrow> off = length pre \<Longrightarrow> copy_at off src (pre @ suf) = pre @ src"
  by (simp add: copy_at_def)

lemma copy_at_mid:
  "off = length pre \<Longrightarrow> length src = length mid \<Longrightarrow>
   copy_at off src (pre @ mid @ suf) = pre @ src @ suf"
  by (simp add: copy_at_def)

lemma slice_all [simp]: "n = length xs \<Longrightarrow> slice xs 0 n = Some xs"
  by (simp add: slice_def)

lemma slice_append: "lo = length pre \<Longrightarrow> hi = length pre + length mid \<Longrightarrow>
  slice (pre @ mid @ suf) lo hi = Some mid"
  by (simp add: slice_def)

lemma slice_eq_None: "slice xs lo hi = None \<longleftrightarrow> \<not> (lo \<le> hi \<and> hi \<le> length xs)"
  by (simp add: slice_def)

section \<open>Big-endian integers\<close>

definition be16 :: "byte \<Rightarrow> byte \<Rightarrow> u16" where
  "be16 h l = ucast l OR push_bit 8 (ucast h)"

definition hi8 :: "u16 \<Rightarrow> byte" where
  "hi8 w = ucast (drop_bit 8 w)"

definition lo8 :: "u16 \<Rightarrow> byte" where
  "lo8 w = ucast w"

definition be32 :: "byte \<Rightarrow> byte \<Rightarrow> byte \<Rightarrow> byte \<Rightarrow> u32" where
  "be32 a b c d =
     ucast d OR push_bit 8 (ucast c) OR push_bit 16 (ucast b) OR push_bit 24 (ucast a)"

definition b32 :: "nat \<Rightarrow> u32 \<Rightarrow> byte" where
  "b32 k w = ucast (drop_bit k w)"

text \<open>\<open>binary.BigEndian.Uint16(xs[i:i+2])\<close> and the write of the same width.\<close>

definition get_be16 :: "byte list \<Rightarrow> nat \<Rightarrow> u16" where
  "get_be16 xs i = be16 (xs ! i) (xs ! (i + 1))"

definition get_be32 :: "byte list \<Rightarrow> nat \<Rightarrow> u32" where
  "get_be32 xs i = be32 (xs ! i) (xs ! (i + 1)) (xs ! (i + 2)) (xs ! (i + 3))"

definition put_be16 :: "nat \<Rightarrow> u16 \<Rightarrow> byte list \<Rightarrow> byte list" where
  "put_be16 i w xs = xs[i := hi8 w, i + 1 := lo8 w]"

definition put_be32 :: "nat \<Rightarrow> u32 \<Rightarrow> byte list \<Rightarrow> byte list" where
  "put_be32 i w xs = xs[i := b32 24 w, i + 1 := b32 16 w, i + 2 := b32 8 w, i + 3 := b32 0 w]"

lemma length_put_be16 [simp]: "length (put_be16 i w xs) = length xs"
  by (simp add: put_be16_def)

lemma length_put_be32 [simp]: "length (put_be32 i w xs) = length xs"
  by (simp add: put_be32_def)

lemma be16_hi8_lo8 [simp, be_simps]: "be16 (hi8 w) (lo8 w) = w"
  by (rule bit_word_eqI) (auto simp: be16_def hi8_def lo8_def bit_simps)

lemma hi8_be16 [simp, be_simps]: "hi8 (be16 h l) = h"
  by (rule bit_word_eqI) (auto simp: be16_def hi8_def bit_simps dest: bit_imp_le_length)

lemma lo8_be16 [simp, be_simps]: "lo8 (be16 h l) = l"
  by (rule bit_word_eqI) (auto simp: be16_def lo8_def bit_simps)

lemma be16_inject [simp]: "be16 a b = be16 c d \<longleftrightarrow> a = c \<and> b = d"
  by (metis hi8_be16 lo8_be16)

lemma hi8_lo8_inject: "hi8 v = hi8 w \<Longrightarrow> lo8 v = lo8 w \<Longrightarrow> v = w"
  by (metis be16_hi8_lo8)

lemma be32_b32 [simp, be_simps]: "be32 (b32 24 w) (b32 16 w) (b32 8 w) (b32 0 w) = w"
proof (rule bit_word_eqI)
  fix n assume "n < LENGTH(32)"
  then consider "n < 8" | "8 \<le> n" "n < 16" | "16 \<le> n" "n < 24" | "24 \<le> n" "n < 32"
    by fastforce
  then show "bit (be32 (b32 24 w) (b32 16 w) (b32 8 w) (b32 0 w)) n \<longleftrightarrow> bit w n"
    by cases (simp_all add: be32_def b32_def bit_simps less_diff_conv2 less_diff_conv)
qed

lemma unat_byte_less [simp]: "unat (b :: byte) < 256"
  by (rule order_less_le_trans [OF unsigned_less]) simp

lemma unat_ucast_byte [simp]: "unat (ucast (b :: byte) :: u16) = unat b"
  "unat (ucast (b :: byte) :: u32) = unat b"
  using unat_byte_less [of b] by (simp_all add: unsigned_ucast_eq take_bit_nat_eq_self_iff del: unat_byte_less)

lemma unat_u16_le: "unat (w :: u16) \<le> 65535"
proof -
  have "unat w < 2 ^ LENGTH(16)" by (rule unsigned_less)
  then show ?thesis by simp
qed

lemma unat_ucast_u16: "unat (ucast (w :: u16) :: u32) = unat w"
  using unat_u16_le [of w] by (simp add: unsigned_ucast_eq take_bit_nat_eq_self_iff)

lemma unat_be16: "unat (be16 h l) = unat h * 256 + unat l"
proof -
  have disj: "(ucast l :: u16) AND push_bit 8 (ucast h) = 0"
    by (rule bit_word_eqI) (auto simp: bit_simps dest: bit_imp_le_length)
  have eq: "be16 h l = ucast l + ucast h * 256"
    unfolding be16_def using disj by (simp add: disjunctive_add_eq_or push_bit_eq_mult)
  show ?thesis
    using unat_byte_less [of h] unat_byte_less [of l]
    by (simp add: eq unat_word_ariths del: unat_byte_less)
qed

section \<open>Time\<close>

text \<open>
  A \<open>time.Time\<close> is an instant in nanoseconds. \<open>t.Sub(u)\<close> is the difference, saturated to the
  range of an \<open>int64\<close> duration.
\<close>

definition max_duration :: int where "max_duration = 9223372036854775807"
definition min_duration :: int where "min_duration = - 9223372036854775808"

definition time_sub :: "int \<Rightarrow> int \<Rightarrow> int" where
  "time_sub t u = max min_duration (min max_duration (t - u))"

definition minute :: int where "minute = 60000000000"

text \<open>\<open>Unix\<close>: the seconds of a time, rounded down.\<close>

definition unix_time :: "int \<Rightarrow> int" where "unix_time t = t div 1000000000"

lemma time_sub_self [simp]: "time_sub t t = 0"
  by (simp add: time_sub_def max_duration_def min_duration_def)

lemma time_sub_gt:
  "0 \<le> d \<Longrightarrow> d < max_duration \<Longrightarrow> time_sub t u > d \<longleftrightarrow> t - u > d"
  by (auto simp: time_sub_def max_duration_def min_duration_def)

lemma time_sub_mono: "t \<le> t' \<Longrightarrow> time_sub t u \<le> time_sub t' u"
  by (auto simp: time_sub_def)

lemma time_sub_antimono: "u \<le> u' \<Longrightarrow> time_sub t u' \<le> time_sub t u"
  by (auto simp: time_sub_def)

section \<open>Go maps\<close>

text \<open>
  A Go map is a partial function with a finite domain. \<open>range m\<close> visits every key once in an
  order the language does not fix: an operation that ranges over a map takes that order as a
  list, and \<open>range_order m ks\<close> says that \<open>ks\<close> is an order the runtime may choose.
\<close>

definition range_order :: "('k \<rightharpoonup> 'v) \<Rightarrow> 'k list \<Rightarrow> bool" where
  "range_order m ks \<longleftrightarrow> distinct ks \<and> set ks = dom m"

definition map_len :: "('k \<rightharpoonup> 'v) \<Rightarrow> nat" where
  "map_len m = card (dom m)"

definition delete_keys :: "'k list \<Rightarrow> ('k \<rightharpoonup> 'v) \<Rightarrow> ('k \<rightharpoonup> 'v)" where
  "delete_keys ks m = foldl (\<lambda>m k. m(k := None)) m ks"

text \<open>The values a \<open>range\<close> visits, in its order.\<close>

definition range_values :: "('k \<rightharpoonup> 'v) \<Rightarrow> 'k list \<Rightarrow> 'v list" where
  "range_values m ks = concat (map (\<lambda>k. case m k of None \<Rightarrow> [] | Some v \<Rightarrow> [v]) ks)"

lemma range_values_simps [simp]:
  "range_values m [] = []"
  "range_values m (k # ks) = (case m k of None \<Rightarrow> range_values m ks | Some v \<Rightarrow> v # range_values m ks)"
  by (simp_all add: range_values_def split: option.split)

lemma set_range_values: "set (range_values m ks) = {v. \<exists>k \<in> set ks. m k = Some v}"
  by (induction ks) (auto split: option.splits)

lemma set_range_values_ran: "range_order m ks \<Longrightarrow> set (range_values m ks) = ran m"
  by (auto simp: set_range_values range_order_def ran_def)

lemma length_range_values: "range_order m ks \<Longrightarrow> length (range_values m ks) = map_len m"
proof -
  assume ks: "range_order m ks"
  have "set xs \<subseteq> dom m \<Longrightarrow> length (range_values m xs) = length xs" for xs
    by (induction xs) auto
  then show ?thesis
    using ks distinct_card [of ks] by (auto simp: map_len_def range_order_def)
qed

lemma delete_keys_simps [simp]:
  "delete_keys [] m = m"
  "delete_keys (k # ks) m = delete_keys ks (m(k := None))"
  by (simp_all add: delete_keys_def)

lemma delete_keys_apply: "delete_keys ks m x = (if x \<in> set ks then None else m x)"
  by (induction ks arbitrary: m) auto

lemma delete_keys_restrict: "delete_keys ks m = m |` (- set ks)"
  by (auto simp: delete_keys_apply restrict_map_def)

lemma finite_dom_delete_keys [simp]: "finite (dom m) \<Longrightarrow> finite (dom (delete_keys ks m))"
  by (simp add: delete_keys_restrict)

lemma range_order_finite: "range_order m ks \<Longrightarrow> finite (dom m)"
  by (metis range_order_def List.finite_set)

lemma range_order_exists: "finite (dom m) \<Longrightarrow> \<exists>ks. range_order m ks"
  by (metis range_order_def finite_distinct_list)

lemma map_len_range_order: "range_order m ks \<Longrightarrow> map_len m = length ks"
  by (metis map_len_def range_order_def distinct_card)

lemma map_len_empty [simp]: "map_len Map.empty = 0"
  by (simp add: map_len_def)

lemma map_len_update:
  "finite (dom m) \<Longrightarrow> map_len (m(k \<mapsto> v)) = (if k \<in> dom m then map_len m else Suc (map_len m))"
  by (auto simp: map_len_def insert_absorb card_insert_if)

lemma map_len_delete:
  "finite (dom m) \<Longrightarrow> map_len (m(k := None)) = (if k \<in> dom m then map_len m - 1 else map_len m)"
  by (auto simp: map_len_def)

lemma finite_dom_delete [simp]: "finite (dom m) \<Longrightarrow> finite (dom (m(k := None)))"
  by simp

section \<open>Lists\<close>

text \<open>A list of at least 20 elements, as the header parsers of the network package need it.\<close>

lemma length_geE:
  assumes "n \<le> length xs"
  obtains ys zs where "xs = ys @ zs" "length ys = n"
  using assms by (metis append_take_drop_id length_take min.absorb2)

lemma nth_update_field:
  "(\<And>x. g (f x) = g x) \<Longrightarrow> g (xs[k := f (xs ! k)] ! j) = g (xs ! j)"
  by (cases "k < length xs"; cases "j = k") (auto simp: list_update_beyond)

lemma length_Suc_obtain: "length xs = Suc n \<Longrightarrow> (\<And>y ys. xs = y # ys \<Longrightarrow> length ys = n \<Longrightarrow> P) \<Longrightarrow> P"
  by (cases xs) auto

lemma find_SomeD: "List.find P xs = Some x \<Longrightarrow> P x \<and> x \<in> set xs"
  by (induction xs) (auto split: if_splits)

lemma list_update_Cons_numeral [simp]:
  "(x # xs)[numeral v := y] = x # xs[pred_numeral v := y]"
  by (simp add: numeral_eq_Suc)

lemma length_4_obtain:
  assumes "length xs = 4"
  obtains a b c d where "xs = [a, b, c, d]"
  using assms by (auto simp: numeral_eq_Suc length_Suc_conv)

text \<open>A buffer of at least 20 bytes, taken apart.\<close>

lemma length_20_obtain:
  assumes "20 \<le> length xs"
  obtains b0 b1 b2 b3 b4 b5 b6 b7 b8 b9 b10 b11 b12 b13 b14 b15 b16 b17 b18 b19 rest
  where "xs = b0 # b1 # b2 # b3 # b4 # b5 # b6 # b7 # b8 # b9 #
    b10 # b11 # b12 # b13 # b14 # b15 # b16 # b17 # b18 # b19 # rest"
proof -
  have "Suc (Suc (Suc (Suc (Suc (Suc (Suc (Suc (Suc (Suc
    (Suc (Suc (Suc (Suc (Suc (Suc (Suc (Suc (Suc (Suc 0))))))))))))))))))) \<le> length xs"
    using assms by simp
  then show thesis
    by (simp only: Suc_le_length_iff le0 simp_thms) (elim exE conjE, rule that, simp)
qed

lemma replicate_20: "20 \<le> n \<Longrightarrow> replicate n x =
  x # x # x # x # x # x # x # x # x # x # x # x # x # x # x # x # x # x # x # x # replicate (n - 20) x"
proof -
  assume "20 \<le> n"
  then obtain m where "n = 20 + m" by (metis le_Suc_ex)
  then show ?thesis by (simp add: numeral_eq_Suc)
qed

lemma foldl_append_concat: "foldl (\<lambda>acc x. acc @ f x) acc xs = acc @ concat (map f xs)"
  by (induction xs arbitrary: acc) auto

end
