(* ===== verification/GoStrings.thy ===== *)
theory GoStrings
  imports Prelude
begin

text \<open>
  The parts of Go's standard library on strings that the sources use: \<open>fmt.Sprintf\<close> with
  \<open>%d\<close> and \<open>%x\<close>, \<open>strings.Contains\<close> and \<open>strings.Split\<close> with a one-byte separator,
  \<open>strings.Cut\<close>, \<open>strconv.Atoi\<close>. A Go string is a sequence of bytes, here a \<open>string\<close>.
  The main result is the decimal round trip, on which the address round trips rest.
\<close>

section \<open>Decimal numbers\<close>

definition is_digit :: "char \<Rightarrow> bool" where
  "is_digit c \<longleftrightarrow> 48 \<le> (of_char c :: nat) \<and> (of_char c :: nat) \<le> 57"

definition digit_val :: "char \<Rightarrow> nat" where
  "digit_val c = of_char c - 48"

definition digit_char :: "nat \<Rightarrow> char" where
  "digit_char n = char_of (48 + n)"

text \<open>\<open>fmt.Sprintf("%d", n)\<close> for a non-negative \<open>n\<close>.\<close>

fun dec :: "nat \<Rightarrow> string" where
  "dec n = (if n < 10 then [digit_char n] else dec (n div 10) @ [digit_char (n mod 10)])"

declare dec.simps [simp del]

text \<open>The value of a string of digits, read from the left.\<close>

definition dec_val :: "string \<Rightarrow> nat" where
  "dec_val s = foldl (\<lambda>acc c. acc * 10 + digit_val c) 0 s"

lemma digit_char_props [simp]:
  assumes "n < 10"
  shows "is_digit (digit_char n)" "digit_val (digit_char n) = n"
  using assms by (simp_all add: is_digit_def digit_val_def digit_char_def)

lemma dec_val_append: "dec_val (s @ [c]) = dec_val s * 10 + digit_val c"
  by (simp add: dec_val_def)

lemma dec_digits: "\<forall>c \<in> set (dec n). is_digit c"
proof (induction n rule: dec.induct)
  case (1 n)
  then show ?case by (cases "n < 10") (simp_all add: dec.simps [of n])
qed

lemma dec_nonempty [simp]: "dec n \<noteq> []"
  by (simp add: dec.simps [of n])

lemma dec_val_dec [simp]: "dec_val (dec n) = n"
proof (induction n rule: dec.induct)
  case (1 n)
  show ?case
  proof (cases "n < 10")
    case True
    then show ?thesis by (simp add: dec.simps [of n] dec_val_def)
  next
    case False
    with 1 show ?thesis by (simp add: dec.simps [of n] dec_val_append)
  qed
qed

lemma dec_inject [simp]: "dec m = dec n \<longleftrightarrow> m = n"
  by (metis dec_val_dec)

lemma not_digit [simp]:
  "\<not> is_digit (CHR ''.'')" "\<not> is_digit (CHR '':'')" "\<not> is_digit (CHR ''/'')"
  "\<not> is_digit (CHR ''['')" "\<not> is_digit (CHR '']'')" "\<not> is_digit (CHR ''%'')"
  "\<not> is_digit (CHR ''+'')" "\<not> is_digit (CHR ''-'')"
  by (simp_all add: is_digit_def)

lemma dec_no_sep [simp]:
  "CHR ''.'' \<notin> set (dec n)" "CHR '':'' \<notin> set (dec n)" "CHR ''/'' \<notin> set (dec n)"
  "CHR ''['' \<notin> set (dec n)" "CHR '']'' \<notin> set (dec n)" "CHR ''%'' \<notin> set (dec n)"
  "CHR ''+'' \<notin> set (dec n)" "CHR ''-'' \<notin> set (dec n)"
  using dec_digits [of n] by (auto dest: bspec)

text \<open>The first digit of a number of several digits is not zero.\<close>

lemma dec_hd_nonzero: "0 < n \<Longrightarrow> digit_val (hd (dec n)) \<noteq> 0"
proof (induction n rule: dec.induct)
  case (1 n)
  show ?case
  proof (cases "n < 10")
    case True
    with 1 show ?thesis by (simp add: dec.simps [of n])
  next
    case False
    with 1 have "digit_val (hd (dec (n div 10))) \<noteq> 0" by simp
    with False show ?thesis by (simp add: dec.simps [of n])
  qed
qed

section \<open>Hexadecimal\<close>

definition hex_char :: "nat \<Rightarrow> char" where
  "hex_char n = (if n < 10 then char_of (48 + n) else char_of (87 + n))"

text \<open>\<open>fmt.Sprintf("%x", bs)\<close> on a byte slice: two lower-case digits per byte.\<close>

definition hex_bytes :: "byte list \<Rightarrow> string" where
  "hex_bytes bs = concat (map (\<lambda>b. [hex_char (unat b div 16), hex_char (unat b mod 16)]) bs)"

text \<open>A number in hexadecimal without leading zeros.\<close>

fun hex_num :: "nat \<Rightarrow> string" where
  "hex_num n = (if n < 16 then [hex_char n] else hex_num (n div 16) @ [hex_char (n mod 16)])"

declare hex_num.simps [simp del]

definition is_hex_char :: "char \<Rightarrow> bool" where
  "is_hex_char c \<longleftrightarrow> is_digit c \<or> (97 \<le> (of_char c :: nat) \<and> (of_char c :: nat) \<le> 102)"

lemma hex_char_is_hex: "n < 16 \<Longrightarrow> is_hex_char (hex_char n)"
  by (auto simp: hex_char_def is_hex_char_def is_digit_def)

lemma length_hex_bytes [simp]: "length (hex_bytes bs) = 2 * length bs"
  by (induction bs) (simp_all add: hex_bytes_def)

lemma hex_bytes_chars: "\<forall>c \<in> set (hex_bytes bs). is_hex_char c"
  by (auto simp: hex_bytes_def intro!: hex_char_is_hex unat_byte_less [THEN less_imp_le_nat] div_less_iff_less_mult [THEN iffD2])

lemma hex_char_inject: "m < 16 \<Longrightarrow> n < 16 \<Longrightarrow> hex_char m = hex_char n \<longleftrightarrow> m = n"
proof -
  assume mn: "m < 16" "n < 16"
  have code: "of_char (hex_char k) = (if k < 10 then 48 + k else 87 + k)" if "k < 16" for k :: nat
    using that by (simp add: hex_char_def)
  show ?thesis
  proof
    assume "hex_char m = hex_char n"
    then have "(if m < 10 then 48 + m else 87 + m) = (if n < 10 then 48 + n else 87 + n)"
      unfolding code [OF mn(1), symmetric] code [OF mn(2), symmetric] by simp
    then show "m = n" using mn by (simp split: if_splits)
  qed simp
qed

lemma hex_bytes_Cons: "hex_bytes (b # bs) = hex_char (unat b div 16) # hex_char (unat b mod 16) # hex_bytes bs"
  by (simp add: hex_bytes_def)

lemma hex_bytes_inject: "hex_bytes xs = hex_bytes ys \<longleftrightarrow> xs = ys"
proof
  show "hex_bytes xs = hex_bytes ys \<Longrightarrow> xs = ys"
  proof (induction xs arbitrary: ys)
    case Nil
    then show ?case by (cases ys) (simp_all add: hex_bytes_def)
  next
    case (Cons x xs)
    then obtain y ys' where ys: "ys = y # ys'" by (cases ys) (simp_all add: hex_bytes_def)
    have lt: "unat b div 16 < 16" "unat b mod 16 < 16" for b :: byte
      using unat_byte_less [of b] by (simp_all add: div_less_iff_less_mult del: unat_byte_less)
    have "unat x div 16 = unat y div 16" "unat x mod 16 = unat y mod 16"
      using Cons.prems unfolding ys hex_bytes_Cons by (simp_all add: hex_char_inject lt)
    then have "unat x = unat y" by (metis div_mult_mod_eq)
    then have "x = y" by (rule unsigned_word_eqI)
    then show ?case using Cons unfolding ys hex_bytes_Cons by simp
  qed
qed simp

section \<open>Searching and splitting\<close>

text \<open>
  \<open>strings.IndexByte\<close> and \<open>strings.LastIndexByte\<close> (\<open>None\<close> for -1), \<open>strings.Cut\<close> and
  \<open>strings.Split\<close> for a separator of one byte.
\<close>

fun index_byte :: "char \<Rightarrow> string \<Rightarrow> nat option" where
  "index_byte c [] = None"
| "index_byte c (x # xs) = (if x = c then Some 0 else map_option Suc (index_byte c xs))"

fun last_index_byte :: "char \<Rightarrow> string \<Rightarrow> nat option" where
  "last_index_byte c [] = None"
| "last_index_byte c (x # xs) =
     (case last_index_byte c xs of Some i \<Rightarrow> Some (Suc i)
      | None \<Rightarrow> if x = c then Some 0 else None)"

definition cut_byte :: "char \<Rightarrow> string \<Rightarrow> (string \<times> string) option" where
  "cut_byte c s = (case index_byte c s of None \<Rightarrow> None | Some i \<Rightarrow> Some (take i s, drop (Suc i) s))"

fun split_byte :: "char \<Rightarrow> string \<Rightarrow> string list" where
  "split_byte c [] = [[]]"
| "split_byte c (x # xs) =
     (if x = c then [] # split_byte c xs
      else case split_byte c xs of [] \<Rightarrow> [[x]] | w # ws \<Rightarrow> (x # w) # ws)"

lemma index_byte_None [simp]: "index_byte c s = None \<longleftrightarrow> c \<notin> set s"
  by (induction s) auto

lemma index_byte_append: "c \<notin> set s \<Longrightarrow> index_byte c (s @ c # t) = Some (length s)"
  by (induction s) auto

lemma last_index_byte_None [simp]: "last_index_byte c s = None \<longleftrightarrow> c \<notin> set s"
  by (induction s) (auto split: option.splits)

lemma last_index_byte_append: "c \<notin> set t \<Longrightarrow> last_index_byte c (s @ c # t) = Some (length s)"
proof (induction s)
  case Nil
  then have "last_index_byte c t = None" by simp
  then show ?case by (simp del: last_index_byte_None)
qed simp

lemma cut_byte_append: "c \<notin> set s \<Longrightarrow> cut_byte c (s @ c # t) = Some (s, t)"
  by (simp add: cut_byte_def index_byte_append)

lemma split_byte_nonempty [simp]: "split_byte c s \<noteq> []"
  by (induction s) (auto split: list.splits)

lemma split_byte_none: "c \<notin> set s \<Longrightarrow> split_byte c s = [s]"
  by (induction s) auto

lemma split_byte_append: "c \<notin> set s \<Longrightarrow> split_byte c (s @ c # t) = s # split_byte c t"
  by (induction s) (auto split: list.splits)

lemma length_split_byte: "length (split_byte c s) = Suc (length (filter (\<lambda>x. x = c) s))"
  by (induction s) (auto split: list.splits)

section \<open>strconv.Atoi\<close>

text \<open>
  An optional sign and at least one digit; \<open>None\<close> is a syntax error or a value outside the
  range of a 64-bit \<open>int\<close>.
\<close>

definition atoi_digits :: "string \<Rightarrow> nat option" where
  "atoi_digits s = (if s \<noteq> [] \<and> list_all is_digit s then Some (dec_val s) else None)"

definition atoi :: "string \<Rightarrow> int option" where
  "atoi s =
     (case s of [] \<Rightarrow> None
      | c # cs \<Rightarrow>
        if c = CHR ''-'' then
          (case atoi_digits cs of None \<Rightarrow> None
           | Some n \<Rightarrow> if n \<le> 2 ^ 63 then Some (- int n) else None)
        else
          (case atoi_digits (if c = CHR ''+'' then cs else s) of None \<Rightarrow> None
           | Some n \<Rightarrow> if n < 2 ^ 63 then Some (int n) else None))"

lemma atoi_digits_dec [simp]: "atoi_digits (dec n) = Some n"
  using dec_digits [of n] by (simp add: atoi_digits_def list_all_iff)

lemma atoi_dec: "n < 2 ^ 63 \<Longrightarrow> atoi (dec n) = Some (int n)"
proof -
  assume n: "n < 2 ^ 63"
  obtain c cs where d: "dec n = c # cs" by (cases "dec n") auto
  have "is_digit c" using dec_digits [of n] d by simp
  then have "c \<noteq> CHR ''-''" "c \<noteq> CHR ''+''" by auto
  moreover have "atoi_digits (c # cs) = Some n" using d by (metis atoi_digits_dec)
  ultimately show ?thesis using n by (simp add: atoi_def d)
qed

lemma atoi_range: "atoi s = Some i \<Longrightarrow> - (2 ^ 63) \<le> i \<and> i < 2 ^ 63"
  by (auto simp: atoi_def split: list.splits option.splits if_splits)

section \<open>Formatting and searching\<close>

text \<open>The verb \<open>%d\<close> on an integer, and the tests of the \<open>strings\<close> package for a substring, a prefix and
  a suffix.\<close>

definition fmt_d :: "int \<Rightarrow> string" where
  "fmt_d i = (if i < 0 then CHR ''-'' # dec (nat (- i)) else dec (nat i))"

definition has_prefix :: "string \<Rightarrow> string \<Rightarrow> bool" where
  "has_prefix s p \<longleftrightarrow> take (length p) s = p"

definition has_suffix :: "string \<Rightarrow> string \<Rightarrow> bool" where
  "has_suffix s p \<longleftrightarrow> length p \<le> length s \<and> drop (length s - length p) s = p"

fun contains_str :: "string \<Rightarrow> string \<Rightarrow> bool" where
  "contains_str [] sub = (sub = [])"
| "contains_str (c # s) sub = (has_prefix (c # s) sub \<or> contains_str s sub)"

text \<open>The verb \<open>%q\<close>: a quoted Go string. Bytes above 127 are passed on, as in valid printable UTF-8.\<close>

fun quote_char :: "char \<Rightarrow> string" where
  "quote_char c =
     (let n = of_char c :: nat in
      if n = 34 then [CHR 0x5C, CHR 0x22] else if n = 92 then [CHR 0x5C, CHR 0x5C]
      else if n = 7 then [CHR 0x5C, CHR ''a''] else if n = 8 then [CHR 0x5C, CHR ''b'']
      else if n = 12 then [CHR 0x5C, CHR ''f''] else if n = 10 then [CHR 0x5C, CHR ''n'']
      else if n = 13 then [CHR 0x5C, CHR ''r''] else if n = 9 then [CHR 0x5C, CHR ''t'']
      else if n = 11 then [CHR 0x5C, CHR ''v'']
      else if n < 32 \<or> n = 127 then [CHR 0x5C, CHR ''x'', hex_char (n div 16), hex_char (n mod 16)]
      else [c])"

definition go_quote :: "string \<Rightarrow> string" where
  "go_quote s = CHR 0x22 # concat (map quote_char s) @ [CHR 0x22]"

lemma fmt_d_nat [simp]: "fmt_d (int n) = dec n"
  by (simp add: fmt_d_def)

text \<open>\<open>strings.ToUpper\<close> on an ASCII character.\<close>

definition to_upper :: "char \<Rightarrow> char" where
  "to_upper c = (let n = of_char c :: nat in if 97 \<le> n \<and> n \<le> 122 then char_of (n - 32) else c)"

text \<open>Simplification rules that write out a decimal number.\<close>

lemmas dec_eval = dec.simps digit_char_def char_of_def bit_Suc_0_iff

end
