(* ===== verification/GoNet.thy ===== *)
theory GoNet
  imports GoStrings
begin

text \<open>
  The parts of Go's \<open>net\<close> package the sources call: \<open>net.IP\<close> values and their textual form
  (\<open>ParseIP\<close>, \<open>IP.To4\<close>, \<open>IP.String\<close>), CIDR blocks (\<open>ParseCIDR\<close>, \<open>IPNet.Contains\<close>) and
  host/port pairs (\<open>JoinHostPort\<close>, \<open>SplitHostPort\<close>, \<open>LookupPort\<close>). An address is a byte
  slice; the empty list is \<open>nil\<close>. Proved here: the dotted-decimal round trip, the meaning of
  a CIDR match as agreement on the first bits, and the host/port round trip.
\<close>

section \<open>Addresses\<close>

type_synonym ip = "byte list"

definition v4_in_v6_prefix :: "byte list" where
  "v4_in_v6_prefix = replicate 10 0 @ [255, 255]"

definition to4 :: "ip \<Rightarrow> ip" where
  "to4 ip =
     (if length ip = 4 then ip
      else if length ip = 16 \<and> take 12 ip = v4_in_v6_prefix then drop 12 ip
      else [])"

text \<open>The 16-byte form of an IPv4 address, as \<open>ParseIP\<close> and \<open>net.IPv4\<close> build it.\<close>

definition v4_mapped :: "ip \<Rightarrow> ip" where
  "v4_mapped bs = v4_in_v6_prefix @ bs"

lemma length_v4_in_v6_prefix [simp]: "length v4_in_v6_prefix = 12"
  by (simp add: v4_in_v6_prefix_def)

lemma to4_v4 [simp]: "length bs = 4 \<Longrightarrow> to4 bs = bs"
  by (simp add: to4_def)

lemma to4_v4_mapped [simp]: "length bs = 4 \<Longrightarrow> to4 (v4_mapped bs) = bs"
  by (simp add: to4_def v4_mapped_def)

lemma to4_Nil [simp]: "to4 [] = []"
  by (simp add: to4_def)

lemma length_to4: "length (to4 ip) = 4 \<or> to4 ip = []"
  by (simp add: to4_def)

lemma to4_to4 [simp]: "to4 (to4 ip) = to4 ip"
  using length_to4 [of ip] by auto

section \<open>Textual form of addresses\<close>

text \<open>\<open>netip.parseIPv4Fields\<close>: the current octet, its digits so far, the finished octets.\<close>

fun parse_v4_loop :: "nat \<Rightarrow> nat \<Rightarrow> byte list \<Rightarrow> string \<Rightarrow> byte list option" where
  "parse_v4_loop val dl fields [] =
     (if length fields < 3 then None else Some (fields @ [of_nat val]))"
| "parse_v4_loop val dl fields (c # cs) =
     (if is_digit c then
        (if dl = 1 \<and> val = 0 then None
         else if val * 10 + digit_val c > 255 then None
         else parse_v4_loop (val * 10 + digit_val c) (dl + 1) fields cs)
      else if c = CHR ''.'' then
        (if dl = 0 \<or> cs = [] then None
         else if length fields = 3 then None
         else parse_v4_loop 0 0 (fields @ [of_nat val]) cs)
      else None)"

definition parse_v4 :: "string \<Rightarrow> byte list option" where
  "parse_v4 s = parse_v4_loop 0 0 [] s"

text \<open>
  \<open>netip.parseIPv6\<close>. \<open>hex_scan\<close> reads one group of at most four hex digits; the loop keeps
  the bytes read so far and the position of the ellipsis.
\<close>

definition hex_digit_val :: "char \<Rightarrow> nat option" where
  "hex_digit_val c =
     (if is_digit c then Some (digit_val c)
      else if 97 \<le> (of_char c :: nat) \<and> (of_char c :: nat) \<le> 102 then Some (of_char c - 87)
      else if 65 \<le> (of_char c :: nat) \<and> (of_char c :: nat) \<le> 70 then Some (of_char c - 55)
      else None)"

fun hex_scan :: "nat \<Rightarrow> nat \<Rightarrow> string \<Rightarrow> (nat \<times> nat \<times> string) option" where
  "hex_scan off acc [] = Some (off, acc, [])"
| "hex_scan off acc (c # cs) =
     (case hex_digit_val c of
        None \<Rightarrow> Some (off, acc, c # cs)
      | Some d \<Rightarrow> if off > 3 then None else hex_scan (off + 1) (acc * 16 + d) cs)"

function parse_v6_loop ::
  "byte list \<Rightarrow> nat option \<Rightarrow> string \<Rightarrow> (byte list \<times> nat option \<times> string) option" where
  "parse_v6_loop bs ell s =
     (if length bs \<ge> 16 then Some (bs, ell, s)
      else case hex_scan 0 0 s of
        None \<Rightarrow> None
      | Some (off, acc, rest) \<Rightarrow>
          if off = 0 then None
          else if rest \<noteq> [] \<and> hd rest = CHR ''.'' then
            (if ell = None \<and> length bs \<noteq> 12 then None
             else if length bs + 4 > 16 then None
             else case parse_v4 s of None \<Rightarrow> None | Some fs \<Rightarrow> Some (bs @ fs, ell, []))
          else
            (case rest of
               [] \<Rightarrow> Some (bs @ [of_nat (acc div 256), of_nat acc], ell, [])
             | c # cs \<Rightarrow>
                 if c \<noteq> CHR '':'' \<or> cs = [] then None
                 else if hd cs = CHR '':'' then
                   (if ell \<noteq> None then None
                    else if tl cs = [] then
                      Some (bs @ [of_nat (acc div 256), of_nat acc], Some (length bs + 2), [])
                    else parse_v6_loop (bs @ [of_nat (acc div 256), of_nat acc])
                           (Some (length bs + 2)) (tl cs))
                 else parse_v6_loop (bs @ [of_nat (acc div 256), of_nat acc]) ell cs))"
  by pat_completeness auto
termination
  by (relation "measure (\<lambda>(bs, ell, s). 16 - length bs)") auto

declare parse_v6_loop.simps [simp del]

definition parse_v6 :: "string \<Rightarrow> byte list option" where
  "parse_v6 s =
     (let ell0 = (if take 2 s = ''::'' then Some 0 else None);
               s0 = (if take 2 s = ''::'' then drop 2 s else s)
      in if ell0 = Some 0 \<and> s0 = [] then Some (replicate 16 0)
         else case parse_v6_loop [] ell0 s0 of
           None \<Rightarrow> None
         | Some (bs, ell, rest) \<Rightarrow>
             if rest \<noteq> [] then None
             else if length bs < 16 then
               (case ell of None \<Rightarrow> None
                | Some e \<Rightarrow> Some (take e bs @ replicate (16 - length bs) 0 @ drop e bs))
             else if ell \<noteq> None then None else Some bs)"

text \<open>
  \<open>netip.ParseAddr\<close>: the first of dot, colon and percent sign decides. Both callers here
  refuse an address with a zone, so a percent sign always leads to a refusal.
\<close>

datatype addr = V4 "byte list" | V6 "byte list"

definition parse_addr :: "string \<Rightarrow> addr option" where
  "parse_addr s =
     (case List.find (\<lambda>c. c = CHR ''.'' \<or> c = CHR '':'' \<or> c = CHR ''%'') s of
        None \<Rightarrow> None
      | Some c \<Rightarrow>
          if c = CHR ''.'' then map_option V4 (parse_v4 s)
          else if c = CHR '':'' \<and> CHR ''%'' \<notin> set s then map_option V6 (parse_v6 s)
          else None)"

fun as16 :: "addr \<Rightarrow> ip" where
  "as16 (V4 bs) = v4_mapped bs"
| "as16 (V6 bs) = bs"

fun bit_len :: "addr \<Rightarrow> nat" where
  "bit_len (V4 bs) = 32"
| "bit_len (V6 bs) = 128"

text \<open>\<open>net.ParseIP\<close>: \<open>nil\<close> for text that is not an address.\<close>

definition parse_ip :: "string \<Rightarrow> ip" where
  "parse_ip s = (case parse_addr s of None \<Rightarrow> [] | Some a \<Rightarrow> as16 a)"

text \<open>\<open>IP.String\<close>.\<close>

definition v4_string :: "byte list \<Rightarrow> string" where
  "v4_string bs =
     dec (unat (bs ! 0)) @ ''.'' @ dec (unat (bs ! 1)) @ ''.'' @
     dec (unat (bs ! 2)) @ ''.'' @ dec (unat (bs ! 3))"

definition join :: "string \<Rightarrow> string list \<Rightarrow> string" where
  "join sep ws = concat (case ws of [] \<Rightarrow> [] | w # ws \<Rightarrow> w # map (\<lambda>w. sep @ w) ws)"

text \<open>The longest run of at least two zero groups, the first one when there are several.\<close>

definition zero_run :: "nat list \<Rightarrow> nat \<times> nat" where
  "zero_run gs =
     foldl (\<lambda>(zs, ze) i.
       let j = i + length (takeWhile (\<lambda>g. g = 0) (drop i gs))
       in if j - i \<ge> 2 \<and> j - i > ze - zs then (i, j) else (zs, ze)) (255, 255) [0..<8]"

definition v6_groups :: "byte list \<Rightarrow> nat list" where
  "v6_groups bs = map (\<lambda>i. unat (get_be16 bs (2 * i))) [0..<8]"

definition v6_string :: "byte list \<Rightarrow> string" where
  "v6_string bs =
     (let gs = v6_groups bs; (zs, ze) = zero_run gs
      in if zs = 255 then join '':'' (map hex_num gs)
         else join '':'' (map hex_num (take zs gs)) @ ''::'' @
              join '':'' (map hex_num (drop ze gs)))"

definition ip_string :: "ip \<Rightarrow> string" where
  "ip_string ip =
     (if ip = [] then ''<nil>''
      else if to4 ip \<noteq> [] then v4_string (to4 ip)
      else if length ip = 16 then v6_string ip
      else ''?'' @ hex_bytes ip)"

section \<open>CIDR blocks\<close>

record ipnet =
  net_ip :: ip
  net_mask :: "byte list"

text \<open>\<open>net.dtoi\<close>: a decimal prefix below \<open>0xFFFFFF\<close>, and how many characters it takes.\<close>

fun dtoi_loop :: "nat \<Rightarrow> nat \<Rightarrow> string \<Rightarrow> (nat \<times> nat) option" where
  "dtoi_loop n i [] = Some (n, i)"
| "dtoi_loop n i (c # cs) =
     (if is_digit c then
        (if n * 10 + digit_val c \<ge> 16777215 then None
         else dtoi_loop (n * 10 + digit_val c) (i + 1) cs)
      else Some (n, i))"

definition dtoi :: "string \<Rightarrow> (nat \<times> nat) option" where
  "dtoi s = (case dtoi_loop 0 0 s of None \<Rightarrow> None | Some (n, i) \<Rightarrow> if i = 0 then None else Some (n, i))"

definition cidr_mask :: "nat \<Rightarrow> nat \<Rightarrow> byte list" where
  "cidr_mask ones bits =
     map (\<lambda>i. NOT (drop_bit (min 8 (ones - 8 * i)) (255 :: byte))) [0..<bits div 8]"

definition mask_ip :: "ip \<Rightarrow> byte list \<Rightarrow> ip" where
  "mask_ip ip m =
     (let m' = (if length m = 16 \<and> length ip = 4 \<and> take 12 m = replicate 12 255 then drop 12 m else m);
          ip' = (if length m' = 4 \<and> length ip = 16 \<and> take 12 ip = v4_in_v6_prefix then drop 12 ip else ip)
      in if length ip' \<noteq> length m' then [] else map2 (AND) ip' m')"

definition parse_cidr :: "string \<Rightarrow> ipnet option" where
  "parse_cidr s =
     (case cut_byte (CHR ''/'') s of
        None \<Rightarrow> None
      | Some (a, m) \<Rightarrow>
          (case parse_addr a of
             None \<Rightarrow> None
           | Some ad \<Rightarrow>
               (case dtoi m of
                  None \<Rightarrow> None
                | Some (n, i) \<Rightarrow>
                    if i \<noteq> length m \<or> n > bit_len ad then None
                    else let cm = cidr_mask n (bit_len ad)
                         in Some \<lparr>net_ip = mask_ip (as16 ad) cm, net_mask = cm\<rparr>)))"

text \<open>\<open>networkNumberAndMask\<close> and \<open>IPNet.Contains\<close>.\<close>

definition net_number_and_mask :: "ipnet \<Rightarrow> ip \<times> byte list" where
  "net_number_and_mask n =
     (let ip = (if to4 (net_ip n) \<noteq> [] then to4 (net_ip n) else net_ip n); m = net_mask n
      in if to4 (net_ip n) = [] \<and> length ip \<noteq> 16 then ([], [])
         else if length m = 4 then (if length ip \<noteq> 4 then ([], []) else (ip, m))
         else if length m = 16 then (ip, if length ip = 4 then drop 12 m else m)
         else ([], []))"

definition contains :: "ipnet \<Rightarrow> ip \<Rightarrow> bool" where
  "contains n ip =
     (let (nn, m) = net_number_and_mask n; x = (if to4 ip \<noteq> [] then to4 ip else ip)
      in length x = length nn \<and> list_all (\<lambda>i. nn ! i AND m ! i = x ! i AND m ! i) [0..<length x])"

section \<open>Host and port\<close>

definition join_host_port :: "string \<Rightarrow> string \<Rightarrow> string" where
  "join_host_port host port =
     (if CHR '':'' \<in> set host then ''['' @ host @ '']:'' @ port else host @ '':'' @ port)"

definition split_host_port :: "string \<Rightarrow> (string \<times> string) option" where
  "split_host_port hp =
     (case last_index_byte (CHR '':'') hp of
        None \<Rightarrow> None
      | Some i \<Rightarrow>
          if hd hp = CHR ''['' then
            (case index_byte (CHR '']'') hp of
               None \<Rightarrow> None
             | Some e \<Rightarrow>
                 if e + 1 \<noteq> i then None
                 else if CHR ''['' \<in> set (drop 1 hp) \<or> CHR '']'' \<in> set (drop (e + 1) hp) then None
                 else Some (take (e - 1) (drop 1 hp), drop (i + 1) hp))
          else if CHR '':'' \<in> set (take i hp) then None
          else if CHR ''['' \<in> set hp \<or> CHR '']'' \<in> set hp then None
          else Some (take i hp, drop (i + 1) hp))"

text \<open>
  \<open>net.LookupPort("tcp", s)\<close>. The digits are accumulated in a \<open>uint32\<close> that saturates;
  text that is not numeric is looked up in the services database of the host, a parameter.
\<close>

fun parse_port_loop :: "u32 \<Rightarrow> string \<Rightarrow> u32 option" where
  "parse_port_loop n [] = Some n"
| "parse_port_loop n (d # ds) =
     (if \<not> is_digit d then None
      else if n \<ge> 2 ^ 30 then Some (- 1)
      else if n * 10 + of_nat (digit_val d) < n * 10 then Some (- 1)
      else parse_port_loop (n * 10 + of_nat (digit_val d)) ds)"

definition parse_port :: "string \<Rightarrow> int option" where
  "parse_port s =
     (case s of
        [] \<Rightarrow> Some 0
      | c # cs \<Rightarrow>
          (case parse_port_loop 0 (if c = CHR ''+'' \<or> c = CHR ''-'' then cs else s) of
             None \<Rightarrow> None
           | Some n \<Rightarrow>
               if c = CHR ''-'' then Some (- (if n > 2 ^ 30 then 2 ^ 30 else uint n))
               else Some (if n \<ge> 2 ^ 30 then 2 ^ 30 - 1 else uint n)))"

definition lookup_port :: "(string \<Rightarrow> int option) \<Rightarrow> string \<Rightarrow> int option" where
  "lookup_port services s =
     (case (case parse_port s of None \<Rightarrow> services s | Some p \<Rightarrow> Some p) of
        None \<Rightarrow> None
      | Some p \<Rightarrow> if 0 > p \<or> p > 65535 then None else Some p)"

section \<open>Dotted decimal\<close>

lemma dec_cases_byte:
  assumes "n < 256"
  obtains (one) "n < 10" "dec n = [digit_char n]"
  | (two) "10 \<le> n" "n < 100" "dec n = [digit_char (n div 10), digit_char (n mod 10)]"
  | (three) "100 \<le> n"
      "dec n = [digit_char (n div 100), digit_char (n div 10 mod 10), digit_char (n mod 10)]"
proof -
  consider "n < 10" | "10 \<le> n" "n < 100" | "100 \<le> n" by linarith
  then show thesis
  proof cases
    case 1
    then show thesis by (intro one) (simp_all add: dec.simps [of n])
  next
    case 2
    then show thesis
      by (intro two) (simp_all add: dec.simps [of n] dec.simps [of "n div 10"])
  next
    case 3
    have "n div 10 div 10 = n div 100" by (simp add: div_mult2_eq [symmetric])
    moreover have "n div 100 < 10" "\<not> n div 10 < 10" "\<not> n < 10" using 3 assms by auto
    ultimately show thesis using 3
      by (intro three) (simp_all add: dec.simps [of n] dec.simps [of "n div 10"] dec.simps [of "n div 100"])
  qed
qed

lemma parse_v4_loop_dec:
  assumes "n < 256"
  shows "parse_v4_loop 0 0 fs (dec n @ rest) = parse_v4_loop n (length (dec n)) fs rest"
  using assms
proof (cases n rule: dec_cases_byte)
  case two
  then have "n div 10 < 10" "n div 10 \<noteq> 0" by auto
  with two assms show ?thesis by (simp add: mult.commute [of _ 10])
next
  case three
  then have h: "n div 100 < 10" "n div 100 \<noteq> 0" using assms by auto
  have "n div 10 div 10 = n div 100" by (simp add: div_mult2_eq [symmetric])
  then have e: "n div 100 * 10 + n div 10 mod 10 = n div 10"
    using div_mult_mod_eq [of "n div 10" 10] by simp
  have "n div 10 * 10 + n mod 10 = n" "\<not> 255 < n div 10" using assms by simp_all
  with three h e assms show ?thesis by simp
qed simp

lemma parse_v4_string:
  assumes "length bs = 4"
  shows "parse_v4 (v4_string bs) = Some bs"
proof -
  obtain a b c d where bs: "bs = [a, b, c, d]"
    using assms by (auto simp: numeral_eq_Suc length_Suc_conv)
  have dot: "cs \<noteq> [] \<Longrightarrow> parse_v4_loop n (length (dec n)) fs (CHR ''.'' # cs) =
      (if length fs = 3 then None else parse_v4_loop 0 0 (fs @ [of_nat n]) cs)" for n fs cs
    by (subst parse_v4_loop.simps) (simp del: parse_v4_loop.simps)
  have oct: "parse_v4_loop 0 0 fs (dec (unat x) @ CHR ''.'' # dec m @ r) =
      (if length fs = 3 then None else parse_v4_loop 0 0 (fs @ [x]) (dec m @ r))" for x :: byte and fs m r
    using dot [of "dec m @ r" "unat x" fs] by (simp add: parse_v4_loop_dec del: parse_v4_loop.simps)
  have last: "parse_v4_loop 0 0 fs (dec (unat x)) = (if length fs < 3 then None else Some (fs @ [x]))"
    for x :: byte and fs
    using parse_v4_loop_dec [of "unat x" fs "[]"] by simp
  show ?thesis
    using oct [of _ _ _ "[]"]
    by (simp add: bs parse_v4_def v4_string_def oct last del: parse_v4_loop.simps)
qed

lemma v4_string_chars: "c \<in> set (v4_string bs) \<Longrightarrow> is_digit c \<or> c = CHR ''.''"
  using dec_digits by (auto simp: v4_string_def)

lemma v4_string_no_sep [simp]:
  "CHR '':'' \<notin> set (v4_string bs)" "CHR ''/'' \<notin> set (v4_string bs)"
  "CHR ''['' \<notin> set (v4_string bs)" "CHR '']'' \<notin> set (v4_string bs)"
  "CHR ''%'' \<notin> set (v4_string bs)"
  by (auto dest: v4_string_chars)

lemma v4_string_nonempty [simp]: "v4_string bs \<noteq> []"
  by (simp add: v4_string_def)

lemma find_first_dot:
  "\<forall>c \<in> set xs. is_digit c \<Longrightarrow>
   List.find (\<lambda>c. c = CHR ''.'' \<or> c = CHR '':'' \<or> c = CHR ''%'') (xs @ CHR ''.'' # ys) = Some (CHR ''.'')"
  by (induction xs) auto

lemma parse_addr_v4_string:
  assumes "length bs = 4"
  shows "parse_addr (v4_string bs) = Some (V4 bs)"
proof -
  have "List.find (\<lambda>c. c = CHR ''.'' \<or> c = CHR '':'' \<or> c = CHR ''%'') (v4_string bs) = Some (CHR ''.'')"
    using find_first_dot [OF dec_digits] by (simp add: v4_string_def)
  then show ?thesis by (simp add: parse_addr_def parse_v4_string assms)
qed

lemma parse_ip_v4_string: "length bs = 4 \<Longrightarrow> parse_ip (v4_string bs) = v4_mapped bs"
  by (simp add: parse_ip_def parse_addr_v4_string)

lemma ip_string_v4: "to4 ip \<noteq> [] \<Longrightarrow> ip_string ip = v4_string (to4 ip)"
  by (auto simp: ip_string_def)

lemma parse_ip_ip_string: "to4 ip \<noteq> [] \<Longrightarrow> parse_ip (ip_string ip) = v4_mapped (to4 ip)"
  using length_to4 [of ip] by (simp add: ip_string_v4 parse_ip_v4_string)

section \<open>Host and port\<close>

lemma split_join_host_port:
  assumes port: "CHR '':'' \<notin> set p" "CHR ''['' \<notin> set p" "CHR '']'' \<notin> set p"
    and host: "CHR ''['' \<notin> set h" "CHR '']'' \<notin> set h"
  shows "split_host_port (join_host_port h p) = Some (h, p)"
proof (cases "CHR '':'' \<in> set h")
  case True
  let ?hp = "(CHR ''['' # h @ [CHR '']'']) @ CHR '':'' # p"
  have hp: "join_host_port h p = ?hp" using True by (simp add: join_host_port_def)
  have "last_index_byte (CHR '':'') ?hp = Some (length h + 2)"
    using last_index_byte_append [OF port(1), of "CHR ''['' # h @ [CHR '']'']"] by simp
  moreover have "index_byte (CHR '']'') ?hp = Some (length h + 1)"
    using index_byte_append [of "CHR '']''" "CHR ''['' # h" "CHR '':'' # p"] host by simp
  ultimately show ?thesis
    unfolding hp using assms by (simp add: split_host_port_def)
next
  case False
  then have hp: "join_host_port h p = h @ CHR '':'' # p" by (simp add: join_host_port_def)
  have "hd (h @ CHR '':'' # p) \<noteq> CHR ''[''"
    using host(1) by (cases h) auto
  with False assms show ?thesis
    by (simp add: hp split_host_port_def last_index_byte_append)
qed

lemma foldl_dec_ge: "acc \<le> foldl (\<lambda>acc c. acc * 10 + digit_val c) acc ds"
proof (induction ds arbitrary: acc)
  case (Cons d ds)
  have "acc \<le> acc * 10 + digit_val d" by simp
  also have "\<dots> \<le> foldl (\<lambda>acc c. acc * 10 + digit_val c) (acc * 10 + digit_val d) ds" by (rule Cons)
  finally show ?case by simp
qed simp

lemma parse_port_loop_digits:
  assumes "\<forall>d \<in> set ds. is_digit d"
    and "foldl (\<lambda>acc c. acc * 10 + digit_val c) (unat n) ds < 2 ^ 30"
  shows "parse_port_loop n ds = Some (of_nat (foldl (\<lambda>acc c. acc * 10 + digit_val c) (unat n) ds))"
  using assms
proof (induction ds arbitrary: n)
  case (Cons d ds)
  let ?m = "unat n * 10 + digit_val d"
  have m: "?m < 2 ^ 30"
    using Cons.prems(2) foldl_dec_ge [of ?m ds] by simp
  then have u: "unat (n * 10 + of_nat (digit_val d)) = ?m" "unat (n * 10) = unat n * 10"
    by (simp_all add: unat_word_ariths unat_of_nat)
  then have "\<not> n * 10 + of_nat (digit_val d) < n * 10" "\<not> n \<ge> 2 ^ 30"
    using m by (simp_all add: word_less_nat_alt word_le_nat_alt)
  with Cons u show ?case by simp
qed simp

lemma parse_port_dec: "n < 2 ^ 30 \<Longrightarrow> parse_port (dec n) = Some (int n)"
proof -
  assume n: "n < 2 ^ 30"
  obtain c cs where d: "dec n = c # cs" by (cases "dec n") auto
  then have "c \<noteq> CHR ''+''" "c \<noteq> CHR ''-''"
    using dec_digits [of n] by auto
  moreover have "parse_port_loop 0 (c # cs) = Some (of_nat n)"
    using parse_port_loop_digits [of "dec n" 0] dec_digits [of n] dec_val_dec [of n] n
    by (simp add: d dec_val_def del: dec_val_dec)
  moreover have "uint (of_nat n :: u32) = int n" "\<not> (of_nat n :: u32) \<ge> 2 ^ 30"
    using n by (simp_all add: uint_nat unat_of_nat word_le_nat_alt)
  ultimately show ?thesis by (simp add: parse_port_def d)
qed

lemma lookup_port_dec: "n \<le> 65535 \<Longrightarrow> lookup_port services (dec n) = Some (int n)"
  by (simp add: lookup_port_def parse_port_dec)

section \<open>What a CIDR block matches\<close>

text \<open>Bit \<open>j\<close> of an address, counted from the most significant bit of its first byte.\<close>

definition ip_bit :: "ip \<Rightarrow> nat \<Rightarrow> bool" where
  "ip_bit bs j = bit (bs ! (j div 8)) (7 - j mod 8)"

definition same_prefix :: "nat \<Rightarrow> ip \<Rightarrow> ip \<Rightarrow> bool" where
  "same_prefix n a b \<longleftrightarrow> list_all (\<lambda>j. ip_bit a j = ip_bit b j) [0..<n]"

lemma same_prefix_iff: "same_prefix n a b \<longleftrightarrow> (\<forall>j<n. ip_bit a j = ip_bit b j)"
  by (auto simp: same_prefix_def list_all_iff)

lemma same_prefix_sym: "same_prefix n a b \<longleftrightarrow> same_prefix n b a"
  by (auto simp: same_prefix_iff)

lemma length_cidr_mask [simp]: "length (cidr_mask n bits) = bits div 8"
  by (simp add: cidr_mask_def)

lemma bit_byte_255: "bit (255 :: byte) m \<longleftrightarrow> m < 8"
proof -
  have "(255 :: byte) = mask 8" by (simp add: mask_eq_exp_minus_1)
  then show ?thesis by (simp only: bit_mask_iff) (auto simp: possible_bit_word)
qed

lemma mask_byte_prefix:
  assumes "k \<le> 8"
  shows "(a :: byte) AND NOT (drop_bit k 255) = b AND NOT (drop_bit k 255) \<longleftrightarrow>
         (\<forall>j<k. bit a (7 - j) = bit b (7 - j))" (is "?L \<longleftrightarrow> ?R")
proof
  assume ?L
  show ?R
  proof (intro allI impI)
    fix j assume "j < k"
    from \<open>?L\<close> have "bit (a AND NOT (drop_bit k 255)) (7 - j) = bit (b AND NOT (drop_bit k 255)) (7 - j)"
      by simp
    moreover have "\<not> k + (7 - j) < 8" "7 - j < 8" using \<open>j < k\<close> assms by simp_all
    ultimately show "bit a (7 - j) = bit b (7 - j)" by (simp add: bit_simps)
  qed
next
  assume R: ?R
  show ?L
  proof (rule bit_word_eqI)
    fix i assume i: "i < LENGTH(8)"
    show "bit (a AND NOT (drop_bit k 255)) i = bit (b AND NOT (drop_bit k 255)) i"
    proof (cases "8 - k \<le> i")
      case True
      with i assms have "7 - i < k" "7 - (7 - i) = i" by auto
      with R show ?thesis by (metis (no_types, lifting) bit_and_iff)
    next
      case False
      with i assms have "k + i < 8" by simp
      then show ?thesis by (simp only: bit_and_iff bit_not_iff bit_drop_bit_eq comp_def bit_byte_255) simp
    qed
  qed
qed

lemma mask_bytes_prefix:
  assumes "n \<le> 8 * L"
  shows "(\<forall>i<L. a ! i AND cidr_mask n (8 * L) ! i = x ! i AND cidr_mask n (8 * L) ! i) \<longleftrightarrow>
         (\<forall>j<n. ip_bit a j = ip_bit x j)" (is "?L \<longleftrightarrow> ?R")
proof -
  have byte: "a ! i AND cidr_mask n (8 * L) ! i = x ! i AND cidr_mask n (8 * L) ! i \<longleftrightarrow>
      (\<forall>j < min 8 (n - 8 * i). bit (a ! i) (7 - j) = bit (x ! i) (7 - j))" if "i < L" for i
    using that by (simp add: cidr_mask_def mask_byte_prefix)
  show ?thesis
  proof
    assume ?L
    show ?R
    proof (intro allI impI)
      fix j assume j: "j < n"
      let ?i = "j div 8"
      have "?i < L" "j mod 8 < min 8 (n - 8 * ?i)"
        using j assms mult_div_mod_eq [of 8 j] mod_less_divisor [of 8 j] by linarith+
      with \<open>?L\<close> byte show "ip_bit a j = ip_bit x j" by (simp add: ip_bit_def)
    qed
  next
    assume R: ?R
    show ?L
    proof (intro allI impI)
      fix i assume i: "i < L"
      have "bit (a ! i) (7 - j) = bit (x ! i) (7 - j)" if "j < min 8 (n - 8 * i)" for j
        using R [rule_format, of "8 * i + j"] that by (simp add: ip_bit_def less_diff_conv add.commute)
      with byte [OF i] show "a ! i AND cidr_mask n (8 * L) ! i = x ! i AND cidr_mask n (8 * L) ! i"
        by blast
    qed
  qed
qed

lemma contains_v4_net:
  assumes a: "length a = 4" and n: "n \<le> 32"
  shows "contains \<lparr>net_ip = mask_ip (v4_mapped a) (cidr_mask n 32), net_mask = cidr_mask n 32\<rparr> ip
    \<longleftrightarrow> to4 ip \<noteq> [] \<and> same_prefix n a (to4 ip)"
proof -
  let ?m = "cidr_mask n 32"
  let ?nn = "map2 (AND) a ?m"
  have nn: "mask_ip (v4_mapped a) ?m = ?nn"
    using a by (simp add: mask_ip_def v4_mapped_def)
  have len: "length ?nn = 4" using a by simp
  have x4: "length (if to4 ip \<noteq> [] then to4 ip else ip) = 4 \<longleftrightarrow> to4 ip \<noteq> []"
    using length_to4 [of ip] by (auto simp: to4_def)
  have ne: "to4 ?nn \<noteq> []" using len by (metis list.size(3) to4_v4 zero_neq_numeral)
  have "net_number_and_mask \<lparr>net_ip = ?nn, net_mask = ?m\<rparr> = (?nn, ?m)"
    using len ne by (simp add: net_number_and_mask_def)
  then have "contains \<lparr>net_ip = ?nn, net_mask = ?m\<rparr> ip \<longleftrightarrow>
      to4 ip \<noteq> [] \<and> (\<forall>i<4. ?nn ! i AND ?m ! i = to4 ip ! i AND ?m ! i)"
    using len x4 by (auto simp: contains_def list_all_iff)
  also have "(\<forall>i<4. ?nn ! i AND ?m ! i = to4 ip ! i AND ?m ! i) \<longleftrightarrow>
      (\<forall>i<4. a ! i AND ?m ! i = to4 ip ! i AND ?m ! i)"
    using a by (simp add: ac_simps)
  also have "\<dots> \<longleftrightarrow> same_prefix n a (to4 ip)"
    using mask_bytes_prefix [of n 4 a "to4 ip"] n by (simp add: same_prefix_iff)
  finally show ?thesis by (simp add: nn)
qed

lemma dtoi_loop_digits:
  assumes "\<forall>d \<in> set ds. is_digit d"
    and "foldl (\<lambda>acc c. acc * 10 + digit_val c) n ds < 16777215"
  shows "dtoi_loop n i ds = Some (foldl (\<lambda>acc c. acc * 10 + digit_val c) n ds, i + length ds)"
  using assms
proof (induction ds arbitrary: n i)
  case (Cons d ds)
  have "n * 10 + digit_val d < 16777215"
    using Cons.prems(2) foldl_dec_ge [of "n * 10 + digit_val d" ds] by simp
  with Cons show ?case by simp
qed simp

lemma dtoi_dec: "n < 16777215 \<Longrightarrow> dtoi (dec n) = Some (n, length (dec n))"
  using dtoi_loop_digits [of "dec n" 0 0] dec_digits [of n] dec_val_dec [of n]
  by (simp add: dtoi_def dec_val_def del: dec_val_dec)

lemma parse_cidr_v4_string:
  assumes a: "length a = 4" and n: "n \<le> 32"
  shows "parse_cidr (v4_string a @ CHR ''/'' # dec n) =
    Some \<lparr>net_ip = mask_ip (v4_mapped a) (cidr_mask n 32), net_mask = cidr_mask n 32\<rparr>"
  using assms by (simp add: parse_cidr_def cut_byte_append parse_addr_v4_string dtoi_dec Let_def)

end
