(* ===== verification/Packet.thy ===== *)
theory Packet
  imports GoNet
begin

text \<open>
  \<open>pkg/network/packet.go\<close>: IPv4 and TCP headers, their parsers and serialisers. Byte fields
  keep their width. A slice expression or an index out of range is the outcome \<open>Panic\<close>, a
  returned error is \<open>Err\<close>. The lemmas give every branch of the parsers, say exactly when
  they panic, and relate the parser and the serialiser in both directions.
\<close>

section \<open>Data\<close>

definition ProtocolICMP :: byte where "ProtocolICMP = 1"
definition ProtocolTCP :: byte where "ProtocolTCP = 6"
definition ProtocolUDP :: byte where "ProtocolUDP = 17"

definition FlagFIN :: byte where "FlagFIN = push_bit 0 1"
definition FlagSYN :: byte where "FlagSYN = push_bit 1 1"
definition FlagRST :: byte where "FlagRST = push_bit 2 1"
definition FlagPSH :: byte where "FlagPSH = push_bit 3 1"
definition FlagACK :: byte where "FlagACK = push_bit 4 1"
definition FlagURG :: byte where "FlagURG = push_bit 5 1"

record ip_packet =
  Version :: byte
  HeaderLen :: byte
  TOS :: byte
  TotalLen :: u16
  PktID :: u16
  Flags :: byte
  FragOffset :: u16
  TTL :: byte
  Protocol :: byte
  Checksum :: u16
  SrcIP :: ip
  DstIP :: ip
  Options :: "byte list"
  Payload :: "byte list"

record tcp_packet =
  SrcPort :: u16
  DstPort :: u16
  SeqNum :: u32
  AckNum :: u32
  DataOffset :: byte
  TFlags :: byte
  Window :: u16
  TChecksum :: u16
  Urgent :: u16
  TOptions :: "byte list"
  TPayload :: "byte list"

datatype parse_error =
    TooSmallForIPHeader nat
  | UnsupportedIPVersion byte
  | SmallerThanHeaderLength nat byte
  | TooSmallForTCPHeader nat
  | SmallerThanDataOffset nat byte
  | UnsupportedProtocol byte
  | PayloadTooSmallForPorts

section \<open>Parsing\<close>

definition ParseIPPacket :: "byte list \<Rightarrow> (parse_error, ip_packet) outcome" where
  "ParseIPPacket data =
     (if length data < 20 then Err (TooSmallForIPHeader (length data))
      else let version = drop_bit 4 (data ! 0) in
      if version \<noteq> 4 then Err (UnsupportedIPVersion version)
      else let headerLen = (data ! 0 AND 0x0F) * 4 in
      if length data < unat headerLen then Err (SmallerThanHeaderLength (length data) headerLen)
      else
        let totalLen = get_be16 data 2; flagsAndOffset = get_be16 data 6;
            pkt = \<lparr>Version = version, HeaderLen = headerLen, TOS = data ! 1,
              TotalLen = totalLen, PktID = get_be16 data 4,
              Flags = ucast (drop_bit 13 flagsAndOffset),
              FragOffset = flagsAndOffset AND 0x1FFF,
              TTL = data ! 8, Protocol = data ! 9, Checksum = get_be16 data 10,
              SrcIP = take 4 (drop 12 data), DstIP = take 4 (drop 16 data),
              Options = (if headerLen > 20 then take (unat headerLen - 20) (drop 20 data) else []),
              Payload = []\<rparr>
        in case (if unat totalLen \<le> length data then slice data (unat headerLen) (unat totalLen)
                 else slice data (unat headerLen) (length data)) of
             None \<Rightarrow> Panic
           | Some p \<Rightarrow> Ok (pkt\<lparr>Payload := p\<rparr>))"

definition ParseTCPPacket :: "byte list \<Rightarrow> (parse_error, tcp_packet) outcome" where
  "ParseTCPPacket payload =
     (if length payload < 20 then Err (TooSmallForTCPHeader (length payload))
      else
        let dataOffset = drop_bit 4 (payload ! 12) * 4;
            tcp = \<lparr>SrcPort = get_be16 payload 0, DstPort = get_be16 payload 2,
              SeqNum = get_be32 payload 4, AckNum = get_be32 payload 8,
              DataOffset = dataOffset, TFlags = payload ! 13 AND 0x3F,
              Window = get_be16 payload 14, TChecksum = get_be16 payload 16,
              Urgent = get_be16 payload 18, TOptions = [], TPayload = []\<rparr>
        in if dataOffset > 20 \<and> length payload < unat dataOffset
           then Err (SmallerThanDataOffset (length payload) dataOffset)
           else
             let tcp' = (if dataOffset > 20
                  then tcp\<lparr>TOptions := take (unat dataOffset - 20) (drop 20 payload)\<rparr> else tcp)
             in if length payload > unat dataOffset
                then (case slice payload (unat dataOffset) (length payload) of
                        None \<Rightarrow> Panic | Some p \<Rightarrow> Ok (tcp'\<lparr>TPayload := p\<rparr>))
                else Ok tcp')"

section \<open>Serialising\<close>

text \<open>
  \<open>make\<close> gives a zeroed buffer; the fields are written one after the other, the options and
  the payload last. The writes to fixed positions below 20 panic on a shorter buffer, as
  does \<open>data[p.HeaderLen:]\<close> beyond its end.
\<close>

definition IPPacket_Serialize :: "ip_packet \<Rightarrow> (parse_error, byte list) outcome" where
  "IPPacket_Serialize p =
     (let totalLen = unat (HeaderLen p) + length (Payload p);
          data = replicate totalLen (0 :: byte);
          flagsAndOffset = push_bit 13 (ucast (Flags p)) OR (FragOffset p AND 0x1FFF)
      in if totalLen < 20 then Panic
         else
           let data = data[0 := push_bit 4 (Version p) OR (HeaderLen p div 4)];
               data = data[1 := TOS p];
               data = put_be16 2 (of_nat totalLen) data;
               data = put_be16 4 (PktID p) data;
               data = put_be16 6 flagsAndOffset data;
               data = data[8 := TTL p];
               data = data[9 := Protocol p];
               data = put_be16 10 (Checksum p) data;
               data = copy_at 12 (take 4 (to4 (SrcIP p))) data;
               data = copy_at 16 (take 4 (to4 (DstIP p))) data;
               data = (if length (Options p) > 0 then copy_at 20 (Options p) data else data);
               data = copy_at (unat (HeaderLen p)) (Payload p) data
           in Ok data)"

definition TCPPacket_Serialize :: "tcp_packet \<Rightarrow> (parse_error, byte list) outcome" where
  "TCPPacket_Serialize t =
     (let totalLen = unat (DataOffset t) + length (TPayload t);
          data = replicate totalLen (0 :: byte)
      in if totalLen < 20 then Panic
         else
           let data = put_be16 0 (SrcPort t) data;
               data = put_be16 2 (DstPort t) data;
               data = put_be32 4 (SeqNum t) data;
               data = put_be32 8 (AckNum t) data;
               data = data[12 := push_bit 4 (DataOffset t div 4)];
               data = data[13 := TFlags t];
               data = put_be16 14 (Window t) data;
               data = put_be16 16 (TChecksum t) data;
               data = put_be16 18 (Urgent t) data;
               data = (if length (TOptions t) > 0 then copy_at 20 (TOptions t) data else data);
               data = copy_at (unat (DataOffset t)) (TPayload t) data
           in Ok data)"

definition HasFlag :: "tcp_packet \<Rightarrow> byte \<Rightarrow> bool" where
  "HasFlag t flag \<longleftrightarrow> TFlags t AND flag \<noteq> 0"


section \<open>IPv4: well-formed packets and their layout\<close>

text \<open>
  The packets the wire format can carry: the fields fit their bit widths and the lengths
  agree. \<open>ip_fixed_bytes\<close> are the first twelve bytes of the header.
\<close>

definition wf_ip :: "ip_packet \<Rightarrow> bool" where
  "wf_ip p \<longleftrightarrow> Version p = 4 \<and> 20 \<le> unat (HeaderLen p) \<and> unat (HeaderLen p) \<le> 60 \<and>
     4 dvd unat (HeaderLen p) \<and> Flags p < 8 \<and> FragOffset p < 0x2000 \<and>
     length (SrcIP p) = 4 \<and> length (DstIP p) = 4 \<and>
     length (Options p) = unat (HeaderLen p) - 20 \<and>
     unat (TotalLen p) = unat (HeaderLen p) + length (Payload p)"

definition ip_frag_word :: "ip_packet \<Rightarrow> u16" where
  "ip_frag_word p = push_bit 13 (ucast (Flags p)) OR (FragOffset p AND 0x1FFF)"

definition ip_fixed_bytes :: "ip_packet \<Rightarrow> byte list" where
  "ip_fixed_bytes p =
     (let tl = of_nat (unat (HeaderLen p) + length (Payload p)) in
      [push_bit 4 (Version p) OR (HeaderLen p div 4), TOS p, hi8 tl, lo8 tl,
       hi8 (PktID p), lo8 (PktID p), hi8 (ip_frag_word p), lo8 (ip_frag_word p),
       TTL p, Protocol p, hi8 (Checksum p), lo8 (Checksum p)])"

lemma length_ip_fixed_bytes [simp]: "length (ip_fixed_bytes p) = 12"
  by (simp add: ip_fixed_bytes_def Let_def)

lemma copy_at_12: "copy_at 12 [s0, s1, s2, s3] (b0 # b1 # b2 # b3 # b4 # b5 # b6 # b7 # b8 # b9 #
    b10 # b11 # b12 # b13 # b14 # b15 # rest) = b0 # b1 # b2 # b3 # b4 # b5 # b6 # b7 # b8 # b9 #
    b10 # b11 # s0 # s1 # s2 # s3 # rest"
  by (simp add: copy_at_def)

lemma copy_at_16: "copy_at 16 [s0, s1, s2, s3] (b0 # b1 # b2 # b3 # b4 # b5 # b6 # b7 # b8 # b9 #
    b10 # b11 # b12 # b13 # b14 # b15 # b16 # b17 # b18 # b19 # rest) = b0 # b1 # b2 # b3 # b4 # b5 #
    b6 # b7 # b8 # b9 # b10 # b11 # b12 # b13 # b14 # b15 # s0 # s1 # s2 # s3 # rest"
  by (simp add: copy_at_def)

lemma copy_options_payload:
  assumes "length h = 20" "20 \<le> hl" "length opts = hl - 20"
  shows "copy_at hl pay (if length opts > 0 then copy_at 20 opts (h @ replicate (hl + length pay - 20) x)
      else h @ replicate (hl + length pay - 20) x) = h @ opts @ pay"
proof -
  have "replicate (hl + length pay - 20) x = replicate (length opts) x @ replicate (length pay) x"
    using assms by (simp add: replicate_add [symmetric])
  then have "(if length opts > 0 then copy_at 20 opts (h @ replicate (hl + length pay - 20) x)
      else h @ replicate (hl + length pay - 20) x) = (h @ opts) @ replicate (length pay) x"
    using assms by (auto simp: copy_at_mid)
  then show ?thesis using assms by (simp only: copy_at_suffix length_replicate length_append) simp
qed

lemma Serialize_layout:
  assumes "20 \<le> unat (HeaderLen p)" "length (Options p) = unat (HeaderLen p) - 20"
    and "length (SrcIP p) = 4" "length (DstIP p) = 4"
  shows "IPPacket_Serialize p = Ok (ip_fixed_bytes p @ SrcIP p @ DstIP p @ Options p @ Payload p)"
proof -
  obtain s0 s1 s2 s3 where s: "SrcIP p = [s0, s1, s2, s3]" using assms(3) by (rule length_4_obtain)
  obtain d0 d1 d2 d3 where d: "DstIP p = [d0, d1, d2, d3]" using assms(4) by (rule length_4_obtain)
  let ?n = "unat (HeaderLen p) + length (Payload p)"
  let ?h = "ip_fixed_bytes p @ SrcIP p @ DstIP p"
  have n: "20 \<le> ?n" "\<not> ?n < 20" using assms(1) by simp_all
  have "IPPacket_Serialize p = Ok (copy_at (unat (HeaderLen p)) (Payload p)
      (if length (Options p) > 0 then copy_at 20 (Options p) (?h @ replicate (?n - 20) 0)
       else ?h @ replicate (?n - 20) 0))"
    unfolding IPPacket_Serialize_def Let_def
    by (simp add: n replicate_20 [OF n(1)] put_be16_def s d ip_fixed_bytes_def ip_frag_word_def Let_def
      copy_at_12 copy_at_16)
  also have "\<dots> = Ok (?h @ Options p @ Payload p)"
    using copy_options_payload [of ?h "unat (HeaderLen p)" "Options p" "Payload p" "0::byte"] assms
    by (simp add: ip_fixed_bytes_def Let_def)
  finally show ?thesis by simp
qed

lemma and_1FFF: "(w :: u16) AND 0x1FFF = take_bit 13 w"
  by (simp add: take_bit_eq_mask mask_eq_exp_minus_1)

lemma bit_take_bit_word_less:
  assumes "unat (w :: 'a :: len word) < 2 ^ n" "bit w k"
  shows "k < n"
proof (rule ccontr)
  assume "\<not> k < n"
  with assms(1) have "unat w < 2 ^ k" by (meson leI order_less_le_trans one_le_numeral power_increasing)
  then have "\<not> bit (unat w) k" by (simp add: bit_iff_odd)
  with assms(2) show False by (simp add: bit_unsigned_iff)
qed

lemma frag_word_fields:
  assumes "f < 8" "fo < 0x2000"
  shows "ucast (drop_bit 13 (push_bit 13 (ucast f :: u16) OR (fo AND 0x1FFF))) = (f :: byte)"
    and "(push_bit 13 (ucast f :: u16) OR (fo AND 0x1FFF)) AND 0x1FFF = fo"
proof -
  have f: "k < 3" if "bit f k" for k using bit_take_bit_word_less [of f 3 k] assms(1) that by (simp add: word_less_nat_alt)
  have fo: "k < 13" if "bit fo k" for k using bit_take_bit_word_less [of fo 13 k] assms(2) that by (simp add: word_less_nat_alt)
  show "ucast (drop_bit 13 (push_bit 13 (ucast f :: u16) OR (fo AND 0x1FFF))) = (f :: byte)"
    unfolding and_1FFF by (rule bit_word_eqI) (use f in \<open>auto simp: bit_simps\<close>)
  show "(push_bit 13 (ucast f :: u16) OR (fo AND 0x1FFF)) AND 0x1FFF = fo"
    unfolding and_1FFF by (rule bit_word_eqI) (use fo in \<open>auto simp: bit_simps\<close>)
qed

lemma header_len_cases:
  assumes "20 \<le> unat h" "unat h \<le> 60" "4 dvd unat h"
  shows "h \<in> {20, 24, 28, 32, 36, 40, 44, 48, 52, 56, 60 :: byte}"
proof -
  from assms(3) obtain k where k: "unat h = 4 * k" by (elim dvdE)
  then have "5 \<le> k" "k \<le> 15" using assms by auto
  then have "k \<in> {5, 6, 7, 8, 9, 10, 11, 12, 13, 14, 15}"
    unfolding insert_iff empty_iff by presburger
  moreover have "h = of_nat (4 * k)" using k by (metis of_nat_unat ucast_id)
  ultimately show ?thesis by auto
qed

lemma header_byte_fields:
  assumes "20 \<le> unat h" "unat h \<le> 60" "4 dvd unat h"
  shows "drop_bit 4 (push_bit 4 4 OR (h div 4) :: byte) = 4"
    and "((push_bit 4 4 OR (h div 4) :: byte) AND 0x0F) * 4 = h"
  using header_len_cases [OF assms] by auto


lemma wf_ip_layout: "wf_ip p \<Longrightarrow>
  IPPacket_Serialize p = Ok (ip_fixed_bytes p @ SrcIP p @ DstIP p @ Options p @ Payload p)"
  by (rule Serialize_layout) (simp_all add: wf_ip_def)

lemma ip_fixed_bytes_wf:
  assumes "wf_ip p"
  shows "ip_fixed_bytes p = [push_bit 4 (Version p) OR (HeaderLen p div 4), TOS p,
    hi8 (TotalLen p), lo8 (TotalLen p), hi8 (PktID p), lo8 (PktID p), hi8 (ip_frag_word p),
    lo8 (ip_frag_word p), TTL p, Protocol p, hi8 (Checksum p), lo8 (Checksum p)]"
proof -
  have "of_nat (unat (HeaderLen p) + length (Payload p)) = TotalLen p"
    using assms unfolding wf_ip_def by (metis of_nat_unat ucast_id)
  then show ?thesis by (simp only: ip_fixed_bytes_def Let_def)
qed

lemma Parse_layout:
  assumes wf: "wf_ip p"
  shows "ParseIPPacket (ip_fixed_bytes p @ SrcIP p @ DstIP p @ Options p @ Payload p) = Ok p"
proof -
  obtain s0 s1 s2 s3 where s: "SrcIP p = [s0, s1, s2, s3]"
    using wf by (auto simp: wf_ip_def elim: length_4_obtain)
  obtain d0 d1 d2 d3 where d: "DstIP p = [d0, d1, d2, d3]"
    using wf by (auto simp: wf_ip_def elim: length_4_obtain)
  let ?b0 = "push_bit 4 (Version p) OR (HeaderLen p div 4)"
  let ?tl = "of_nat (unat (HeaderLen p) + length (Payload p)) :: u16"
  let ?data = "ip_fixed_bytes p @ SrcIP p @ DstIP p @ Options p @ Payload p"
  have data: "?data = ?b0 # TOS p # hi8 ?tl # lo8 ?tl # hi8 (PktID p) # lo8 (PktID p) #
      hi8 (ip_frag_word p) # lo8 (ip_frag_word p) # TTL p # Protocol p # hi8 (Checksum p) #
      lo8 (Checksum p) # s0 # s1 # s2 # s3 # d0 # d1 # d2 # d3 # Options p @ Payload p"
    by (simp add: ip_fixed_bytes_def Let_def s d)
  have hl: "20 \<le> unat (HeaderLen p)" "unat (HeaderLen p) \<le> 60" "4 dvd unat (HeaderLen p)"
    and lo: "length (Options p) = unat (HeaderLen p) - 20"
    and tl: "unat (TotalLen p) = unat (HeaderLen p) + length (Payload p)"
    and ver: "Version p = 4" and fl: "Flags p < 8" "FragOffset p < 0x2000"
    using wf by (simp_all add: wf_ip_def)
  have len: "length ?data = unat (TotalLen p)"
    unfolding data using hl lo tl by simp
  have tlw: "?tl = TotalLen p"
    unfolding tl [symmetric] by simp
  have hdr: "drop_bit 4 ?b0 = 4" "(?b0 AND 0x0F) * 4 = HeaderLen p"
    using header_byte_fields [OF hl] ver by simp_all
  have opt: "HeaderLen p > 20 \<longleftrightarrow> Options p \<noteq> []"
    using hl(1) lo by (cases "Options p") (auto simp: word_less_nat_alt)
  have pay: "slice ?data (unat (HeaderLen p)) (unat (TotalLen p)) = Some (Payload p)"
    using slice_append [of "unat (HeaderLen p)" "ip_fixed_bytes p @ SrcIP p @ DstIP p @ Options p"
        "unat (TotalLen p)" "Payload p" "[]"] hl(1) lo tl by (simp add: s d)
  have d20: "drop 20 ?data = Options p @ Payload p"
    unfolding data by simp
  have eqs: "?data ! 0 = ?b0" "get_be16 ?data 2 = TotalLen p" "get_be16 ?data 6 = ip_frag_word p"
    "?data ! 1 = TOS p" "get_be16 ?data 4 = PktID p" "?data ! 8 = TTL p" "?data ! 9 = Protocol p"
    "get_be16 ?data 10 = Checksum p" "take 4 (drop 12 ?data) = SrcIP p" "take 4 (drop 16 ?data) = DstIP p"
    unfolding data tlw by (simp_all add: get_be16_def s d)
  have fr: "ucast (drop_bit 13 (ip_frag_word p)) = Flags p" "ip_frag_word p AND 0x1FFF = FragOffset p"
    using frag_word_fields [OF fl] by (simp_all add: ip_frag_word_def)
  have "take (unat (HeaderLen p) - 20) (Options p @ Payload p) = Options p"
    using lo by simp
  moreover have "\<not> length ?data < 20" "\<not> length ?data < unat (HeaderLen p)"
    unfolding len using hl tl by simp_all
  ultimately show ?thesis
    unfolding ParseIPPacket_def Let_def eqs hdr fr d20
    using len pay opt ver by simp
qed

lemma and_0F: "(b :: byte) AND 0x0F = take_bit 4 b"
  by (simp add: take_bit_eq_mask mask_eq_exp_minus_1)

lemma unat_and_0F: "unat ((b :: byte) AND 0x0F) < 16"
  using take_bit_nat_less_exp [of 4 "unat b"] by (simp add: and_0F unsigned_take_bit_eq)

lemma unat_header_len: "unat (((b :: byte) AND 0x0F) * 4) = unat (b AND 0x0F) * 4"
  using unat_and_0F [of b] by (simp add: unat_word_ariths)

lemma header_byte_join: "push_bit 4 (drop_bit 4 b) OR ((b AND 0x0F) * 4 div 4) = (b :: byte)"
proof -
  have "unat ((b AND 0x0F) * 4 div 4) = unat (b AND 0x0F)"
    unfolding unat_div unat_header_len by simp
  then have "(b AND 0x0F) * 4 div 4 = b AND 0x0F" by (simp only: unsigned_word_eqI)
  moreover have "push_bit 4 (drop_bit 4 b) OR take_bit 4 b = b"
    by (rule bit_word_eqI) (auto simp: bit_simps)
  ultimately show ?thesis by (simp only: and_0F)
qed

lemma frag_word_join:
  "push_bit 13 (ucast (ucast (drop_bit 13 w) :: byte)) OR ((w AND 0x1FFF) AND 0x1FFF) = (w :: u16)"
  unfolding and_1FFF by (rule bit_word_eqI) (auto simp: bit_simps)

lemma frag_word_bounds: "(ucast (drop_bit 13 (w :: u16)) :: byte) < 8" "w AND 0x1FFF < 0x2000"
proof -
  have "unat (drop_bit 13 w) < 8"
    using order_less_le_trans [OF unsigned_less [of w], of "65536 :: nat"] by (simp add: unat_drop_bit_eq drop_bit_eq_div unat_div div_less_iff_less_mult)
  then show "(ucast (drop_bit 13 w) :: byte) < 8"
    by (simp add: word_less_nat_alt unsigned_ucast_eq) (metis take_bit_nat_less_eq_self le_less_trans)
  show "w AND 0x1FFF < 0x2000"
    unfolding and_1FFF using take_bit_nat_less_exp [of 13 "unat w"]
    by (simp add: word_less_nat_alt unsigned_take_bit_eq)
qed

text \<open>Every outcome of the parser, by the fields that decide it.\<close>

definition ip_version :: "byte list \<Rightarrow> byte" where
  "ip_version data = drop_bit 4 (data ! 0)"

definition ip_header_len :: "byte list \<Rightarrow> nat" where
  "ip_header_len data = 4 * unat (data ! 0 AND 0x0F)"

definition ip_total_len :: "byte list \<Rightarrow> nat" where
  "ip_total_len data = unat (get_be16 data 2)"

lemma ParseIP_outcomes:
  "ParseIPPacket data = Panic \<longleftrightarrow>
     20 \<le> length data \<and> ip_version data = 4 \<and> ip_header_len data \<le> length data \<and>
     ip_total_len data < ip_header_len data"
  "(\<exists>e. ParseIPPacket data = Err e) \<longleftrightarrow>
     length data < 20 \<or> ip_version data \<noteq> 4 \<or> length data < ip_header_len data"
  by (auto simp: ParseIPPacket_def Let_def slice_def ip_version_def ip_header_len_def
    ip_total_len_def unat_header_len split: option.splits)

lemma ParseIP_Ok_wf:
  assumes ok: "ParseIPPacket data = Ok p" and hl: "20 \<le> ip_header_len data"
    and tl: "ip_total_len data = length data"
  shows "wf_ip p"
    and "ip_fixed_bytes p @ SrcIP p @ DstIP p @ Options p @ Payload p = data"
proof -
  from ok have len: "20 \<le> length data" by (auto simp: ParseIPPacket_def split: if_splits)
  then obtain b0 b1 b2 b3 b4 b5 b6 b7 b8 b9 b10 b11 b12 b13 b14 b15 b16 b17 b18 b19 rest
    where d: "data = b0 # b1 # b2 # b3 # b4 # b5 # b6 # b7 # b8 # b9 #
      b10 # b11 # b12 # b13 # b14 # b15 # b16 # b17 # b18 # b19 # rest"
    by (rule length_20_obtain)
  let ?h = "(b0 AND 0x0F) * 4"
  have h: "unat ?h = ip_header_len data" "unat ?h \<le> 60"
    unfolding unat_header_len using unat_and_0F [of b0] by (simp_all add: ip_header_len_def d)
  have tl': "unat (be16 b2 b3) = length data"
    using tl by (simp add: ip_total_len_def get_be16_def d)
  have opt: "(if ?h > 20 then take (unat ?h - 20) rest else []) = take (unat ?h - 20) rest"
    using h hl by (auto simp: word_less_nat_alt)
  have p: "p = \<lparr>Version = 4, HeaderLen = ?h, TOS = b1, TotalLen = be16 b2 b3, PktID = be16 b4 b5,
      Flags = ucast (drop_bit 13 (be16 b6 b7)), FragOffset = be16 b6 b7 AND 0x1FFF, TTL = b8,
      Protocol = b9, Checksum = be16 b10 b11, SrcIP = [b12, b13, b14, b15],
      DstIP = [b16, b17, b18, b19], Options = take (unat ?h - 20) rest,
      Payload = drop (unat ?h) data\<rparr>"
    and v: "drop_bit 4 b0 = 4" and hle: "unat ?h \<le> length data"
    using ok tl' opt
    by (auto simp: ParseIPPacket_def Let_def slice_def get_be16_def d split: if_splits option.splits)
  have pl: "drop (unat ?h) data = drop (unat ?h - 20) rest"
  proof -
    have "drop (unat ?h) data = drop (unat ?h - 20) (drop 20 data)"
      using hl h by (simp only: drop_drop) simp
    then show ?thesis by (simp add: d)
  qed
  have rest: "length rest = length data - 20" by (simp add: d)
  show wf: "wf_ip p"
    using h hl hle tl' rest unat_header_len [of b0] frag_word_bounds [of "be16 b6 b7"]
    by (simp add: p wf_ip_def) (metis dvd_triv_right)
  show "ip_fixed_bytes p @ SrcIP p @ DstIP p @ Options p @ Payload p = data"
    unfolding ip_fixed_bytes_wf [OF wf]
    using v header_byte_join [of b0] frag_word_join [of "be16 b6 b7"]
    by (simp add: p [unfolded pl] ip_frag_word_def d)
qed

section \<open>TCP\<close>

definition wf_tcp :: "tcp_packet \<Rightarrow> bool" where
  "wf_tcp t \<longleftrightarrow> 20 \<le> unat (DataOffset t) \<and> unat (DataOffset t) \<le> 60 \<and> 4 dvd unat (DataOffset t) \<and>
     TFlags t < 64 \<and> length (TOptions t) = unat (DataOffset t) - 20"

definition tcp_fixed_bytes :: "tcp_packet \<Rightarrow> byte list" where
  "tcp_fixed_bytes t =
     [hi8 (SrcPort t), lo8 (SrcPort t), hi8 (DstPort t), lo8 (DstPort t),
      b32 24 (SeqNum t), b32 16 (SeqNum t), b32 8 (SeqNum t), b32 0 (SeqNum t),
      b32 24 (AckNum t), b32 16 (AckNum t), b32 8 (AckNum t), b32 0 (AckNum t),
      push_bit 4 (DataOffset t div 4), TFlags t, hi8 (Window t), lo8 (Window t),
      hi8 (TChecksum t), lo8 (TChecksum t), hi8 (Urgent t), lo8 (Urgent t)]"

lemma length_tcp_fixed_bytes [simp]: "length (tcp_fixed_bytes t) = 20"
  by (simp add: tcp_fixed_bytes_def)

lemma TCP_Serialize_layout:
  assumes "20 \<le> unat (DataOffset t)" "length (TOptions t) = unat (DataOffset t) - 20"
  shows "TCPPacket_Serialize t = Ok (tcp_fixed_bytes t @ TOptions t @ TPayload t)"
proof -
  let ?n = "unat (DataOffset t) + length (TPayload t)"
  have n: "20 \<le> ?n" "\<not> ?n < 20" using assms(1) by simp_all
  have "TCPPacket_Serialize t = Ok (copy_at (unat (DataOffset t)) (TPayload t)
      (if length (TOptions t) > 0
       then copy_at 20 (TOptions t) (tcp_fixed_bytes t @ replicate (?n - 20) 0)
       else tcp_fixed_bytes t @ replicate (?n - 20) 0))"
    unfolding TCPPacket_Serialize_def Let_def
    by (simp add: n replicate_20 [OF n(1)] put_be16_def put_be32_def tcp_fixed_bytes_def)
  also have "\<dots> = Ok (tcp_fixed_bytes t @ TOptions t @ TPayload t)"
    using copy_options_payload [of "tcp_fixed_bytes t"] assms by simp
  finally show ?thesis .
qed

lemma and_3F: "(b :: byte) AND 0x3F = take_bit 6 b"
  by (simp add: take_bit_eq_mask mask_eq_exp_minus_1)

lemma tcp_flags_and: "f < 64 \<Longrightarrow> (f :: byte) AND 0x3F = f"
  unfolding and_3F using bit_take_bit_word_less [of f 6]
  by (intro bit_word_eqI) (auto simp: bit_simps word_less_nat_alt)

lemma tcp_flags_less: "(b :: byte) AND 0x3F < 64"
  unfolding and_3F using take_bit_nat_less_exp [of 6 "unat b"]
  by (simp add: word_less_nat_alt unsigned_take_bit_eq)

lemma data_offset_byte:
  assumes "20 \<le> unat h" "unat h \<le> 60" "4 dvd unat h"
  shows "drop_bit 4 (push_bit 4 (h div 4) :: byte) * 4 = h"
  using header_len_cases [OF assms] by auto

lemma TCP_Parse_layout:
  assumes wf: "wf_tcp t"
  shows "ParseTCPPacket (tcp_fixed_bytes t @ TOptions t @ TPayload t) = Ok t"
proof -
  let ?d = "tcp_fixed_bytes t @ TOptions t @ TPayload t"
  have h: "20 \<le> unat (DataOffset t)" "unat (DataOffset t) \<le> 60" "4 dvd unat (DataOffset t)"
    and lo: "length (TOptions t) = unat (DataOffset t) - 20" and fl: "TFlags t < 64"
    using wf by (simp_all add: wf_tcp_def)
  have eqs: "get_be16 ?d 0 = SrcPort t" "get_be16 ?d 2 = DstPort t" "get_be32 ?d 4 = SeqNum t"
    "get_be32 ?d 8 = AckNum t" "?d ! 12 = push_bit 4 (DataOffset t div 4)" "?d ! 13 = TFlags t"
    "get_be16 ?d 14 = Window t" "get_be16 ?d 16 = TChecksum t" "get_be16 ?d 18 = Urgent t"
    "drop 20 ?d = TOptions t @ TPayload t"
    by (simp_all add: get_be16_def get_be32_def tcp_fixed_bytes_def)
  have opt: "DataOffset t > 20 \<longleftrightarrow> TOptions t \<noteq> []"
    using h(1) lo by (cases "TOptions t") (auto simp: word_less_nat_alt)
  have len: "length ?d = unat (DataOffset t) + length (TPayload t)"
    using h lo by simp
  have pay: "slice ?d (unat (DataOffset t)) (length ?d) = Some (TPayload t)"
    using slice_append [of "unat (DataOffset t)" "tcp_fixed_bytes t @ TOptions t" "length ?d" "TPayload t" "[]"]
      h lo by simp
  have "take (unat (DataOffset t) - 20) (TOptions t @ TPayload t) = TOptions t"
    using lo by simp
  moreover have "\<not> length ?d < 20" "\<not> length ?d < unat (DataOffset t)"
    "unat (DataOffset t) < length ?d \<longleftrightarrow> TPayload t \<noteq> []"
    unfolding len using h by simp_all
  ultimately show ?thesis
    unfolding ParseTCPPacket_def Let_def eqs data_offset_byte [OF h] tcp_flags_and [OF fl] pay
    using opt by (cases "TPayload t = []") simp_all
qed

definition tcp_data_offset :: "byte list \<Rightarrow> nat" where
  "tcp_data_offset payload = 4 * unat (drop_bit 4 (payload ! 12))"

lemma unat_data_offset: "unat (drop_bit 4 (b :: byte) * 4) = 4 * unat (drop_bit 4 b)"
  "unat (drop_bit 4 (b :: byte)) < 16"
proof -
  show l: "unat (drop_bit 4 b) < 16"
    using unat_byte_less [of b] by (simp add: unat_drop_bit_eq drop_bit_eq_div unat_div div_less_iff_less_mult del: unat_byte_less)
  then show "unat (drop_bit 4 b * 4) = 4 * unat (drop_bit 4 b)"
    by (simp add: unat_word_ariths)
qed

lemma ParseTCP_never_panics: "ParseTCPPacket payload \<noteq> Panic"
  by (auto simp: ParseTCPPacket_def Let_def slice_def split: option.splits)

lemma ParseTCP_Err_iff:
  "(\<exists>e. ParseTCPPacket payload = Err e) \<longleftrightarrow>
     length payload < 20 \<or> length payload < tcp_data_offset payload"
  by (auto simp: ParseTCPPacket_def Let_def slice_def tcp_data_offset_def unat_data_offset
    word_less_nat_alt split: option.splits)

lemma ParseTCP_payload:
  "ParseTCPPacket payload = Ok t \<Longrightarrow> TPayload t = drop (tcp_data_offset payload) payload"
  by (auto simp: ParseTCPPacket_def Let_def slice_def tcp_data_offset_def unat_data_offset
    split: if_splits option.splits)

section \<open>Properties\<close>

text \<open>C14: an IPv4 packet whose fields fit the wire format is serialised to a buffer of TotalLen
  bytes without a panic, and the parser reads every field, the options and the payload back
  from that buffer.\<close>

theorem ip_serialize_parse:
  assumes "wf_ip p"
  shows "\<exists>data. IPPacket_Serialize p = Ok data \<and> length data = unat (TotalLen p) \<and>
    ParseIPPacket data = Ok p"
  using wf_ip_layout [OF assms] Parse_layout [OF assms] assms by (auto simp: wf_ip_def)

definition sample_ip :: ip_packet where
  "sample_ip = \<lparr>Version = 4, HeaderLen = 24, TOS = 0, TotalLen = 27, PktID = 0x1c46, Flags = 2,
    FragOffset = 5, TTL = 64, Protocol = 6, Checksum = 0xabcd, SrcIP = [192, 168, 1, 1],
    DstIP = [10, 0, 0, 1], Options = [1, 2, 3, 4], Payload = [7, 8, 9]\<rparr>"

theorem ip_serialize_parse_witness:
  "\<exists>data. IPPacket_Serialize sample_ip = Ok data \<and> length data = 27 \<and> ParseIPPacket data = Ok sample_ip"
  using ip_serialize_parse [of sample_ip] by (simp add: sample_ip_def wf_ip_def)

text \<open>The other direction. A buffer that parses, whose header length field is at least the
  fixed header and whose total length field is the length of the buffer, is reproduced byte
  for byte by serialising the parsed packet, so forwarding an unmodified packet loses nothing.\<close>

theorem ip_parse_serialize:
  assumes "ParseIPPacket data = Ok p" "20 \<le> ip_header_len data" "ip_total_len data = length data"
  shows "IPPacket_Serialize p = Ok data"
  using ParseIP_Ok_wf [OF assms] wf_ip_layout by simp

definition sample_ip_bytes :: "byte list" where
  "sample_ip_bytes = [0x45, 0, 0, 22, 0x1c, 0x46, 0x40, 0, 64, 6, 0xb1, 0xe6, 192, 168, 1, 1,
    10, 0, 0, 1, 0xAA, 0xBB]"

theorem ip_parse_serialize_witness:
  "\<exists>p. ParseIPPacket sample_ip_bytes = Ok p \<and> IPPacket_Serialize p = Ok sample_ip_bytes"
proof -
  have len: "ip_header_len sample_ip_bytes = 20" "ip_total_len sample_ip_bytes = length sample_ip_bytes"
    by (simp_all add: ip_header_len_def ip_total_len_def get_be16_def unat_be16 sample_ip_bytes_def)
  have "ParseIPPacket sample_ip_bytes \<noteq> Panic" "\<nexists>e. ParseIPPacket sample_ip_bytes = Err e"
    using len unfolding ParseIP_outcomes by (simp_all add: ip_version_def sample_ip_bytes_def)
  then obtain p where "ParseIPPacket sample_ip_bytes = Ok p"
    by (cases "ParseIPPacket sample_ip_bytes") auto
  then show ?thesis using ip_parse_serialize [of sample_ip_bytes p] len by auto
qed

text \<open>Every outcome of the IPv4 parser on an arbitrary buffer. It returns an error exactly for
  a buffer below 20 bytes, a version other than 4 or a header length beyond the buffer; it
  panics exactly when those checks pass and the total length field is below the header length,
  which no guard of the parser excludes; otherwise it returns a packet.\<close>

theorem ip_parse_outcomes:
  "(ParseIPPacket data = Panic \<longleftrightarrow>
     20 \<le> length data \<and> ip_version data = 4 \<and> ip_header_len data \<le> length data \<and>
     ip_total_len data < ip_header_len data) \<and>
   ((\<exists>e. ParseIPPacket data = Err e) \<longleftrightarrow>
     \<not> (20 \<le> length data \<and> ip_version data = 4 \<and> ip_header_len data \<le> length data)) \<and>
   ((\<exists>p. ParseIPPacket data = Ok p) \<longleftrightarrow>
     20 \<le> length data \<and> ip_version data = 4 \<and> ip_header_len data \<le> length data \<and>
     ip_header_len data \<le> ip_total_len data)"
  using ParseIP_outcomes [of data] by (intro conjI; cases "ParseIPPacket data"; force)

text \<open>A TCP segment whose fields fit the wire format survives serialising and parsing:
  ports, sequence numbers, flags, options and payload come back unchanged.\<close>

theorem tcp_serialize_parse:
  assumes "wf_tcp t"
  shows "\<exists>data. TCPPacket_Serialize t = Ok data \<and> ParseTCPPacket data = Ok t"
  using TCP_Serialize_layout [of t] TCP_Parse_layout [OF assms] assms by (auto simp: wf_tcp_def)

definition sample_tcp :: tcp_packet where
  "sample_tcp = \<lparr>SrcPort = 12345, DstPort = 443, SeqNum = 0xdeadbeef, AckNum = 7, DataOffset = 24,
    TFlags = 0x12, Window = 65535, TChecksum = 0x1234, Urgent = 0, TOptions = [2, 4, 5, 180],
    TPayload = [1, 2]\<rparr>"

theorem tcp_serialize_parse_witness:
  "\<exists>data. TCPPacket_Serialize sample_tcp = Ok data \<and> ParseTCPPacket data = Ok sample_tcp"
  using tcp_serialize_parse [of sample_tcp] by (simp add: sample_tcp_def wf_tcp_def)

text \<open>The TCP parser never panics, whatever the buffer; it returns an error exactly when the
  buffer is shorter than the fixed header or than its own data offset field.\<close>

theorem tcp_parse_total:
  "ParseTCPPacket payload \<noteq> Panic \<and>
   ((\<exists>e. ParseTCPPacket payload = Err e) \<longleftrightarrow>
     length payload < 20 \<or> length payload < tcp_data_offset payload)"
  by (intro conjI ParseTCP_never_panics ParseTCP_Err_iff)

end
