(* ===== verification/Checksum.thy ===== *)
theory Checksum
  imports Packet
begin

text \<open>
  \<open>pkg/network/checksum.go\<close>: the Internet checksum over 32 bit accumulators, the IP, TCP and
  UDP checksums built on it, and the \<open>Recalculate\<close> methods of a packet. The lemmas relate the
  32 bit loop to the end-around-carry sum of RFC 1071, show that a header or segment carrying
  the calculated checksum verifies, and say exactly when the functions panic.
\<close>

section \<open>The Internet checksum\<close>

text \<open>The loop over the 16 bit words with the odd last byte, in wrapping 32 bit arithmetic.\<close>

fun sum_words :: "u32 \<Rightarrow> byte list \<Rightarrow> u32" where
  "sum_words acc (h # l # rest) = sum_words (acc + ucast (be16 h l)) rest"
| "sum_words acc [b] = acc + push_bit 8 (ucast b)"
| "sum_words acc [] = acc"

text \<open>The carry folding loop.\<close>

lemma unat_fold_step:
  "unat ((s AND 0xFFFF) + drop_bit 16 (s :: u32)) = unat s mod 65536 + unat s div 65536"
proof -
  have a: "s AND 0xFFFF = take_bit 16 s"
    by (simp add: take_bit_eq_mask mask_eq_exp_minus_1)
  have "unat s < 4294967296" using unsigned_less [of s] by simp
  then have "unat s mod 65536 + unat s div 65536 < 4294967296" by linarith
  then show ?thesis
    by (simp add: a unat_word_ariths unsigned_take_bit_eq unsigned_drop_bit_eq take_bit_eq_mod drop_bit_eq_div)
qed

lemma mod_add_div_less: "65536 \<le> n \<Longrightarrow> n mod 65536 + n div 65536 < (n :: nat)"
  using div_mult_mod_eq [of n 65536] div_greater_zero_iff [of n 65536] by linarith

function fold_carry :: "u32 \<Rightarrow> u32" where
  "fold_carry s = (if s > 0xFFFF then fold_carry ((s AND 0xFFFF) + drop_bit 16 s) else s)"
  by pat_completeness auto

termination
proof (relation "measure unat", simp)
  fix s :: u32 assume "s > 0xFFFF"
  then have "65536 \<le> unat s" by (simp add: word_less_nat_alt)
  then have "unat s mod 65536 + unat s div 65536 < unat s" by (rule mod_add_div_less)
  then show "((s AND 0xFFFF) + drop_bit 16 s, s) \<in> measure unat"
    by (simp only: in_measure unat_fold_step)
qed

declare fold_carry.simps [simp del]

definition CalculateChecksum :: "byte list \<Rightarrow> u16" where
  "CalculateChecksum data = NOT (ucast (fold_carry (sum_words 0 data)))"

section \<open>Reference: the end-around-carry sum of RFC 1071\<close>

fun words16 :: "byte list \<Rightarrow> nat list" where
  "words16 (h # l # rest) = (256 * unat h + unat l) # words16 rest"
| "words16 [b] = [256 * unat b]"
| "words16 [] = []"

definition oc_add :: "nat \<Rightarrow> nat \<Rightarrow> nat" where
  "oc_add a b = (if a + b > 65535 then a + b - 65535 else a + b)"

definition rfc1071 :: "byte list \<Rightarrow> nat" where
  "rfc1071 data = 65535 - fold oc_add (words16 data) 0"

text \<open>\<open>oc_rep n\<close> is the representative of \<open>n\<close> in one's complement arithmetic.\<close>

definition oc_rep :: "nat \<Rightarrow> nat" where
  "oc_rep n = (if n = 0 then 0 else Suc ((n - 1) mod 65535))"

lemma oc_rep_le: "oc_rep n \<le> 65535"
  by (simp add: oc_rep_def Suc_le_eq)

lemma oc_rep_small: "n \<le> 65535 \<Longrightarrow> oc_rep n = n"
  by (simp add: oc_rep_def)

lemma oc_rep_step: "65535 < n \<Longrightarrow> oc_rep (n - 65535) = oc_rep n"
  by (simp add: oc_rep_def le_mod_geq)

lemma oc_rep_add_mult: "0 < n \<Longrightarrow> oc_rep (n + k * 65535) = oc_rep n"
proof -
  assume "0 < n"
  then obtain m where n: "n = Suc m" by (cases n) auto
  have "n + k * 65535 - 1 = m + k * 65535" by (simp add: n)
  then show ?thesis by (simp add: oc_rep_def n)
qed

lemma oc_rep_mod: "oc_rep n mod 65535 = n mod 65535"
  unfolding oc_rep_def by (cases n) (simp_all add: mod_Suc_eq)

lemma Suc_mod_cancel: "Suc a mod n = Suc b mod n \<Longrightarrow> a mod n = b mod n"
proof (induction a b rule: linorder_wlog)
  case (le a b)
  then have "n dvd Suc b - Suc a" by (metis Suc_le_mono mod_eq_dvd_iff_nat)
  then show ?case using le by (metis diff_Suc_Suc mod_eq_dvd_iff_nat)
qed simp

lemma oc_rep_eq_iff: "oc_rep m = oc_rep n \<longleftrightarrow> (m = 0 \<longleftrightarrow> n = 0) \<and> m mod 65535 = n mod 65535"
proof
  assume "oc_rep m = oc_rep n"
  then show "(m = 0 \<longleftrightarrow> n = 0) \<and> m mod 65535 = n mod 65535"
    by (metis oc_rep_mod oc_rep_def nat.distinct(1))
next
  assume a: "(m = 0 \<longleftrightarrow> n = 0) \<and> m mod 65535 = n mod 65535"
  show "oc_rep m = oc_rep n"
  proof (cases "m = 0")
    case True then show ?thesis using a by simp
  next
    case False
    then obtain m' n' where "m = Suc m'" "n = Suc n'" using a by (metis not0_implies_Suc)
    then show ?thesis using a Suc_mod_cancel [of m' 65535 n'] by (simp add: oc_rep_def)
  qed
qed

lemma oc_add_rep: "b \<le> 65535 \<Longrightarrow> oc_add b (oc_rep n) = oc_rep (b + n)"
proof -
  assume b: "b \<le> 65535"
  have "oc_add b (oc_rep n) = oc_rep (b + oc_rep n)"
    using b oc_rep_le [of n] unfolding oc_add_def
    by (auto simp: oc_rep_small oc_rep_step [symmetric])
  also have "\<dots> = oc_rep (b + n)"
    unfolding oc_rep_eq_iff by (metis add_is_0 mod_add_right_eq oc_rep_def oc_rep_mod nat.distinct(1))
  finally show ?thesis .
qed

lemma words16_le: "w \<in> set (words16 data) \<Longrightarrow> w \<le> 65535"
proof (induction data rule: words16.induct)
  case (1 h l rest)
  then show ?case using unat_byte_less [of h] unat_byte_less [of l] by (auto simp del: unat_byte_less)
next
  case (2 b)
  then show ?case using unat_byte_less [of b] by (auto simp del: unat_byte_less)
qed simp

lemma fold_oc_add:
  "(\<And>w. w \<in> set ws \<Longrightarrow> w \<le> 65535) \<Longrightarrow> fold oc_add ws (oc_rep n) = oc_rep (n + sum_list ws)"
  by (induction ws arbitrary: n) (simp_all add: oc_add_rep add.assoc add.left_commute add.commute)

lemma rfc1071_rep: "rfc1071 data = 65535 - oc_rep (sum_list (words16 data))"
  using fold_oc_add [of "words16 data" 0] words16_le by (simp add: rfc1071_def oc_rep_def)

section \<open>The loop computes the reference sum\<close>

lemma fold_carry_rep: "unat (fold_carry s) = oc_rep (unat s)"
proof (induction s rule: fold_carry.induct)
  case (1 s)
  show ?case
  proof (cases "s > 0xFFFF")
    case True
    let ?n = "unat s"
    have n: "65536 \<le> ?n" using True by (simp add: word_less_nat_alt)
    have split: "?n = (?n mod 65536 + ?n div 65536) + (?n div 65536) * 65535"
      using div_mult_mod_eq [of ?n 65536] by linarith
    have "0 < ?n mod 65536 + ?n div 65536"
      using n div_greater_zero_iff [of ?n 65536] by linarith
    then have "oc_rep (?n mod 65536 + ?n div 65536) = oc_rep ?n"
      using oc_rep_add_mult [of "?n mod 65536 + ?n div 65536" "?n div 65536"] split by simp
    moreover have "unat (fold_carry s) = oc_rep (?n mod 65536 + ?n div 65536)"
      using 1 [OF True] True by (subst fold_carry.simps) (simp add: unat_fold_step)
    ultimately show ?thesis by simp
  next
    case False
    then have "unat s \<le> 65535" by (simp add: word_less_nat_alt not_less)
    with False show ?thesis by (subst fold_carry.simps) (simp add: oc_rep_small)
  qed
qed

lemma unat_be16_u32: "unat (ucast (be16 h l) :: u32) = 256 * unat h + unat l"
proof -
  have "unat (ucast (be16 h l) :: u32) = unat (be16 h l)"
    using unat_u16_le [of "be16 h l"]
    by (simp add: unsigned_ucast_eq take_bit_nat_eq_self_iff)
  then show ?thesis by (simp add: unat_be16)
qed

lemma unat_shift8_u32: "unat (push_bit 8 (ucast (b :: byte)) :: u32) = 256 * unat b"
  using unat_byte_less [of b]
  by (simp add: push_bit_eq_mult unat_word_ariths del: unat_byte_less)

lemma unat_add_u32: "unat (a :: u32) + unat b < 2 ^ 32 \<Longrightarrow> unat (a + b) = unat a + unat b"
  by (simp add: unat_word_ariths)

lemma sum_words_unat:
  "unat acc + sum_list (words16 data) < 2 ^ 32 \<Longrightarrow>
   unat (sum_words acc data) = unat acc + sum_list (words16 data)"
proof (induction acc data rule: sum_words.induct)
  case (1 acc h l rest)
  have "unat (acc + ucast (be16 h l)) = unat acc + (256 * unat h + unat l)"
    using unat_add_u32 [of acc "ucast (be16 h l)"] 1(2) unfolding unat_be16_u32 by simp
  then show ?case using 1 by (simp add: add.assoc)
next
  case (2 acc b)
  then show ?case using unat_add_u32 [of acc "push_bit 8 (ucast b)"] unfolding unat_shift8_u32 by simp
qed simp

lemma sum_words16_le: "2 * sum_list (words16 data) \<le> 65535 * (length data + 1)"
proof (induction data rule: words16.induct)
  case (1 h l rest)
  then show ?case using unat_byte_less [of h] unat_byte_less [of l] by (simp del: unat_byte_less)
next
  case (2 b)
  then show ?case using unat_byte_less [of b] by (simp del: unat_byte_less)
qed simp

text \<open>Up to 131073 bytes the 32 bit accumulator cannot wrap.\<close>

lemma sum_words_no_wrap:
  "length data \<le> 131073 \<Longrightarrow> unat (sum_words 0 data) = sum_list (words16 data)"
  using sum_words16_le [of data] sum_words_unat [of 0 data] by simp

lemma unat_not_u16: "unat (NOT (w :: u16)) = 65535 - unat w"
proof -
  have "NOT w = - 1 - w" by (simp add: not_eq_complement)
  moreover have "unat (- 1 - w) = unat (- 1 :: u16) - unat w"
    by (rule unat_sub) simp
  ultimately show ?thesis by (simp add: unsigned_minus_1_eq_mask mask_eq_exp_minus_1)
qed

lemma unat_narrow_u16: "unat (w :: u32) \<le> 65535 \<Longrightarrow> unat (ucast w :: u16) = unat w"
  by (simp add: unsigned_ucast_eq take_bit_nat_eq_self_iff)

lemma CalculateChecksum_rep:
  assumes "length data \<le> 131073"
  shows "unat (CalculateChecksum data) = 65535 - oc_rep (sum_list (words16 data))"
  using oc_rep_le unat_narrow_u16 [of "fold_carry (sum_words 0 data)"]
  by (simp add: CalculateChecksum_def unat_not_u16 fold_carry_rep sum_words_no_wrap [OF assms])

lemma words16_append: "even (length xs) \<Longrightarrow> words16 (xs @ ys) = words16 xs @ words16 ys"
  by (induction xs rule: words16.induct) auto

lemma checksum_zero_iff:
  assumes "length data \<le> 131073"
  shows "CalculateChecksum data = 0 \<longleftrightarrow>
    0 < sum_list (words16 data) \<and> sum_list (words16 data) mod 65535 = 0"
proof -
  have "CalculateChecksum data = 0 \<longleftrightarrow> unat (CalculateChecksum data) = 0"
    by (simp add: unat_eq_0)
  also have "\<dots> \<longleftrightarrow> oc_rep (sum_list (words16 data)) = oc_rep 65535"
    using oc_rep_le [of "sum_list (words16 data)"] oc_rep_small [of 65535]
    by (simp add: CalculateChecksum_rep [OF assms])
  finally show ?thesis by (simp only: oc_rep_eq_iff) (simp del: sum_list_eq_0_iff)
qed

text \<open>Storing the calculated checksum where it was computed over zeros makes the data verify.\<close>

lemma checksum_verifies:
  assumes even: "even (length pre)" and len: "length (pre @ 0 # 0 # suf) \<le> 131073"
    and c: "c = CalculateChecksum (pre @ 0 # 0 # suf)"
  shows "CalculateChecksum (pre @ hi8 c # lo8 c # suf) = 0"
proof -
  let ?s = "sum_list (words16 pre) + sum_list (words16 suf)"
  have s0: "sum_list (words16 (pre @ 0 # 0 # suf)) = ?s"
    using even by (simp add: words16_append)
  have "unat c = 256 * unat (hi8 c) + unat (lo8 c)"
    using unat_be16 [of "hi8 c" "lo8 c"] by simp
  then have s1: "sum_list (words16 (pre @ hi8 c # lo8 c # suf)) = ?s + unat c"
    using even by (simp add: words16_append)
  have uc: "unat c = 65535 - oc_rep ?s"
    unfolding c CalculateChecksum_rep [OF len] s0 ..
  have "?s mod 65535 = oc_rep ?s mod 65535" by (simp add: oc_rep_mod)
  then have "(?s + unat c) mod 65535 = (oc_rep ?s + unat c) mod 65535"
    by (metis mod_add_left_eq)
  moreover have "oc_rep ?s + unat c = 65535" using uc oc_rep_le [of ?s] by simp
  ultimately have "(?s + unat c) mod 65535 = 0" by simp
  moreover have "0 < ?s + unat c" using uc by (cases "?s = 0") (auto simp: oc_rep_def)
  ultimately show ?thesis using len by (simp add: checksum_zero_iff s1)
qed

lemma add_mod_cancel: "(s + a) mod n = (s + b) mod n \<Longrightarrow> a mod n = b mod (n :: nat)"
  by (induction s) (auto dest: Suc_mod_cancel)

lemma unat_inj_u16: "unat a = unat b \<longleftrightarrow> a = (b :: u16)"
  using unsigned_word_eqI by blast

text \<open>One changed word changes the checksum, unless both words are 0 in one's complement.\<close>

lemma checksum_word_change:
  assumes even: "even (length pre)" and len: "length (pre @ h # l # suf) \<le> 131073"
    and eq: "CalculateChecksum (pre @ h # l # suf) = CalculateChecksum (pre @ h' # l' # suf)"
  shows "be16 h l = be16 h' l' \<or> {be16 h l, be16 h' l'} = {0, 0xFFFF}"
proof -
  let ?s = "sum_list (words16 pre) + sum_list (words16 suf)"
  let ?w = "unat (be16 h l)" and ?w' = "unat (be16 h' l')"
  have sums: "sum_list (words16 (pre @ h # l # suf)) = ?s + ?w"
    "sum_list (words16 (pre @ h' # l' # suf)) = ?s + ?w'"
    using even by (simp_all add: words16_append unat_be16)
  have le: "?w \<le> 65535" "?w' \<le> 65535"
    by (rule unat_u16_le)+
  have "oc_rep (?s + ?w) = oc_rep (?s + ?w')"
    using arg_cong [OF eq, of unat] len oc_rep_le [of "?s + ?w"] oc_rep_le [of "?s + ?w'"]
    by (simp add: CalculateChecksum_rep sums)
  then have "(?s + ?w) mod 65535 = (?s + ?w') mod 65535"
    by (simp add: oc_rep_eq_iff)
  then have "?w mod 65535 = ?w' mod 65535"
    by (rule add_mod_cancel)
  then have "?w = ?w' \<or> {?w, ?w'} = {0, 65535}"
    using le by (auto simp: mod_if split: if_splits)
  then show ?thesis
  proof
    assume "{?w, ?w'} = {0, 65535}"
    then have "{unat (be16 h l), unat (be16 h' l')} = {unat (0 :: u16), unat (0xFFFF :: u16)}"
      by simp
    then have "{be16 h l, be16 h' l'} = {0, 0xFFFF}"
      unfolding doubleton_eq_iff unat_inj_u16 .
    then show ?thesis ..
  qed (simp only: unat_inj_u16 simp_thms)
qed

section \<open>Headers and segments\<close>

text \<open>The writes to fixed positions panic on a buffer that is too short.\<close>

definition CalculateIPChecksum :: "byte list \<Rightarrow> (unit, u16) outcome" where
  "CalculateIPChecksum ipHeader =
     (if length ipHeader < 12 then Panic
      else let header = ipHeader[10 := 0]; header = header[11 := 0] in Ok (CalculateChecksum header))"

record pseudoHeader =
  phSrcIP :: "byte list"
  phDstIP :: "byte list"
  phZero :: byte
  phProtocol :: byte
  phLength :: u16

definition pseudoHeader_Serialize :: "pseudoHeader \<Rightarrow> byte list" where
  "pseudoHeader_Serialize ph =
     (let buf = replicate 12 0;
          buf = copy_at 0 (phSrcIP ph) buf;
          buf = copy_at 4 (phDstIP ph) buf;
          buf = buf[8 := phZero ph];
          buf = buf[9 := phProtocol ph]
      in put_be16 10 (phLength ph) buf)"

text \<open>The addresses are arrays of four bytes, zero where \<open>To4\<close> is nil.\<close>

definition newPseudoHeader :: "ip \<Rightarrow> ip \<Rightarrow> byte \<Rightarrow> u16 \<Rightarrow> pseudoHeader" where
  "newPseudoHeader srcIP dstIP protocol len =
     \<lparr>phSrcIP = copy_at 0 (to4 srcIP) (replicate 4 0), phDstIP = copy_at 0 (to4 dstIP) (replicate 4 0),
      phZero = 0, phProtocol = protocol, phLength = len\<rparr>"

definition CalculateTCPChecksum :: "ip \<Rightarrow> ip \<Rightarrow> byte list \<Rightarrow> (unit, u16) outcome" where
  "CalculateTCPChecksum srcIP dstIP tcpSegment =
     (let ph = newPseudoHeader srcIP dstIP ProtocolTCP (of_nat (length tcpSegment)) in
      if length tcpSegment < 18 then Panic
      else let segment = tcpSegment[16 := 0]; segment = segment[17 := 0];
               combined = pseudoHeader_Serialize ph @ segment
           in Ok (CalculateChecksum combined))"

definition CalculateUDPChecksum :: "ip \<Rightarrow> ip \<Rightarrow> byte list \<Rightarrow> (unit, u16) outcome" where
  "CalculateUDPChecksum srcIP dstIP udpSegment =
     (let ph = newPseudoHeader srcIP dstIP ProtocolUDP (of_nat (length udpSegment)) in
      if length udpSegment < 8 then Panic
      else let segment = udpSegment[6 := 0]; segment = segment[7 := 0];
               combined = pseudoHeader_Serialize ph @ segment;
               checksum = CalculateChecksum combined
           in if checksum = 0 then Ok 0xFFFF else Ok checksum)"

section \<open>Recalculation on a packet\<close>

text \<open>The methods update the packet in place: the result is the packet after the call.\<close>

definition RecalculateIPChecksum :: "ip_packet \<Rightarrow> (unit, ip_packet) outcome" where
  "RecalculateIPChecksum p =
     (if HeaderLen p < 20 then Panic
      else
        let header = replicate (unat (HeaderLen p)) (0 :: byte);
            header = header[0 := push_bit 4 (Version p) OR (HeaderLen p div 4)];
            header = header[1 := TOS p];
            header = put_be16 2 (TotalLen p) header;
            header = put_be16 4 (PktID p) header;
            flagsAndOffset = push_bit 13 (ucast (Flags p)) OR (FragOffset p AND 0x1FFF);
            header = put_be16 6 flagsAndOffset header;
            header = header[8 := TTL p];
            header = header[9 := Protocol p];
            header = copy_at 12 (take 4 (to4 (SrcIP p))) header;
            header = copy_at 16 (take 4 (to4 (DstIP p))) header;
            header = (if length (Options p) > 0 then copy_at 20 (Options p) header else header)
        in map_ok (\<lambda>c. p\<lparr>Checksum := c\<rparr>) (CalculateIPChecksum header))"

definition RecalculateTCPChecksum :: "ip_packet \<Rightarrow> (unit, ip_packet) outcome" where
  "RecalculateTCPChecksum p =
     (if Protocol p \<noteq> ProtocolTCP then Ok p
      else map_ok (\<lambda>c. p\<lparr>Checksum := c\<rparr>) (CalculateTCPChecksum (SrcIP p) (DstIP p) (Payload p)))"

definition RecalculateUDPChecksum :: "ip_packet \<Rightarrow> (unit, ip_packet) outcome" where
  "RecalculateUDPChecksum p =
     (if Protocol p \<noteq> ProtocolUDP then Ok p
      else map_ok (\<lambda>c. p\<lparr>Checksum := c\<rparr>) (CalculateUDPChecksum (SrcIP p) (DstIP p) (Payload p)))"

definition RecalculateChecksums :: "ip_packet \<Rightarrow> (unit, ip_packet) outcome" where
  "RecalculateChecksums p =
     (case (if Protocol p = ProtocolTCP then RecalculateTCPChecksum p
            else if Protocol p = ProtocolUDP then RecalculateUDPChecksum p
            else Ok p) of
        Ok p' \<Rightarrow> RecalculateIPChecksum p'
      | Err e \<Rightarrow> Err e
      | Panic \<Rightarrow> Panic)"

section \<open>Lemmas on headers and segments\<close>

lemma update_pair: "i + 2 \<le> length xs \<Longrightarrow>
  xs[i := a, i + 1 := b] = take i xs @ a # b # drop (i + 2) xs"
proof -
  assume "i + 2 \<le> length xs"
  then obtain ys zs where xs: "xs = ys @ zs" "length ys = i" by (meson add_leD1 length_geE)
  moreover obtain x y r where "zs = x # y # r"
    using \<open>i + 2 \<le> length xs\<close> xs by (cases zs; cases "tl zs") auto
  ultimately show ?thesis by (simp add: list_update_append)
qed

lemma copy_at_20: "length opts = length rest \<Longrightarrow>
  copy_at 20 opts (b0 # b1 # b2 # b3 # b4 # b5 # b6 # b7 # b8 # b9 # b10 # b11 #
    b12 # b13 # b14 # b15 # b16 # b17 # b18 # b19 # rest) =
  b0 # b1 # b2 # b3 # b4 # b5 # b6 # b7 # b8 # b9 # b10 # b11 #
    b12 # b13 # b14 # b15 # b16 # b17 # b18 # b19 # opts"
  by (simp add: copy_at_def)

lemma header_zeroed:
  assumes wf: "wf_ip p"
  shows "RecalculateIPChecksum p = Ok (p\<lparr>Checksum := CalculateChecksum
    (take 10 (ip_fixed_bytes p) @ 0 # 0 # SrcIP p @ DstIP p @ Options p)\<rparr>)"
proof -
  obtain s0 s1 s2 s3 where s: "SrcIP p = [s0, s1, s2, s3]"
    using wf by (auto simp: wf_ip_def elim: length_4_obtain)
  obtain d0 d1 d2 d3 where d: "DstIP p = [d0, d1, d2, d3]"
    using wf by (auto simp: wf_ip_def elim: length_4_obtain)
  let ?n = "unat (HeaderLen p)"
  have n: "20 \<le> ?n" "\<not> HeaderLen p < 20" and lo: "length (Options p) = ?n - 20"
    using wf by (simp_all add: wf_ip_def word_less_nat_alt)
  have opts: "length (Options p) = length (replicate (?n - 20) (0 :: byte))" using lo by simp
  note hdr = n(2) replicate_20 [OF n(1)] put_be16_def s d ip_fixed_bytes_wf [OF wf] ip_frag_word_def
    copy_at_12 copy_at_16 CalculateIPChecksum_def Let_def RecalculateIPChecksum_def
  show ?thesis
  proof (cases "Options p = []")
    case True
    then have "?n = 20" using lo n by simp
    with True show ?thesis by (simp add: hdr replicate_20 [OF order_refl])
  next
    case False
    then show ?thesis by (simp add: hdr copy_at_20 [OF opts])
  qed
qed


lemma RecalculateIPChecksum_upd:
  "RecalculateIPChecksum (p\<lparr>Checksum := c\<rparr>) = RecalculateIPChecksum p"
  by (simp add: RecalculateIPChecksum_def Let_def CalculateIPChecksum_def)

lemma RecalculateChecksums_layout:
  assumes wf: "wf_ip p"
    and pay: "Protocol p = ProtocolTCP \<longrightarrow> 18 \<le> length (Payload p)"
      "Protocol p = ProtocolUDP \<longrightarrow> 8 \<le> length (Payload p)"
  shows "RecalculateChecksums p = Ok (p\<lparr>Checksum := CalculateChecksum
    (take 10 (ip_fixed_bytes p) @ 0 # 0 # SrcIP p @ DstIP p @ Options p)\<rparr>)"
proof -
  show ?thesis
    using pay by (auto simp: RecalculateChecksums_def RecalculateTCPChecksum_def
      RecalculateUDPChecksum_def CalculateTCPChecksum_def CalculateUDPChecksum_def Let_def
      RecalculateIPChecksum_upd header_zeroed [OF wf])
qed

lemma wf_ip_Checksum [simp]: "wf_ip (p\<lparr>Checksum := c\<rparr>) = wf_ip p"
  by (simp add: wf_ip_def)

lemma take_append_eq: "n = length xs \<Longrightarrow> take n (xs @ ys) = xs"
  by simp

lemma recalculated_header_verifies:
  assumes wf: "wf_ip p"
    and c: "c = CalculateChecksum (take 10 (ip_fixed_bytes p) @ 0 # 0 # SrcIP p @ DstIP p @ Options p)"
  shows "\<exists>data. IPPacket_Serialize (p\<lparr>Checksum := c\<rparr>) = Ok data \<and>
    CalculateChecksum (take (unat (HeaderLen p)) data) = 0"
proof -
  let ?pre = "take 10 (ip_fixed_bytes p)" and ?suf = "SrcIP p @ DstIP p @ Options p"
  have len: "length ?pre = 10" "length ?suf + 12 = unat (HeaderLen p)" "unat (HeaderLen p) \<le> 60"
    using wf by (simp_all add: wf_ip_def)
  have "ip_fixed_bytes (p\<lparr>Checksum := c\<rparr>) = ?pre @ [hi8 c, lo8 c]"
    using wf by (simp add: ip_fixed_bytes_wf ip_frag_word_def)
  then have "IPPacket_Serialize (p\<lparr>Checksum := c\<rparr>) = Ok ((?pre @ hi8 c # lo8 c # ?suf) @ Payload p)"
    using wf wf_ip_layout [of "p\<lparr>Checksum := c\<rparr>"] by simp
  moreover have "take (unat (HeaderLen p)) ((?pre @ hi8 c # lo8 c # ?suf) @ Payload p) =
      ?pre @ hi8 c # lo8 c # ?suf"
    using len by (intro take_append_eq) simp
  moreover have "CalculateChecksum (?pre @ hi8 c # lo8 c # ?suf) = 0"
    using len by (intro checksum_verifies [OF _ _ c]) simp_all
  ultimately show ?thesis by simp
qed

lemma length_pseudoHeader [simp]: "length (pseudoHeader_Serialize ph) = 12"
  by (simp add: pseudoHeader_Serialize_def Let_def)

lemma TCP_checksum_verifies:
  assumes c: "CalculateTCPChecksum src dst segment = Ok c" and len: "length segment \<le> 65535"
  shows "CalculateChecksum (pseudoHeader_Serialize (newPseudoHeader src dst ProtocolTCP
    (of_nat (length segment))) @ put_be16 16 c segment) = 0"
proof -
  have l: "18 \<le> length segment" using c by (auto simp: CalculateTCPChecksum_def Let_def split: if_splits)
  let ?ph = "pseudoHeader_Serialize (newPseudoHeader src dst ProtocolTCP (of_nat (length segment)))"
  have upd: "segment[16 := a, 17 := b] = take 16 segment @ a # b # drop 18 segment" for a b
    using update_pair [of 16 segment a b] l by simp
  have "c = CalculateChecksum ((?ph @ take 16 segment) @ 0 # 0 # drop 18 segment)"
    using c l by (simp add: CalculateTCPChecksum_def Let_def upd)
  then have "CalculateChecksum ((?ph @ take 16 segment) @ hi8 c # lo8 c # drop 18 segment) = 0"
    using l len by (intro checksum_verifies) simp_all
  then show ?thesis by (simp add: put_be16_def upd)
qed

lemma UDP_checksum_verifies:
  assumes c: "CalculateUDPChecksum src dst segment = Ok c" and len: "length segment \<le> 65535"
  shows "c \<noteq> 0" and "CalculateChecksum (pseudoHeader_Serialize (newPseudoHeader src dst ProtocolUDP
    (of_nat (length segment))) @ put_be16 6 c segment) = 0"
proof -
  have l: "8 \<le> length segment" using c by (auto simp: CalculateUDPChecksum_def Let_def split: if_splits)
  let ?ph = "pseudoHeader_Serialize (newPseudoHeader src dst ProtocolUDP (of_nat (length segment)))"
  have upd: "segment[6 := a, 7 := b] = take 6 segment @ a # b # drop 8 segment" for a b
    using update_pair [of 6 segment a b] l by simp
  let ?c = "CalculateChecksum ((?ph @ take 6 segment) @ 0 # 0 # drop 8 segment)"
  have c': "c = (if ?c = 0 then 0xFFFF else ?c)"
    using c l by (auto simp: CalculateUDPChecksum_def Let_def upd split: if_splits)
  then show "c \<noteq> 0" by auto
  have "CalculateChecksum ((?ph @ take 6 segment) @ hi8 c # lo8 c # drop 8 segment) = 0"
  proof (cases "?c = 0")
    case True
    let ?s = "sum_list (words16 (?ph @ take 6 segment)) + sum_list (words16 (drop 8 segment))"
    have ev: "even (length (?ph @ take 6 segment))" using l by (simp add: min_def)
    have "c = 0xFFFF" using True c' by simp
    then have "sum_list (words16 ((?ph @ take 6 segment) @ hi8 c # lo8 c # drop 8 segment)) = ?s + 65535"
      unfolding words16_append [OF ev] by (simp add: hi8_def lo8_def)
    moreover have "sum_list (words16 ((?ph @ take 6 segment) @ 0 # 0 # drop 8 segment)) = ?s"
      unfolding words16_append [OF ev] by simp
    moreover have "length ((?ph @ take 6 segment) @ a # b # drop 8 segment) \<le> 131073" for a b
      using l len by simp
    ultimately show ?thesis using True by (simp only: checksum_zero_iff) simp
  next
    case False
    then show ?thesis using l len c' by (intro checksum_verifies) simp_all
  qed
  then show "CalculateChecksum (?ph @ put_be16 6 c segment) = 0"
    by (simp add: put_be16_def upd)
qed

lemma RecalculateIPChecksum_Ok:
  assumes "20 \<le> HeaderLen p"
  shows "\<exists>c. RecalculateIPChecksum p = Ok (p\<lparr>Checksum := c\<rparr>)"
proof -
  have "CalculateIPChecksum header = Ok (CalculateChecksum (header[10 := 0, 11 := 0]))"
    if "12 \<le> length header" for header
    using that by (simp add: CalculateIPChecksum_def Let_def)
  moreover have "20 \<le> unat (HeaderLen p)" "\<not> HeaderLen p < 20"
    using assms by (simp_all add: word_le_nat_alt not_less)
  ultimately show ?thesis
    unfolding RecalculateIPChecksum_def Let_def by simp blast
qed

lemma RecalculateIPChecksum_Panic: "HeaderLen p < 20 \<Longrightarrow> RecalculateIPChecksum p = Panic"
  by (simp add: RecalculateIPChecksum_def)

lemma transport_Recalculate:
  "Protocol p = ProtocolTCP \<Longrightarrow> RecalculateTCPChecksum p =
     (if length (Payload p) < 18 then Panic
      else Ok (p\<lparr>Checksum := projOk (CalculateTCPChecksum (SrcIP p) (DstIP p) (Payload p))\<rparr>))"
  "Protocol p = ProtocolUDP \<Longrightarrow> RecalculateUDPChecksum p =
     (if length (Payload p) < 8 then Panic
      else Ok (p\<lparr>Checksum := projOk (CalculateUDPChecksum (SrcIP p) (DstIP p) (Payload p))\<rparr>))"
  by (simp_all add: RecalculateTCPChecksum_def RecalculateUDPChecksum_def
    CalculateTCPChecksum_def CalculateUDPChecksum_def Let_def)

lemma RecalculateChecksums_cases:
  "RecalculateChecksums p =
    (if Protocol p = ProtocolTCP \<and> length (Payload p) < 18 \<or>
        Protocol p = ProtocolUDP \<and> length (Payload p) < 8
     then Panic else RecalculateIPChecksum p)"
proof -
  have "ProtocolTCP \<noteq> ProtocolUDP" by (simp add: ProtocolTCP_def ProtocolUDP_def)
  then show ?thesis
    by (simp add: RecalculateChecksums_def transport_Recalculate RecalculateIPChecksum_upd)
qed

section \<open>Properties\<close>

text \<open>C13: on data of up to 131073 bytes, more than any packet with its pseudo header, the loop
  with its wrapping 32 bit accumulator and its carry folding computes the complement of the
  end-around-carry sum of RFC 1071, odd lengths included.\<close>

theorem checksum_rfc1071:
  assumes "length data \<le> 131073"
  shows "unat (CalculateChecksum data) = rfc1071 data"
  by (simp only: CalculateChecksum_rep [OF assms] rfc1071_rep)

theorem checksum_rfc1071_witness:
  "unat (CalculateChecksum [0, 1, 0xf2, 3, 0xf4, 0xf5, 0xf6, 0xf7]) = 8717"
  using checksum_rfc1071 [of "[0, 1, 0xf2, 3, 0xf4, 0xf5, 0xf6, 0xf7]"]
  by (simp add: rfc1071_def oc_add_def)

text \<open>Error detection. Two messages that differ in exactly one 16 bit word have different
  checksums, unless the two words are 0x0000 and 0xFFFF, the two zeros of one's complement.\<close>

theorem checksum_detects_word_change:
  assumes "even (length pre)" "length (pre @ h # l # suf) \<le> 131073"
    and "be16 h l \<noteq> be16 h' l'" "{be16 h l, be16 h' l'} \<noteq> {0, 0xFFFF}"
  shows "CalculateChecksum (pre @ h # l # suf) \<noteq> CalculateChecksum (pre @ h' # l' # suf)"
  using checksum_word_change [OF assms(1,2)] assms(3,4) by blast

theorem checksum_detects_word_change_witness:
  "CalculateChecksum [1, 2, 3, 4, 5] \<noteq> CalculateChecksum [1, 2, 9, 4, 5]"
proof -
  have "{be16 3 4, be16 9 4} \<noteq> {0, 0xFFFF}" by (simp add: doubleton_eq_iff be16_def)
  then show ?thesis using checksum_detects_word_change [of "[1, 2]" 3 4 "[5]" 9 4] by simp
qed

text \<open>\<open>RecalculateChecksums\<close> on a well-formed packet whose TCP or UDP payload reaches its
  checksum field changes nothing but the IP checksum, keeps the packet well formed, and the
  header that \<open>Serialize\<close> then writes passes the receiver's check: its checksum is 0.\<close>

theorem recalculate_header_verifies:
  assumes "wf_ip p"
    and "Protocol p = ProtocolTCP \<longrightarrow> 18 \<le> length (Payload p)"
    and "Protocol p = ProtocolUDP \<longrightarrow> 8 \<le> length (Payload p)"
  shows "\<exists>c data. RecalculateChecksums p = Ok (p\<lparr>Checksum := c\<rparr>) \<and> wf_ip (p\<lparr>Checksum := c\<rparr>) \<and>
    IPPacket_Serialize (p\<lparr>Checksum := c\<rparr>) = Ok data \<and>
    CalculateChecksum (take (unat (HeaderLen p)) data) = 0"
  using RecalculateChecksums_layout [OF assms] recalculated_header_verifies [OF assms(1) refl]
    assms(1) wf_ip_Checksum by blast

definition sample_icmp :: ip_packet where
  "sample_icmp = sample_ip\<lparr>Protocol := ProtocolICMP\<rparr>"

theorem recalculate_header_verifies_witness:
  "\<exists>c data. RecalculateChecksums sample_icmp = Ok (sample_icmp\<lparr>Checksum := c\<rparr>) \<and>
    IPPacket_Serialize (sample_icmp\<lparr>Checksum := c\<rparr>) = Ok data \<and>
    CalculateChecksum (take 24 data) = 0"
  using recalculate_header_verifies [of sample_icmp]
  by (auto simp: sample_icmp_def sample_ip_def wf_ip_def ProtocolICMP_def ProtocolTCP_def ProtocolUDP_def)

text \<open>What \<open>RecalculateChecksums\<close> does on every packet. It panics exactly on a TCP payload
  below 18 bytes, a UDP payload below 8 or a header below 20, never returns an error, and its
  result is that of \<open>RecalculateIPChecksum\<close> alone: the transport checksum it computes goes to
  the IP header field, is overwritten, and the payload keeps its old one.\<close>

theorem recalculate_ip_only:
  "RecalculateChecksums p =
    (if Protocol p = ProtocolTCP \<and> length (Payload p) < 18 \<or>
        Protocol p = ProtocolUDP \<and> length (Payload p) < 8
     then Panic else RecalculateIPChecksum p) \<and>
   (HeaderLen p < 20 \<and> RecalculateIPChecksum p = Panic \<or>
    20 \<le> HeaderLen p \<and> (\<exists>c. RecalculateIPChecksum p = Ok (p\<lparr>Checksum := c\<rparr>)))"
proof (intro conjI RecalculateChecksums_cases)
  show "HeaderLen p < 20 \<and> RecalculateIPChecksum p = Panic \<or>
    20 \<le> HeaderLen p \<and> (\<exists>c. RecalculateIPChecksum p = Ok (p\<lparr>Checksum := c\<rparr>))"
    using RecalculateIPChecksum_Ok [of p] RecalculateIPChecksum_Panic [of p] not_less by blast
qed

text \<open>The TCP checksum of any segment of 18 to 65535 bytes exists, and the segment with that
  checksum in its field verifies against the pseudo header, whatever the field held before.
  The UDP checksum does the same for segments of at least 8 bytes and is never 0.\<close>

theorem transport_checksums_verify:
  assumes "18 \<le> length tcp" "length tcp \<le> 65535" "8 \<le> length udp" "length udp \<le> 65535"
  shows "(\<exists>c. CalculateTCPChecksum src dst tcp = Ok c \<and>
      CalculateChecksum (pseudoHeader_Serialize (newPseudoHeader src dst ProtocolTCP
        (of_nat (length tcp))) @ put_be16 16 c tcp) = 0) \<and>
    (\<exists>c. CalculateUDPChecksum src dst udp = Ok c \<and> c \<noteq> 0 \<and>
      CalculateChecksum (pseudoHeader_Serialize (newPseudoHeader src dst ProtocolUDP
        (of_nat (length udp))) @ put_be16 6 c udp) = 0)"
proof
  obtain c where "CalculateTCPChecksum src dst tcp = Ok c"
    using assms(1) by (simp add: CalculateTCPChecksum_def Let_def)
  then show "\<exists>c. CalculateTCPChecksum src dst tcp = Ok c \<and>
      CalculateChecksum (pseudoHeader_Serialize (newPseudoHeader src dst ProtocolTCP
        (of_nat (length tcp))) @ put_be16 16 c tcp) = 0"
    using TCP_checksum_verifies assms(2) by blast
  have "\<exists>c. CalculateUDPChecksum src dst udp = Ok c"
    using assms(3) by (simp add: CalculateUDPChecksum_def Let_def)
  then show "\<exists>c. CalculateUDPChecksum src dst udp = Ok c \<and> c \<noteq> 0 \<and>
      CalculateChecksum (pseudoHeader_Serialize (newPseudoHeader src dst ProtocolUDP
        (of_nat (length udp))) @ put_be16 6 c udp) = 0"
    using UDP_checksum_verifies assms(4) by blast
qed

theorem transport_checksums_verify_witness:
  "\<exists>c. CalculateUDPChecksum [10, 0, 0, 1] [10, 0, 0, 2] (replicate 9 7) = Ok c \<and> c \<noteq> 0"
  using transport_checksums_verify [of "replicate 20 0" "replicate 9 7" "[10, 0, 0, 1]" "[10, 0, 0, 2]"]
  by auto

end
