(* ===== verification/Proto.thy ===== *)
theory Proto
  imports GoNet
begin

text \<open>
  \<open>proto/packet.pb.go\<close>: the messages of the tunnel. A message is a record with the fields of
  the generated struct, a nil-able message field is an option, and the oneof of a stream
  message is a datatype, with \<open>Unset\<close> for a message whose oneof is not set. Enum values are
  open in protocol buffers, so they are integers with named constants. A message that comes off
  the wire has a non-nil payload in every set oneof.
\<close>

definition Protocol_PROTOCOL_UNSPECIFIED :: int where "Protocol_PROTOCOL_UNSPECIFIED = 0"
definition Protocol_PROTOCOL_ICMP :: int where "Protocol_PROTOCOL_ICMP = 1"
definition Protocol_PROTOCOL_TCP :: int where "Protocol_PROTOCOL_TCP = 6"
definition Protocol_PROTOCOL_UDP :: int where "Protocol_PROTOCOL_UDP = 17"

definition Direction_DIRECTION_UNSPECIFIED :: int where "Direction_DIRECTION_UNSPECIFIED = 0"
definition Direction_DIRECTION_FORWARD :: int where "Direction_DIRECTION_FORWARD = 1"
definition Direction_DIRECTION_REVERSE :: int where "Direction_DIRECTION_REVERSE = 2"

record pb_tuple =
  SrcIp :: string
  SrcPortN :: u32
  DstIp :: string
  DstPortN :: u32

record packet =
  ConnectionId :: string
  Data :: "byte list"
  ConnTuple :: "pb_tuple option"
  PktProtocol :: int
  Direction :: int
  Timestamp :: int

record client_register =
  ClientId :: string

record proxy_register =
  ProxyId :: string
  ManagedCidr :: string

record register_ack =
  Success :: bool
  Message :: string

record heartbeat =
  SenderId :: string
  HbTimestamp :: int

datatype client_message =
    ClientMessage_Register client_register
  | ClientMessage_Packet packet
  | ClientMessage_Heartbeat heartbeat
  | ClientMessage_Ack register_ack
  | ClientMessage_Unset

datatype proxy_message =
    ProxyMessage_Register proxy_register
  | ProxyMessage_Packet packet
  | ProxyMessage_Heartbeat heartbeat
  | ProxyMessage_Ack register_ack
  | ProxyMessage_Unset

end
