(* ===== verification/IdleTable.thy ===== *)
theory IdleTable
  imports Prelude
begin

text \<open>
  The contract three components of the tunnel share: a table of connections by identifier that
  is cleaned of the entries idle for too long. The client's tracker, the proxy's forwarder and
  the server's registry provide it; the lemmas here are proved once from its laws.
\<close>

locale idle_table =
  fixes entry :: "'t \<Rightarrow> string \<Rightarrow> 'e option"
    and last_activity :: "'t \<Rightarrow> 'e \<Rightarrow> int"
    and cleanup :: "int \<Rightarrow> string list \<Rightarrow> 't \<Rightarrow> 't"
    and max_idle :: int
  assumes cleanup_entry: "range_order (entry t) order \<Longrightarrow>
      entry (cleanup now order t) i =
        (case entry t i of
           None \<Rightarrow> None
         | Some e \<Rightarrow> if time_sub now (last_activity t e) > max_idle then None else Some e)"
    and cleanup_activity: "last_activity (cleanup now order t) e = last_activity t e"
begin

lemma cleanup_order_irrelevant:
  "range_order (entry t) order \<Longrightarrow> range_order (entry t) order' \<Longrightarrow>
   entry (cleanup now order t) = entry (cleanup now order' t)"
  by (rule ext) (simp add: cleanup_entry)

lemma cleanup_submap: "range_order (entry t) order \<Longrightarrow> entry (cleanup now order t) \<subseteq>\<^sub>m entry t"
  by (auto simp: map_le_def cleanup_entry split: option.splits if_splits)

lemma cleanup_fresh:
  "range_order (entry t) order \<Longrightarrow> entry (cleanup now order t) i = Some e \<Longrightarrow>
   time_sub now (last_activity t e) \<le> max_idle"
  by (simp add: cleanup_entry split: option.splits if_splits)

lemma cleanup_keeps:
  "range_order (entry t) order \<Longrightarrow> entry t i = Some e \<Longrightarrow> time_sub now (last_activity t e) \<le> max_idle \<Longrightarrow>
   entry (cleanup now order t) i = Some e"
  by (simp add: cleanup_entry)

lemma cleanup_idem:
  assumes "range_order (entry t) order" "range_order (entry (cleanup now order t)) order'"
  shows "entry (cleanup now order' (cleanup now order t)) = entry (cleanup now order t)"
proof
  fix i
  show "entry (cleanup now order' (cleanup now order t)) i = entry (cleanup now order t) i"
    using cleanup_fresh [OF assms(1), of now i]
    by (cases "entry (cleanup now order t) i")
      (simp_all add: cleanup_entry [OF assms(2)] cleanup_activity not_less)
qed

text \<open>A later cleanup removes what an earlier one of the same table would have removed.\<close>

lemma cleanup_mono:
  "range_order (entry t) order \<Longrightarrow> now \<le> now' \<Longrightarrow>
   entry (cleanup now' order t) \<subseteq>\<^sub>m entry (cleanup now order t)"
  using time_sub_mono [of now now']
  by (auto simp: map_le_def cleanup_entry split: option.splits if_splits) (meson leD le_less_trans not_le)

lemma cleanup_count:
  assumes "range_order (entry t) order"
  shows "map_len (entry (cleanup now order t)) =
    length (filter (\<lambda>i. \<exists>e. entry t i = Some e \<and> time_sub now (last_activity t e) \<le> max_idle) order)"
proof -
  have "dom (entry (cleanup now order t)) =
      set (filter (\<lambda>i. \<exists>e. entry t i = Some e \<and> time_sub now (last_activity t e) \<le> max_idle) order)"
    using assms by (auto simp: dom_def cleanup_entry [OF assms] range_order_def not_less
      split: option.splits if_splits)
  then show ?thesis using assms
    by (simp only: map_len_def) (rule distinct_card, simp add: range_order_def)
qed

end

end
