(* ===== verification/Registry.thy ===== *)
theory Registry
  imports Proto IdleTable
begin

text \<open>
  \<open>internal/server/registry.go\<close>: the server's tables of clients, proxies and connection
  routes. A stream is named by a number. A route is an object the code holds a pointer to
  while the lock is released, so the routes live in a heap (a list, a pointer is an index) and
  the table maps connection identifiers to pointers. Every definition is one critical section
  of the lock, or a method composed of its critical sections. The instant \<open>now\<close> and the order
  in which the runtime ranges over a map are arguments. Log output is not modelled.
\<close>

section \<open>State\<close>

record client_conn =
  cc_ID :: string
  cc_Stream :: nat
  cc_RemoteAddr :: string
  cc_ConnectedAt :: int

record proxy_conn =
  pc_ID :: string
  pc_Stream :: nat
  pc_RemoteAddr :: string
  pc_ManagedCIDR :: string
  pc_ConnectedAt :: int

record conn_route =
  rt_ConnectionID :: string
  rt_ClientID :: string
  rt_ProxyID :: string
  rt_CreatedAt :: int
  rt_LastActivity :: int
  rt_PacketsToClient :: u64
  rt_PacketsToProxy :: u64
  rt_BytesToClient :: u64
  rt_BytesToProxy :: u64

record registry =
  clients :: "string \<rightharpoonup> client_conn"
  proxys :: "string \<rightharpoonup> proxy_conn"
  connections :: "string \<rightharpoonup> nat"
  routes :: "conn_route list"

definition NewRegistry :: registry where
  "NewRegistry = \<lparr>clients = Map.empty, proxys = Map.empty, connections = Map.empty, routes = []\<rparr>"

datatype registry_error =
    ClientAlreadyRegistered string
  | ProxyAlreadyRegistered string
  | NoProxyForDestination string
  | ProxyNotFound string
  | ConnectionNotFound string
  | ClientNotFound string

section \<open>Clients and proxies\<close>

definition RegisterClientStream ::
  "int \<Rightarrow> string \<Rightarrow> nat \<Rightarrow> registry \<Rightarrow> registry \<times> registry_error option" where
  "RegisterClientStream now ident stream r =
     (case clients r ident of
        Some _ \<Rightarrow> (r, Some (ClientAlreadyRegistered ident))
      | None \<Rightarrow>
          let client = \<lparr>cc_ID = ident, cc_Stream = stream, cc_RemoteAddr = ''grpc-stream'',
                        cc_ConnectedAt = now\<rparr>
          in (r\<lparr>clients := (clients r)(ident \<mapsto> client)\<rparr>, None))"

definition UnregisterClient :: "string \<Rightarrow> registry \<Rightarrow> registry" where
  "UnregisterClient ident r =
     (case clients r ident of
        Some _ \<Rightarrow> r\<lparr>clients := (clients r)(ident := None)\<rparr>
      | None \<Rightarrow> r)"

definition GetClient :: "string \<Rightarrow> registry \<Rightarrow> client_conn option" where
  "GetClient ident r = clients r ident"

definition RegisterProxyStream ::
  "int \<Rightarrow> string \<Rightarrow> nat \<Rightarrow> string \<Rightarrow> registry \<Rightarrow> registry \<times> registry_error option" where
  "RegisterProxyStream now ident stream managedCIDR r =
     (case proxys r ident of
        Some _ \<Rightarrow> (r, Some (ProxyAlreadyRegistered ident))
      | None \<Rightarrow>
          let proxy = \<lparr>pc_ID = ident, pc_Stream = stream, pc_RemoteAddr = ''grpc-stream'',
                       pc_ManagedCIDR = managedCIDR, pc_ConnectedAt = now\<rparr>
          in (r\<lparr>proxys := (proxys r)(ident \<mapsto> proxy)\<rparr>, None))"

definition UnregisterProxy :: "string \<Rightarrow> registry \<Rightarrow> registry" where
  "UnregisterProxy ident r =
     (case proxys r ident of
        Some _ \<Rightarrow> r\<lparr>proxys := (proxys r)(ident := None)\<rparr>
      | None \<Rightarrow> r)"

definition GetProxy :: "string \<Rightarrow> registry \<Rightarrow> proxy_conn option" where
  "GetProxy ident r = proxys r ident"

definition ListClients :: "string list \<Rightarrow> registry \<Rightarrow> client_conn list" where
  "ListClients order r = range_values (clients r) order"

definition ListProxys :: "string list \<Rightarrow> registry \<Rightarrow> proxy_conn list" where
  "ListProxys order r = range_values (proxys r) order"

section \<open>Finding the proxy of an address\<close>

text \<open>The loop over the proxies; one whose CIDR does not parse is skipped.\<close>

fun find_cidr_loop :: "ip \<Rightarrow> proxy_conn list \<Rightarrow> proxy_conn option" where
  "find_cidr_loop ip [] = None"
| "find_cidr_loop ip (proxy # rest) =
     (case parse_cidr (pc_ManagedCIDR proxy) of
        None \<Rightarrow> find_cidr_loop ip rest
      | Some cidr \<Rightarrow> if contains cidr ip then Some proxy else find_cidr_loop ip rest)"

definition findProxyByCIDR :: "string list \<Rightarrow> string \<Rightarrow> registry \<Rightarrow> proxy_conn option" where
  "findProxyByCIDR order targetIP r =
     (let ip = parse_ip targetIP in
      if ip = [] then None else find_cidr_loop ip (range_values (proxys r) order))"

definition FindProxyByCIDR :: "string list \<Rightarrow> string \<Rightarrow> registry \<Rightarrow> proxy_conn option" where
  "FindProxyByCIDR order targetIP r =
     (let ip = parse_ip targetIP in
      if ip = [] then None else find_cidr_loop ip (range_values (proxys r) order))"

section \<open>Routing\<close>

definition heap_update :: "nat \<Rightarrow> (conn_route \<Rightarrow> conn_route) \<Rightarrow> registry \<Rightarrow> registry" where
  "heap_update ref f r = r\<lparr>routes := (routes r)[ref := f (routes r ! ref)]\<rparr>"

text \<open>The first critical section of \<open>RouteFromClient\<close>: the route of the connection, created for
  the proxy of the destination when there is none, and the proxy's entry.\<close>

definition RouteFromClient_lookup ::
  "int \<Rightarrow> string list \<Rightarrow> string \<Rightarrow> packet \<Rightarrow> registry \<Rightarrow>
   registry \<times> (registry_error + nat \<times> proxy_conn)" where
  "RouteFromClient_lookup now order clientID pkt r =
     (case (case connections r (ConnectionId pkt) of
          Some ref \<Rightarrow> (heap_update ref (\<lambda>rt. rt\<lparr>rt_LastActivity := now\<rparr>) r, Inr ref)
        | None \<Rightarrow>
            let destIP = (case ConnTuple pkt of Some t \<Rightarrow> DstIp t | None \<Rightarrow> '''') in
            case findProxyByCIDR order destIP r of
              None \<Rightarrow> (r, Inl (NoProxyForDestination destIP))
            | Some proxy \<Rightarrow>
                let route = \<lparr>rt_ConnectionID = ConnectionId pkt, rt_ClientID = clientID,
                      rt_ProxyID = pc_ID proxy, rt_CreatedAt = now, rt_LastActivity = now,
                      rt_PacketsToClient = 0, rt_PacketsToProxy = 0, rt_BytesToClient = 0,
                      rt_BytesToProxy = 0\<rparr>;
                    ref = length (routes r)
                in (r\<lparr>routes := routes r @ [route],
                      connections := (connections r)(ConnectionId pkt \<mapsto> ref)\<rparr>, Inr ref)) of
        (r', Inl e) \<Rightarrow> (r', Inl e)
      | (r', Inr ref) \<Rightarrow>
          let proxyID = rt_ProxyID (routes r' ! ref) in
          (r', case proxys r' proxyID of
             None \<Rightarrow> Inl (ProxyNotFound proxyID)
           | Some proxy \<Rightarrow> Inr (ref, proxy)))"

text \<open>The second critical section: the counters.\<close>

definition RouteFromClient_count :: "nat \<Rightarrow> packet \<Rightarrow> registry \<Rightarrow> registry" where
  "RouteFromClient_count ref pkt r =
     heap_update ref (\<lambda>rt. rt\<lparr>rt_PacketsToProxy := rt_PacketsToProxy rt + 1,
       rt_BytesToProxy := rt_BytesToProxy rt + of_nat (length (Data pkt))\<rparr>) r"

text \<open>The method without interruption: the result is the stream and message it sends, or the
  error it returns before sending.\<close>

definition RouteFromClient ::
  "int \<Rightarrow> string list \<Rightarrow> string \<Rightarrow> packet \<Rightarrow> registry \<Rightarrow>
   registry \<times> (registry_error + nat \<times> proxy_message)" where
  "RouteFromClient now order clientID pkt r =
     (case RouteFromClient_lookup now order clientID pkt r of
        (r', Inl e) \<Rightarrow> (r', Inl e)
      | (r', Inr (ref, proxy)) \<Rightarrow>
          (RouteFromClient_count ref pkt r', Inr (pc_Stream proxy, ProxyMessage_Packet pkt)))"

definition RouteFromProxy_lookup ::
  "int \<Rightarrow> packet \<Rightarrow> registry \<Rightarrow> registry \<times> (registry_error + nat \<times> client_conn)" where
  "RouteFromProxy_lookup now pkt r =
     (case connections r (ConnectionId pkt) of
        None \<Rightarrow> (r, Inl (ConnectionNotFound (ConnectionId pkt)))
      | Some ref \<Rightarrow>
          let r' = heap_update ref (\<lambda>rt. rt\<lparr>rt_LastActivity := now\<rparr>) r;
              clientID = rt_ClientID (routes r' ! ref)
          in (r', case clients r' clientID of
                None \<Rightarrow> Inl (ClientNotFound clientID)
              | Some client \<Rightarrow> Inr (ref, client)))"

definition RouteFromProxy_count :: "nat \<Rightarrow> packet \<Rightarrow> registry \<Rightarrow> registry" where
  "RouteFromProxy_count ref pkt r =
     heap_update ref (\<lambda>rt. rt\<lparr>rt_PacketsToClient := rt_PacketsToClient rt + 1,
       rt_BytesToClient := rt_BytesToClient rt + of_nat (length (Data pkt))\<rparr>) r"

text \<open>The proxy's own identifier is only logged.\<close>

definition RouteFromProxy ::
  "int \<Rightarrow> string \<Rightarrow> packet \<Rightarrow> registry \<Rightarrow>
   registry \<times> (registry_error + nat \<times> client_message)" where
  "RouteFromProxy now proxyID pkt r =
     (case RouteFromProxy_lookup now pkt r of
        (r', Inl e) \<Rightarrow> (r', Inl e)
      | (r', Inr (ref, client)) \<Rightarrow>
          (RouteFromProxy_count ref pkt r', Inr (cc_Stream client, ClientMessage_Packet pkt)))"

section \<open>Connections\<close>

definition RemoveConnection :: "string \<Rightarrow> registry \<Rightarrow> registry" where
  "RemoveConnection connID r = r\<lparr>connections := (connections r)(connID := None)\<rparr>"

definition GetConnectionCount :: "registry \<Rightarrow> nat" where
  "GetConnectionCount r = map_len (connections r)"

definition idleTimeout :: int where "idleTimeout = 5 * minute"

definition stale_ids :: "int \<Rightarrow> string list \<Rightarrow> registry \<Rightarrow> string list" where
  "stale_ids now order r =
     filter (\<lambda>connID. case connections r connID of
         None \<Rightarrow> False
       | Some ref \<Rightarrow> time_sub now (rt_LastActivity (routes r ! ref)) > idleTimeout) order"

definition cleanupStaleConnections :: "int \<Rightarrow> string list \<Rightarrow> registry \<Rightarrow> registry" where
  "cleanupStaleConnections now order r =
     r\<lparr>connections := delete_keys (stale_ids now order r) (connections r)\<rparr>"

text \<open>The tables are replaced by empty ones; routes other goroutines still hold stay alive.\<close>

definition Registry_Cleanup :: "registry \<Rightarrow> registry" where
  "Registry_Cleanup r =
     r\<lparr>clients := Map.empty, proxys := Map.empty, connections := Map.empty\<rparr>"

record connection_metrics =
  cm_ConnectionID :: string
  cm_ClientID :: string
  cm_ProxyID :: string
  cm_Age :: int
  cm_IdleTime :: int
  cm_PacketsToClient :: u64
  cm_PacketsToProxy :: u64
  cm_BytesToClient :: u64
  cm_BytesToProxy :: u64

definition route_metrics :: "int \<Rightarrow> conn_route \<Rightarrow> connection_metrics" where
  "route_metrics now rt =
     \<lparr>cm_ConnectionID = rt_ConnectionID rt, cm_ClientID = rt_ClientID rt,
      cm_ProxyID = rt_ProxyID rt, cm_Age = time_sub now (rt_CreatedAt rt),
      cm_IdleTime = time_sub now (rt_LastActivity rt),
      cm_PacketsToClient = rt_PacketsToClient rt, cm_PacketsToProxy = rt_PacketsToProxy rt,
      cm_BytesToClient = rt_BytesToClient rt, cm_BytesToProxy = rt_BytesToProxy rt\<rparr>"

definition GetConnectionMetrics :: "int \<Rightarrow> string \<Rightarrow> registry \<Rightarrow> connection_metrics option" where
  "GetConnectionMetrics now connID r =
     map_option (\<lambda>ref. route_metrics now (routes r ! ref)) (connections r connID)"

definition GetAllConnectionMetrics ::
  "int \<Rightarrow> string list \<Rightarrow> registry \<Rightarrow> connection_metrics list" where
  "GetAllConnectionMetrics now order r =
     map (\<lambda>ref. route_metrics now (routes r ! ref)) (range_values (connections r) order)"

section \<open>Well-formed registries\<close>

text \<open>
  Entries are filed under their own identifier, and every pointer of the table leads to a
  route of that connection, so no two connections share a route.
\<close>

definition reg_ok :: "registry \<Rightarrow> bool" where
  "reg_ok r \<longleftrightarrow>
     (\<forall>i c. clients r i = Some c \<longrightarrow> cc_ID c = i) \<and>
     (\<forall>i p. proxys r i = Some p \<longrightarrow> pc_ID p = i) \<and>
     (\<forall>i ref. connections r i = Some ref \<longrightarrow>
        ref < length (routes r) \<and> rt_ConnectionID (routes r ! ref) = i) \<and>
     finite (dom (clients r)) \<and> finite (dom (proxys r)) \<and> finite (dom (connections r))"

lemma reg_okI:
  assumes "\<And>i c. clients r i = Some c \<Longrightarrow> cc_ID c = i"
    and "\<And>i p. proxys r i = Some p \<Longrightarrow> pc_ID p = i"
    and "\<And>i ref. connections r i = Some ref \<Longrightarrow>
       ref < length (routes r) \<and> rt_ConnectionID (routes r ! ref) = i"
    and "finite (dom (clients r))" "finite (dom (proxys r))" "finite (dom (connections r))"
  shows "reg_ok r"
  using assms by (auto simp: reg_ok_def)

lemma reg_okD:
  assumes "reg_ok r"
  shows "clients r i = Some c \<Longrightarrow> cc_ID c = i" "proxys r i = Some p \<Longrightarrow> pc_ID p = i"
    and "connections r i = Some ref \<Longrightarrow> ref < length (routes r)"
    and "connections r i = Some ref \<Longrightarrow> rt_ConnectionID (routes r ! ref) = i"
    and "finite (dom (clients r))" "finite (dom (proxys r))" "finite (dom (connections r))"
  using assms by (auto simp: reg_ok_def)

lemma reg_ok_ref_inj: "reg_ok r \<Longrightarrow> connections r i = Some ref \<Longrightarrow> connections r j = Some ref \<Longrightarrow> i = j"
  by (metis reg_okD(4))

lemma NewRegistry_ok: "reg_ok NewRegistry"
  by (simp add: reg_ok_def NewRegistry_def)

lemma RegisterClientStream_ok: "reg_ok r \<Longrightarrow> reg_ok (fst (RegisterClientStream now i s r))"
  by (auto simp: RegisterClientStream_def reg_ok_def Let_def split: option.splits)

lemma RegisterProxyStream_ok: "reg_ok r \<Longrightarrow> reg_ok (fst (RegisterProxyStream now i s cidr r))"
  by (auto simp: RegisterProxyStream_def reg_ok_def Let_def split: option.splits)

lemma UnregisterClient_ok: "reg_ok r \<Longrightarrow> reg_ok (UnregisterClient i r)"
  by (auto simp: UnregisterClient_def reg_ok_def split: option.splits)

lemma UnregisterProxy_ok: "reg_ok r \<Longrightarrow> reg_ok (UnregisterProxy i r)"
  by (auto simp: UnregisterProxy_def reg_ok_def split: option.splits)

lemma heap_update_sel [simp]:
  "clients (heap_update ref f r) = clients r" "proxys (heap_update ref f r) = proxys r"
  "connections (heap_update ref f r) = connections r"
  "routes (heap_update ref f r) = (routes r)[ref := f (routes r ! ref)]"
  by (simp_all add: heap_update_def)

lemma heap_update_ok:
  "reg_ok r \<Longrightarrow> (\<And>rt. rt_ConnectionID (f rt) = rt_ConnectionID rt) \<Longrightarrow> reg_ok (heap_update ref f r)"
  by (simp add: reg_ok_def nth_update_field [of rt_ConnectionID])

lemma RouteFromClient_count_ok: "reg_ok r \<Longrightarrow> reg_ok (RouteFromClient_count ref pkt r)"
  unfolding RouteFromClient_count_def by (rule heap_update_ok) simp_all

lemma RouteFromProxy_count_ok: "reg_ok r \<Longrightarrow> reg_ok (RouteFromProxy_count ref pkt r)"
  unfolding RouteFromProxy_count_def by (rule heap_update_ok) simp_all

lemma RouteFromProxy_lookup_ok: "reg_ok r \<Longrightarrow> reg_ok (fst (RouteFromProxy_lookup now pkt r))"
  by (auto simp: RouteFromProxy_lookup_def Let_def split: option.splits intro!: heap_update_ok)

lemma new_route_ok:
  "reg_ok r \<Longrightarrow> rt_ConnectionID rt = i \<Longrightarrow>
   reg_ok (r\<lparr>routes := routes r @ [rt], connections := (connections r)(i \<mapsto> length (routes r))\<rparr>)"
  by (auto simp: reg_ok_def nth_append less_SucI)

lemma RouteFromClient_lookup_ok:
  "reg_ok r \<Longrightarrow> reg_ok (fst (RouteFromClient_lookup now order cid pkt r))"
  by (auto simp: RouteFromClient_lookup_def Let_def split: option.splits
    intro!: heap_update_ok new_route_ok)

lemma RemoveConnection_ok: "reg_ok r \<Longrightarrow> reg_ok (RemoveConnection i r)"
  by (auto simp: RemoveConnection_def reg_ok_def)

lemma cleanup_ok: "reg_ok r \<Longrightarrow> reg_ok (cleanupStaleConnections now order r)"
  by (auto simp: cleanupStaleConnections_def reg_ok_def delete_keys_apply split: if_splits)

lemma Registry_Cleanup_ok: "reg_ok r \<Longrightarrow> reg_ok (Registry_Cleanup r)"
  by (auto simp: Registry_Cleanup_def reg_ok_def)

lemmas registry_ops_ok = RegisterClientStream_ok RegisterProxyStream_ok UnregisterClient_ok
  UnregisterProxy_ok RouteFromClient_count_ok RouteFromProxy_count_ok RouteFromProxy_lookup_ok
  RouteFromClient_lookup_ok RemoveConnection_ok cleanup_ok Registry_Cleanup_ok

section \<open>The proxy of an address\<close>

definition proxy_serves :: "string \<Rightarrow> proxy_conn \<Rightarrow> bool" where
  "proxy_serves target p \<longleftrightarrow> parse_ip target \<noteq> [] \<and>
     (case parse_cidr (pc_ManagedCIDR p) of None \<Rightarrow> False | Some cidr \<Rightarrow> contains cidr (parse_ip target))"

lemma find_cidr_loop_find:
  "parse_ip t \<noteq> [] \<Longrightarrow> find_cidr_loop (parse_ip t) ps = List.find (proxy_serves t) ps"
  by (induction ps) (auto simp: proxy_serves_def split: option.splits)

lemma findProxyByCIDR_find:
  "findProxyByCIDR order t r = List.find (proxy_serves t) (range_values (proxys r) order)"
proof (cases "parse_ip t = []")
  case True
  then have "\<not> proxy_serves t p" for p by (simp add: proxy_serves_def)
  then have "List.find (proxy_serves t) ps = None" for ps by (simp add: find_None_iff)
  then show ?thesis using True by (simp add: findProxyByCIDR_def)
qed (simp add: findProxyByCIDR_def find_cidr_loop_find)

lemma find_proxy_Some:
  "range_order (proxys r) order \<Longrightarrow> findProxyByCIDR order t r = Some p \<Longrightarrow>
   p \<in> ran (proxys r) \<and> proxy_serves t p"
  unfolding findProxyByCIDR_find by (metis find_SomeD set_range_values_ran)

lemma find_proxy_None:
  "range_order (proxys r) order \<Longrightarrow>
   findProxyByCIDR order t r = None \<longleftrightarrow> (\<forall>p \<in> ran (proxys r). \<not> proxy_serves t p)"
  unfolding findProxyByCIDR_find by (simp add: find_None_iff set_range_values_ran Ball_def)

lemma find_proxy_unique:
  assumes "range_order (proxys r) order" "p \<in> ran (proxys r)" "proxy_serves t p"
    and "\<And>q. q \<in> ran (proxys r) \<Longrightarrow> proxy_serves t q \<Longrightarrow> q = p"
  shows "findProxyByCIDR order t r = Some p"
proof (cases "findProxyByCIDR order t r")
  case None
  then show ?thesis using find_proxy_None [OF assms(1)] assms(2,3) by blast
next
  case (Some q)
  then show ?thesis using find_proxy_Some [OF assms(1) Some] assms(4) by blast
qed

lemma FindProxyByCIDR_eq: "FindProxyByCIDR = findProxyByCIDR"
  by (intro ext) (simp add: FindProxyByCIDR_def findProxyByCIDR_def)

lemma proxy_serves_v4:
  assumes "length net = 4" "length ip = 4" "n \<le> 32"
    and "pc_ManagedCIDR p = v4_string net @ ''/'' @ dec n"
  shows "proxy_serves (v4_string ip) p \<longleftrightarrow> (\<forall>j<n. ip_bit net j = ip_bit ip j)"
proof -
  have "v4_mapped ip \<noteq> []" "ip \<noteq> []" using assms(2) by (auto simp: v4_mapped_def)
  then show ?thesis
    using assms by (simp add: proxy_serves_def parse_ip_v4_string parse_cidr_v4_string
      contains_v4_net same_prefix_iff)
qed

section \<open>Specification without pointers\<close>

text \<open>
  The registry as its clients see it: each connection has a route of its own. The methods
  below are the specification the pointer manipulating ones are shown to implement.
\<close>

record spec_registry =
  s_clients :: "string \<rightharpoonup> client_conn"
  s_proxys :: "string \<rightharpoonup> proxy_conn"
  s_routes :: "string \<rightharpoonup> conn_route"

definition route_of :: "registry \<Rightarrow> string \<rightharpoonup> conn_route" where
  "route_of r i = map_option (\<lambda>ref. routes r ! ref) (connections r i)"

definition abs_reg :: "registry \<Rightarrow> spec_registry" where
  "abs_reg r = \<lparr>s_clients = clients r, s_proxys = proxys r, s_routes = route_of r\<rparr>"

definition deliver_to_proxy :: "int \<Rightarrow> packet \<Rightarrow> conn_route \<Rightarrow> conn_route" where
  "deliver_to_proxy now pkt rt = rt\<lparr>rt_LastActivity := now,
     rt_PacketsToProxy := rt_PacketsToProxy rt + 1,
     rt_BytesToProxy := rt_BytesToProxy rt + of_nat (length (Data pkt))\<rparr>"

definition deliver_to_client :: "int \<Rightarrow> packet \<Rightarrow> conn_route \<Rightarrow> conn_route" where
  "deliver_to_client now pkt rt = rt\<lparr>rt_LastActivity := now,
     rt_PacketsToClient := rt_PacketsToClient rt + 1,
     rt_BytesToClient := rt_BytesToClient rt + of_nat (length (Data pkt))\<rparr>"

definition fresh_route :: "int \<Rightarrow> string \<Rightarrow> string \<Rightarrow> string \<Rightarrow> conn_route" where
  "fresh_route now connID clientID proxyID =
     \<lparr>rt_ConnectionID = connID, rt_ClientID = clientID, rt_ProxyID = proxyID, rt_CreatedAt = now,
      rt_LastActivity = now, rt_PacketsToClient = 0, rt_PacketsToProxy = 0, rt_BytesToClient = 0,
      rt_BytesToProxy = 0\<rparr>"

definition packet_dest :: "packet \<Rightarrow> string" where
  "packet_dest pkt = (case ConnTuple pkt of Some t \<Rightarrow> DstIp t | None \<Rightarrow> '''')"

text \<open>The route a packet from a client takes: the one there is, or a fresh one for the proxy
  that serves the destination.\<close>

definition spec_route :: "int \<Rightarrow> string list \<Rightarrow> string \<Rightarrow> packet \<Rightarrow> spec_registry \<Rightarrow> conn_route option" where
  "spec_route now order clientID pkt a =
     (case s_routes a (ConnectionId pkt) of
        Some rt \<Rightarrow> Some rt
      | None \<Rightarrow> map_option (\<lambda>p. fresh_route now (ConnectionId pkt) clientID (pc_ID p))
          (List.find (proxy_serves (packet_dest pkt)) (range_values (s_proxys a) order)))"

definition spec_RouteFromClient ::
  "int \<Rightarrow> string list \<Rightarrow> string \<Rightarrow> packet \<Rightarrow> spec_registry \<Rightarrow>
   spec_registry \<times> (registry_error + nat \<times> proxy_message)" where
  "spec_RouteFromClient now order clientID pkt a =
     (case spec_route now order clientID pkt a of
        None \<Rightarrow> (a, Inl (NoProxyForDestination (packet_dest pkt)))
      | Some rt \<Rightarrow>
          (case s_proxys a (rt_ProxyID rt) of
             None \<Rightarrow> (a\<lparr>s_routes := (s_routes a)(ConnectionId pkt \<mapsto> rt\<lparr>rt_LastActivity := now\<rparr>)\<rparr>,
                      Inl (ProxyNotFound (rt_ProxyID rt)))
           | Some p \<Rightarrow> (a\<lparr>s_routes := (s_routes a)(ConnectionId pkt \<mapsto> deliver_to_proxy now pkt rt)\<rparr>,
                      Inr (pc_Stream p, ProxyMessage_Packet pkt))))"

definition spec_RouteFromProxy ::
  "int \<Rightarrow> packet \<Rightarrow> spec_registry \<Rightarrow> spec_registry \<times> (registry_error + nat \<times> client_message)" where
  "spec_RouteFromProxy now pkt a =
     (case s_routes a (ConnectionId pkt) of
        None \<Rightarrow> (a, Inl (ConnectionNotFound (ConnectionId pkt)))
      | Some rt \<Rightarrow>
          (case s_clients a (rt_ClientID rt) of
             None \<Rightarrow> (a\<lparr>s_routes := (s_routes a)(ConnectionId pkt \<mapsto> rt\<lparr>rt_LastActivity := now\<rparr>)\<rparr>,
                      Inl (ClientNotFound (rt_ClientID rt)))
           | Some c \<Rightarrow> (a\<lparr>s_routes := (s_routes a)(ConnectionId pkt \<mapsto> deliver_to_client now pkt rt)\<rparr>,
                      Inr (cc_Stream c, ClientMessage_Packet pkt))))"

lemma abs_reg_sel [simp]:
  "s_clients (abs_reg r) = clients r" "s_proxys (abs_reg r) = proxys r" "s_routes (abs_reg r) = route_of r"
  by (simp_all add: abs_reg_def)

lemma route_of_heap_update:
  assumes "reg_ok r" "connections r i = Some ref"
  shows "route_of (heap_update ref f r) = (route_of r)(i \<mapsto> f (routes r ! ref))"
proof
  fix j
  show "route_of (heap_update ref f r) j = ((route_of r)(i \<mapsto> f (routes r ! ref))) j"
    using assms reg_ok_ref_inj [OF assms(1,2), of j] reg_okD(3) [OF assms]
    by (cases "connections r j") (auto simp: route_of_def nth_list_update)
qed

lemma abs_heap_update:
  "reg_ok r \<Longrightarrow> connections r i = Some ref \<Longrightarrow>
   abs_reg (heap_update ref f r) = (abs_reg r)\<lparr>s_routes := (route_of r)(i \<mapsto> f (routes r ! ref))\<rparr>"
  by (simp add: abs_reg_def route_of_heap_update)

lemma route_of_new:
  "reg_ok r \<Longrightarrow> route_of (r\<lparr>routes := routes r @ [rt], connections := (connections r)(i \<mapsto> length (routes r))\<rparr>) =
   (route_of r)(i \<mapsto> rt)"
  by (rule ext) (auto simp: route_of_def nth_append map_option_case dest: reg_okD(3) split: option.split)

lemma packet_dest_case: "(case ConnTuple pkt of None \<Rightarrow> '''' | Some t \<Rightarrow> DstIp t) = packet_dest pkt"
  by (simp add: packet_dest_def)

lemma spec_existing:
  "s_routes a (ConnectionId pkt) = Some rt \<Longrightarrow> spec_route now order cid pkt a = Some rt"
  by (simp add: spec_route_def)

text \<open>The first critical section, by the branch it takes.\<close>

lemma lookup_existing:
  assumes "connections r (ConnectionId pkt) = Some ref"
  shows "RouteFromClient_lookup now order cid pkt r =
    (let r' = heap_update ref (\<lambda>rt. rt\<lparr>rt_LastActivity := now\<rparr>) r; pid = rt_ProxyID (routes r ! ref)
     in (r', case proxys r pid of None \<Rightarrow> Inl (ProxyNotFound pid) | Some p \<Rightarrow> Inr (ref, p)))"
proof -
  have "rt_ProxyID ((rs[k := (rs ! k)\<lparr>rt_LastActivity := now\<rparr>] ! j)) = rt_ProxyID (rs ! j)"
    for rs :: "conn_route list" and k j
    by (rule nth_update_field [of rt_ProxyID]) simp
  then show ?thesis
    using assms by (simp add: RouteFromClient_lookup_def Let_def)
qed

lemma lookup_no_proxy:
  assumes "connections r (ConnectionId pkt) = None" "findProxyByCIDR order (packet_dest pkt) r = None"
  shows "RouteFromClient_lookup now order cid pkt r = (r, Inl (NoProxyForDestination (packet_dest pkt)))"
  using assms by (simp add: RouteFromClient_lookup_def Let_def packet_dest_case)

lemma lookup_new:
  assumes "connections r (ConnectionId pkt) = None" "findProxyByCIDR order (packet_dest pkt) r = Some p"
  shows "RouteFromClient_lookup now order cid pkt r =
    (r\<lparr>routes := routes r @ [fresh_route now (ConnectionId pkt) cid (pc_ID p)],
       connections := (connections r)(ConnectionId pkt \<mapsto> length (routes r))\<rparr>,
     case proxys r (pc_ID p) of
       None \<Rightarrow> Inl (ProxyNotFound (pc_ID p)) | Some q \<Rightarrow> Inr (length (routes r), q))"
  using assms
  by (simp add: RouteFromClient_lookup_def Let_def packet_dest_case fresh_route_def split: option.split)

text \<open>The methods on pointers implement the specification.\<close>

lemma RouteFromClient_existing_refines:
  assumes ok: "reg_ok r" and c: "connections r (ConnectionId pkt) = Some ref"
  shows "map_prod abs_reg (\<lambda>x. x) (RouteFromClient now order cid pkt r) =
    spec_RouteFromClient now order cid pkt (abs_reg r)"
proof -
  let ?touch = "heap_update ref (\<lambda>rt. rt\<lparr>rt_LastActivity := now\<rparr>) r"
  have ok': "reg_ok ?touch" using ok by (rule heap_update_ok) simp
  have ref: "ref < length (routes r)" using reg_okD(3) [OF ok c] .
  have c': "connections ?touch (ConnectionId pkt) = Some ref" using c by simp
  have rt: "route_of r (ConnectionId pkt) = Some (routes r ! ref)" using c by (simp add: route_of_def)
  show ?thesis
    using c rt ref
    by (cases "proxys r (rt_ProxyID (routes r ! ref))")
      (simp_all add: RouteFromClient_def lookup_existing Let_def spec_RouteFromClient_def spec_existing
        RouteFromClient_count_def abs_heap_update [OF ok' c'] route_of_heap_update [OF ok c]
        abs_heap_update [OF ok c] deliver_to_proxy_def)
qed

lemma RouteFromClient_new_refines:
  assumes ok: "reg_ok r" and c: "connections r (ConnectionId pkt) = None"
    and p: "findProxyByCIDR order (packet_dest pkt) r = Some p"
  shows "map_prod abs_reg (\<lambda>x. x) (RouteFromClient now order cid pkt r) =
    spec_RouteFromClient now order cid pkt (abs_reg r)"
proof -
  let ?rt = "fresh_route now (ConnectionId pkt) cid (pc_ID p)"
  let ?new = "r\<lparr>routes := routes r @ [?rt],
    connections := (connections r)(ConnectionId pkt \<mapsto> length (routes r))\<rparr>"
  have okn: "reg_ok ?new" using ok by (rule new_route_ok) (simp add: fresh_route_def)
  have cn: "connections ?new (ConnectionId pkt) = Some (length (routes r))" by simp
  have sp: "spec_route now order cid pkt (abs_reg r) = Some ?rt"
    using c p by (simp add: spec_route_def findProxyByCIDR_find route_of_def)
  have rtf: "rt_ProxyID ?rt = pc_ID p" "?rt\<lparr>rt_LastActivity := now\<rparr> = ?rt"
    by (simp_all add: fresh_route_def)
  have abs: "abs_reg ?new = (abs_reg r)\<lparr>s_routes := (route_of r)(ConnectionId pkt \<mapsto> ?rt)\<rparr>"
    by (simp add: abs_reg_def route_of_new [OF ok])
  have cnt: "abs_reg (RouteFromClient_count (length (routes r)) pkt ?new) =
      (abs_reg r)\<lparr>s_routes := (route_of r)(ConnectionId pkt \<mapsto> deliver_to_proxy now pkt ?rt)\<rparr>"
    unfolding RouteFromClient_count_def abs_heap_update [OF okn cn] route_of_new [OF ok] abs
    by (simp add: deliver_to_proxy_def fresh_route_def)
  show ?thesis
    by (cases "proxys r (pc_ID p)")
      (simp_all add: RouteFromClient_def lookup_new [OF c p] spec_RouteFromClient_def sp rtf abs cnt)
qed

lemma RouteFromClient_refines:
  assumes ok: "reg_ok r"
  shows "map_prod abs_reg (\<lambda>x. x) (RouteFromClient now order cid pkt r) =
    spec_RouteFromClient now order cid pkt (abs_reg r)"
proof (cases "connections r (ConnectionId pkt)")
  case None
  then show ?thesis
  proof (cases "findProxyByCIDR order (packet_dest pkt) r")
    case None
    then show ?thesis
      using \<open>connections r (ConnectionId pkt) = None\<close>
      by (simp add: RouteFromClient_def lookup_no_proxy spec_RouteFromClient_def spec_route_def
        findProxyByCIDR_find route_of_def)
  qed (rule RouteFromClient_new_refines [OF ok])
qed (rule RouteFromClient_existing_refines [OF ok])

lemma RouteFromProxy_refines:
  assumes ok: "reg_ok r"
  shows "map_prod abs_reg (\<lambda>x. x) (RouteFromProxy now pid pkt r) =
    spec_RouteFromProxy now pkt (abs_reg r)"
proof (cases "connections r (ConnectionId pkt)")
  case None
  then show ?thesis
    by (simp add: RouteFromProxy_def RouteFromProxy_lookup_def spec_RouteFromProxy_def route_of_def)
next
  case (Some ref)
  let ?touch = "heap_update ref (\<lambda>rt. rt\<lparr>rt_LastActivity := now\<rparr>) r"
  have ok': "reg_ok ?touch" using ok by (rule heap_update_ok) simp
  have ref: "ref < length (routes r)" using reg_okD(3) [OF ok Some] .
  have c': "connections ?touch (ConnectionId pkt) = Some ref" using Some by simp
  have rt: "route_of r (ConnectionId pkt) = Some (routes r ! ref)" using Some by (simp add: route_of_def)
  show ?thesis
    using Some rt ref
    by (cases "clients r (rt_ClientID (routes r ! ref))")
      (simp_all add: RouteFromProxy_def RouteFromProxy_lookup_def Let_def spec_RouteFromProxy_def
        RouteFromProxy_count_def abs_heap_update [OF ok' c'] route_of_heap_update [OF ok Some]
        abs_heap_update [OF ok Some] deliver_to_client_def)
qed

lemma RouteFromClient_ok: "reg_ok r \<Longrightarrow> reg_ok (fst (RouteFromClient now order cid pkt r))"
  using RouteFromClient_lookup_ok [of r now order cid pkt]
  by (auto simp: RouteFromClient_def split: prod.splits sum.splits intro: RouteFromClient_count_ok)

lemma RouteFromProxy_ok: "reg_ok r \<Longrightarrow> reg_ok (fst (RouteFromProxy now pid pkt r))"
  using RouteFromProxy_lookup_ok [of r now pkt]
  by (auto simp: RouteFromProxy_def split: prod.splits sum.splits intro: RouteFromProxy_count_ok)

lemma RouteFromClient_spec:
  "reg_ok r \<Longrightarrow> RouteFromClient now order cid pkt r = (r', x) \<Longrightarrow>
   spec_RouteFromClient now order cid pkt (abs_reg r) = (abs_reg r', x)"
  using RouteFromClient_refines [of r now order cid pkt] by simp

lemma RouteFromProxy_spec:
  "reg_ok r \<Longrightarrow> RouteFromProxy now pid pkt r = (r', x) \<Longrightarrow>
   spec_RouteFromProxy now pkt (abs_reg r) = (abs_reg r', x)"
  using RouteFromProxy_refines [of r now pid pkt] by simp

text \<open>What the specification says of routes: an existing one keeps its two ends.\<close>

definition same_ends :: "conn_route \<Rightarrow> conn_route \<Rightarrow> bool" where
  "same_ends a b \<longleftrightarrow> rt_ConnectionID a = rt_ConnectionID b \<and> rt_ClientID a = rt_ClientID b \<and>
     rt_ProxyID a = rt_ProxyID b \<and> rt_CreatedAt a = rt_CreatedAt b"

lemma same_ends_simps [simp]:
  "same_ends a a" "same_ends a (a\<lparr>rt_LastActivity := t\<rparr>)"
  "same_ends a (deliver_to_proxy t pkt a)" "same_ends a (deliver_to_client t pkt a)"
  by (simp_all add: same_ends_def deliver_to_proxy_def deliver_to_client_def)

lemma spec_client_frame:
  assumes "spec_RouteFromClient now order cid pkt a = (a', x)"
  shows "i \<noteq> ConnectionId pkt \<Longrightarrow> s_routes a' i = s_routes a i"
    and "s_routes a i = Some rt \<Longrightarrow> \<exists>rt'. s_routes a' i = Some rt' \<and> same_ends rt rt'"
    and "s_clients a' = s_clients a" "s_proxys a' = s_proxys a"
  using assms by (auto simp: spec_RouteFromClient_def spec_route_def split: option.splits if_splits)

lemma spec_proxy_frame:
  assumes "spec_RouteFromProxy now pkt a = (a', x)"
  shows "i \<noteq> ConnectionId pkt \<Longrightarrow> s_routes a' i = s_routes a i"
    and "s_routes a i = Some rt \<Longrightarrow> \<exists>rt'. s_routes a' i = Some rt' \<and> same_ends rt rt'"
    and "s_clients a' = s_clients a" "s_proxys a' = s_proxys a"
  using assms by (auto simp: spec_RouteFromProxy_def split: option.splits if_splits)

lemma spec_client_delivers:
  assumes "spec_RouteFromClient now order cid pkt a = (a', Inr (ps, m))"
    and "s_routes a (ConnectionId pkt) = None"
  shows "\<exists>rt p. s_routes a' (ConnectionId pkt) = Some rt \<and> rt_ClientID rt = cid \<and>
    s_proxys a (rt_ProxyID rt) = Some p \<and> pc_Stream p = ps \<and> m = ProxyMessage_Packet pkt"
  using assms
  by (auto simp: spec_RouteFromClient_def spec_route_def fresh_route_def deliver_to_proxy_def
    split: option.splits)

lemma spec_proxy_delivers:
  assumes "s_routes a (ConnectionId pkt) = Some rt" "s_clients a (rt_ClientID rt) = Some c"
  shows "spec_RouteFromProxy now pkt a =
    (a\<lparr>s_routes := (s_routes a)(ConnectionId pkt \<mapsto> deliver_to_client now pkt rt)\<rparr>,
     Inr (cc_Stream c, ClientMessage_Packet pkt))"
  using assms by (simp add: spec_RouteFromProxy_def)

lemma cleanup_connections:
  assumes "range_order (connections r) order"
  shows "connections (cleanupStaleConnections now order r) i =
    (case connections r i of
       None \<Rightarrow> None
     | Some ref \<Rightarrow> if time_sub now (rt_LastActivity (routes r ! ref)) > idleTimeout then None else Some ref)"
  using assms
  by (auto simp: cleanupStaleConnections_def delete_keys_apply stale_ids_def range_order_def
    split: option.splits)

interpretation registry_table: idle_table connections
  "\<lambda>r ref. rt_LastActivity (routes r ! ref)" cleanupStaleConnections idleTimeout
  by unfold_locales (simp_all add: cleanup_connections, simp add: cleanupStaleConnections_def)

section \<open>Counters\<close>

text \<open>A run of packets of any connections, from clients and from proxies, in order.\<close>

datatype packet_event =
    FromClient int "string list" string packet
  | FromProxy int string packet

fun route_event :: "packet_event \<Rightarrow> registry \<Rightarrow> registry" where
  "route_event (FromClient now order cid pkt) r = fst (RouteFromClient now order cid pkt r)"
| "route_event (FromProxy now pid pkt) r = fst (RouteFromProxy now pid pkt r)"

fun up_sizes :: "string \<Rightarrow> packet_event list \<Rightarrow> nat list" where
  "up_sizes i [] = []"
| "up_sizes i (FromClient now order cid pkt # es) =
     (if ConnectionId pkt = i then length (Data pkt) # up_sizes i es else up_sizes i es)"
| "up_sizes i (FromProxy now pid pkt # es) = up_sizes i es"

fun down_sizes :: "string \<Rightarrow> packet_event list \<Rightarrow> nat list" where
  "down_sizes i [] = []"
| "down_sizes i (FromProxy now pid pkt # es) =
     (if ConnectionId pkt = i then length (Data pkt) # down_sizes i es else down_sizes i es)"
| "down_sizes i (FromClient now order cid pkt # es) = down_sizes i es"

definition route_live :: "registry \<Rightarrow> conn_route \<Rightarrow> bool" where
  "route_live r rt \<longleftrightarrow> rt_ProxyID rt \<in> dom (proxys r) \<and> rt_ClientID rt \<in> dom (clients r)"

definition counted :: "nat list \<Rightarrow> nat list \<Rightarrow> conn_route \<Rightarrow> conn_route \<Rightarrow> bool" where
  "counted up down rt rt' \<longleftrightarrow> same_ends rt rt' \<and>
     rt_PacketsToProxy rt' = rt_PacketsToProxy rt + of_nat (length up) \<and>
     rt_BytesToProxy rt' = rt_BytesToProxy rt + of_nat (sum_list up) \<and>
     rt_PacketsToClient rt' = rt_PacketsToClient rt + of_nat (length down) \<and>
     rt_BytesToClient rt' = rt_BytesToClient rt + of_nat (sum_list down)"

lemma counted_refl: "counted [] [] rt rt"
  by (simp add: counted_def)

lemma counted_trans: "counted u d a b \<Longrightarrow> counted u' d' b c \<Longrightarrow> counted (u @ u') (d @ d') a c"
  by (simp add: counted_def same_ends_def)

lemma counted_deliver:
  "counted [length (Data pkt)] [] rt (deliver_to_proxy now pkt rt)"
  "counted [] [length (Data pkt)] rt (deliver_to_client now pkt rt)"
  by (simp_all add: counted_def deliver_to_proxy_def deliver_to_client_def same_ends_def)

lemma spec_delivered:
  "spec_RouteFromClient now order cid pkt a = (a', x) \<Longrightarrow>
   spec_route now order cid pkt a = Some rt \<Longrightarrow> s_proxys a (rt_ProxyID rt) = Some p \<Longrightarrow>
   s_routes a' (ConnectionId pkt) = Some (deliver_to_proxy now pkt rt)"
  "spec_RouteFromProxy now pkt a = (a', y) \<Longrightarrow>
   s_routes a (ConnectionId pkt) = Some rt \<Longrightarrow> s_clients a (rt_ClientID rt) = Some c \<Longrightarrow>
   s_routes a' (ConnectionId pkt) = Some (deliver_to_client now pkt rt)"
  by (auto simp: spec_RouteFromClient_def spec_RouteFromProxy_def)

lemma route_event_counted:
  assumes ok: "reg_ok r" and rt: "route_of r i = Some rt" and live: "route_live r rt"
  shows "reg_ok (route_event e r) \<and> clients (route_event e r) = clients r \<and>
    proxys (route_event e r) = proxys r \<and>
    (\<exists>rt'. route_of (route_event e r) i = Some rt' \<and>
      counted (up_sizes i [e]) (down_sizes i [e]) rt rt')"
proof (cases e)
  case (FromClient now order cid pkt)
  obtain r' x where r': "RouteFromClient now order cid pkt r = (r', x)" by force
  note sp = RouteFromClient_spec [OF ok r']
  have fr: "clients r' = clients r" "proxys r' = proxys r"
    using spec_client_frame(3,4) [OF sp] by simp_all
  have "reg_ok r'" using RouteFromClient_ok [OF ok, of now order cid pkt] r' by simp
  moreover have "\<exists>rt'. route_of r' i = Some rt' \<and> counted (up_sizes i [e]) (down_sizes i [e]) rt rt'"
  proof (cases "ConnectionId pkt = i")
    case True
    then have "route_of r' i = Some (deliver_to_proxy now pkt rt)"
      using sp rt live spec_existing [of "abs_reg r" pkt rt now order cid] spec_delivered(1) [OF sp]
      by (auto simp: route_live_def)
    then show ?thesis using True by (auto simp: FromClient counted_deliver)
  next
    case False
    then show ?thesis
      using spec_client_frame(1) [OF sp, of i] rt by (simp add: FromClient counted_refl)
  qed
  ultimately show ?thesis using fr r' by (simp add: FromClient)
next
  case (FromProxy now pid pkt)
  obtain r' x where r': "RouteFromProxy now pid pkt r = (r', x)" by force
  note sp = RouteFromProxy_spec [OF ok r']
  have fr: "clients r' = clients r" "proxys r' = proxys r"
    using spec_proxy_frame(3,4) [OF sp] by simp_all
  have "reg_ok r'" using RouteFromProxy_ok [OF ok, of now pid pkt] r' by simp
  moreover have "\<exists>rt'. route_of r' i = Some rt' \<and> counted (up_sizes i [e]) (down_sizes i [e]) rt rt'"
  proof (cases "ConnectionId pkt = i")
    case True
    then have "route_of r' i = Some (deliver_to_client now pkt rt)"
      using rt live spec_delivered(2) [OF sp] by (auto simp: route_live_def)
    then show ?thesis using True by (auto simp: FromProxy counted_deliver)
  next
    case False
    then show ?thesis
      using spec_proxy_frame(1) [OF sp, of i] rt by (simp add: FromProxy counted_refl)
  qed
  ultimately show ?thesis using fr r' by (simp add: FromProxy)
qed

lemma sizes_Cons:
  "up_sizes i (e # es) = up_sizes i [e] @ up_sizes i es"
  "down_sizes i (e # es) = down_sizes i [e] @ down_sizes i es"
  by (cases e; simp)+

lemma route_live_same_ends: "counted u d rt rt' \<Longrightarrow> clients r' = clients r \<Longrightarrow> proxys r' = proxys r \<Longrightarrow>
  route_live r rt \<Longrightarrow> route_live r' rt'"
  by (simp add: route_live_def counted_def same_ends_def)

lemma route_events_counted:
  "reg_ok r \<Longrightarrow> route_of r i = Some rt \<Longrightarrow> route_live r rt \<Longrightarrow>
   \<exists>rt'. route_of (fold route_event es r) i = Some rt' \<and> counted (up_sizes i es) (down_sizes i es) rt rt'"
proof (induction es arbitrary: r rt)
  case Nil
  then show ?case by (auto simp: counted_refl)
next
  case (Cons e es)
  obtain rt1 where e: "reg_ok (route_event e r)" "clients (route_event e r) = clients r"
      "proxys (route_event e r) = proxys r" "route_of (route_event e r) i = Some rt1"
      "counted (up_sizes i [e]) (down_sizes i [e]) rt rt1"
    using route_event_counted [OF Cons.prems] by blast
  obtain rt2 where "route_of (fold route_event es (route_event e r)) i = Some rt2"
      "counted (up_sizes i es) (down_sizes i es) rt1 rt2"
    using Cons.IH [OF e(1,4) route_live_same_ends [OF e(5,2,3) Cons.prems(3)]] by blast
  then show ?case
    using counted_trans [OF e(5)] by (metis fold_simps(2) sizes_Cons)
qed

section \<open>The table of sessions\<close>

text \<open>
  What a stream handler relies on: an identifier that is free can be registered for its
  stream, a taken one is refused without a change, and unregistering frees the identifier.
  \<open>owned D\<close> says that the entries of the table are exactly the identifiers the streams have
  deferred to unregister, \<open>D s\<close> those of stream \<open>s\<close>.
\<close>

locale session_table =
  fixes entry :: "'r \<Rightarrow> string \<Rightarrow> 'c option"
    and stream_of :: "'c \<Rightarrow> nat"
    and reg :: "'a \<Rightarrow> string \<Rightarrow> nat \<Rightarrow> 'r \<Rightarrow> 'r \<times> 'e option"
    and unreg :: "string \<Rightarrow> 'r \<Rightarrow> 'r"
  assumes reg_free: "entry r i = None \<Longrightarrow>
      \<exists>r' c. reg a i s r = (r', None) \<and> stream_of c = s \<and> entry r' = (entry r)(i \<mapsto> c)"
    and reg_taken: "entry r i = Some c \<Longrightarrow> \<exists>e. reg a i s r = (r, Some e)"
    and entry_unreg: "entry (unreg i r) = (entry r)(i := None)"
begin

definition owned :: "'r \<Rightarrow> (nat \<Rightarrow> string list) \<Rightarrow> bool" where
  "owned r D \<longleftrightarrow>
     (\<forall>i c. entry r i = Some c \<longrightarrow> i \<in> set (D (stream_of c))) \<and>
     (\<forall>s i. i \<in> set (D s) \<longrightarrow> (\<exists>c. entry r i = Some c \<and> stream_of c = s)) \<and>
     (\<forall>s. distinct (D s))"

lemma owned_init: "(\<And>i. entry r i = None) \<Longrightarrow> owned r (\<lambda>s. [])"
  by (simp add: owned_def)

lemma owned_cong: "entry r' = entry r \<Longrightarrow> owned r' D = owned r D"
  by (simp add: owned_def)

lemma reg_ok_iff: "snd (reg a i s r) = None \<longleftrightarrow> entry r i = None"
  using reg_free [of r i a s] reg_taken [of r i _ a s] by (cases "entry r i") auto

lemma owned_reg_ok:
  assumes "owned r D" "reg a i s r = (r', None)"
  shows "owned r' (D(s := i # D s))"
proof -
  have free: "entry r i = None" using reg_ok_iff [of a i s r] assms(2) by simp
  then obtain c where c: "stream_of c = s" "entry r' = (entry r)(i \<mapsto> c)"
    using reg_free [of r i a s] assms(2) by auto
  have "i \<notin> set (D t)" for t using assms(1) free unfolding owned_def by (metis option.distinct(1))
  then show ?thesis using assms(1) c free by (auto simp: owned_def) metis
qed

lemma reg_refused_same: "reg a i s r = (r', Some e) \<Longrightarrow> r' = r"
  using reg_free [of r i a s] reg_taken [of r i _ a s] by (cases "entry r i") auto

lemma owned_unreg:
  assumes "owned r D" "D s = i # ds"
  shows "owned (unreg i r) (D(s := ds))"
proof -
  obtain c where c: "entry r i = Some c" "stream_of c = s"
    using assms unfolding owned_def by (metis list.set_intros(1))
  have d: "distinct (i # ds)" using assms by (metis owned_def)
  have one: "t = s" if "i \<in> set (D t)" for t
    using assms(1) c that unfolding owned_def by (metis option.inject)
  show ?thesis
    using assms c d one by (auto simp: owned_def entry_unreg) (metis set_ConsD)+
qed

lemma owned_finished: "owned r D \<Longrightarrow> D s = [] \<Longrightarrow> entry r i = Some c \<Longrightarrow> stream_of c \<noteq> s"
  unfolding owned_def by (metis empty_iff list.set(1))

lemma owned_entry: "owned r D \<Longrightarrow> i \<in> set (D s) \<Longrightarrow> \<exists>c. entry r i = Some c \<and> stream_of c = s"
  by (simp add: owned_def)

end

interpretation client_table: session_table clients cc_Stream RegisterClientStream UnregisterClient
  by unfold_locales
    (auto simp: RegisterClientStream_def UnregisterClient_def Let_def split: option.splits
      intro!: exI conjI [OF _ refl])

interpretation proxy_table: session_table proxys pc_Stream
  "\<lambda>(now, cidr) i s r. RegisterProxyStream now i s cidr r" UnregisterProxy
  by unfold_locales
    (auto simp: RegisterProxyStream_def UnregisterProxy_def Let_def split: option.splits
      intro!: exI conjI [OF _ refl])

fun packet_of :: "packet_event \<Rightarrow> packet" where
  "packet_of (FromClient now order cid pkt) = pkt"
| "packet_of (FromProxy now pid pkt) = pkt"

section \<open>A sample registry\<close>

text \<open>One client \<open>c\<close> on stream 1, two proxies on streams 2 and 3, and packets of one connection.\<close>

definition sample_packet :: packet where
  "sample_packet = \<lparr>ConnectionId = ''x'', Data = [1, 2, 3],
     ConnTuple = Some \<lparr>SrcIp = ''10.9.9.9'', SrcPortN = 4000, DstIp = v4_string [10, 1, 2, 3], DstPortN = 80\<rparr>,
     PktProtocol = Protocol_PROTOCOL_TCP, Direction = Direction_DIRECTION_FORWARD, Timestamp = 7\<rparr>"

definition sample_proxy :: proxy_conn where
  "sample_proxy = \<lparr>pc_ID = ''p'', pc_Stream = 2, pc_RemoteAddr = ''grpc-stream'',
     pc_ManagedCIDR = v4_string [10, 0, 0, 0] @ ''/'' @ dec 8, pc_ConnectedAt = 0\<rparr>"

definition sample_other_proxy :: proxy_conn where
  "sample_other_proxy = \<lparr>pc_ID = ''q'', pc_Stream = 3, pc_RemoteAddr = ''grpc-stream'',
     pc_ManagedCIDR = v4_string [192, 168, 1, 0] @ ''/'' @ dec 24, pc_ConnectedAt = 0\<rparr>"

definition sample_client :: client_conn where
  "sample_client = \<lparr>cc_ID = ''c'', cc_Stream = 1, cc_RemoteAddr = ''grpc-stream'', cc_ConnectedAt = 0\<rparr>"

definition sample_registry :: registry where
  "sample_registry = \<lparr>clients = [''c'' \<mapsto> sample_client],
     proxys = [''p'' \<mapsto> sample_proxy, ''q'' \<mapsto> sample_other_proxy], connections = Map.empty, routes = []\<rparr>"

definition sample_routed :: registry where
  "sample_routed = sample_registry\<lparr>connections := [''x'' \<mapsto> 0],
     routes := [fresh_route 5 ''x'' ''c'' ''p'']\<rparr>"

lemma sample_ok: "reg_ok sample_registry" "reg_ok sample_routed"
  by (auto simp: reg_ok_def sample_registry_def sample_routed_def sample_client_def sample_proxy_def
    sample_other_proxy_def fresh_route_def)

lemma sample_proxys [simp]: "proxys sample_registry = [''p'' \<mapsto> sample_proxy, ''q'' \<mapsto> sample_other_proxy]"
  by (simp add: sample_registry_def)

lemma sample_order: "range_order (proxys sample_registry) [''q'', ''p'']"
  by (auto simp: range_order_def split: if_splits)

lemma sample_serves: "proxy_serves (v4_string [10, 1, 2, 3]) sample_proxy"
  "\<not> proxy_serves (v4_string [10, 1, 2, 3]) sample_other_proxy"
proof -
  have "\<forall>j<8. ip_bit [10, 0, 0, 0] j = ip_bit [10, 1, 2, 3] j"
    by (simp add: ip_bit_def)
  then show "proxy_serves (v4_string [10, 1, 2, 3]) sample_proxy"
    by (subst proxy_serves_v4 [of "[10, 0, 0, 0]" "[10, 1, 2, 3]" 8]) (simp_all add: sample_proxy_def)
  have "ip_bit [192, 168, 1, 0] 0 \<noteq> ip_bit [10, 1, 2, 3] 0"
    by (simp add: ip_bit_def)
  then show "\<not> proxy_serves (v4_string [10, 1, 2, 3]) sample_other_proxy"
    by (subst proxy_serves_v4 [of "[192, 168, 1, 0]" "[10, 1, 2, 3]" 24]) (auto simp: sample_other_proxy_def intro!: exI [of _ 0])
qed

section \<open>Properties\<close>

text \<open>C26: every operation of the registry keeps its tables well formed: entries stay filed under
  their own identifier, every route pointer stays valid and leads to a route of its own
  connection, and a new registry is well formed. This includes the two separate critical
  sections of each routing method, so it holds under any interleaving of them.\<close>

theorem registry_well_formed:
  assumes "reg_ok r"
  shows "reg_ok NewRegistry \<and>
    reg_ok (fst (RegisterClientStream now i s r)) \<and> reg_ok (fst (RegisterProxyStream now i s cidr r)) \<and>
    reg_ok (UnregisterClient i r) \<and> reg_ok (UnregisterProxy i r) \<and>
    reg_ok (fst (RouteFromClient_lookup now order i pkt r)) \<and> reg_ok (RouteFromClient_count ref pkt r) \<and>
    reg_ok (fst (RouteFromProxy_lookup now pkt r)) \<and> reg_ok (RouteFromProxy_count ref pkt r) \<and>
    reg_ok (RemoveConnection i r) \<and> reg_ok (cleanupStaleConnections now order r) \<and>
    reg_ok (Registry_Cleanup r)"
  using assms by (simp only: NewRegistry_ok registry_ops_ok)

theorem registry_well_formed_witness:
  "reg_ok (cleanupStaleConnections 9 [''x''] sample_routed)"
  using registry_well_formed [of sample_routed] by (simp add: sample_ok)

text \<open>C9: the routing methods, which look a route pointer up in one critical section and count
  through it in another, implement a specification without pointers in which each connection
  has a route of its own: same result, and the abstraction of the new registry is the new
  abstract registry, on every branch including the errors.\<close>

theorem routing_refines_spec:
  assumes "reg_ok r"
  shows "map_prod abs_reg (\<lambda>x. x) (RouteFromClient now order cid pkt r) =
      spec_RouteFromClient now order cid pkt (abs_reg r) \<and>
    map_prod abs_reg (\<lambda>x. x) (RouteFromProxy now pid pkt r) =
      spec_RouteFromProxy now pkt (abs_reg r)"
  using assms by (intro conjI RouteFromClient_refines RouteFromProxy_refines)

theorem routing_refines_spec_witness:
  "map_prod abs_reg (\<lambda>x. x) (RouteFromProxy 9 ''p'' sample_packet sample_routed) =
   spec_RouteFromProxy 9 sample_packet (abs_reg sample_routed)"
  using routing_refines_spec [of sample_routed] by (simp add: sample_ok)

text \<open>C23: the search for a proxy, for whatever order the runtime ranges over the map in. It finds
  nothing exactly when no registered proxy has a CIDR that parses and contains the address; a
  proxy it finds is registered and does; and when one proxy alone does, every order finds it.\<close>

theorem find_proxy_by_cidr:
  assumes "range_order (proxys r) order"
  shows "(FindProxyByCIDR order t r = None \<longleftrightarrow> (\<forall>p \<in> ran (proxys r). \<not> proxy_serves t p)) \<and>
    (FindProxyByCIDR order t r = Some p \<longrightarrow> p \<in> ran (proxys r) \<and> proxy_serves t p) \<and>
    (p \<in> ran (proxys r) \<and> proxy_serves t p \<and> (\<forall>q \<in> ran (proxys r). proxy_serves t q \<longrightarrow> q = p) \<longrightarrow>
     FindProxyByCIDR order t r = Some p)"
  unfolding FindProxyByCIDR_eq
proof (intro conjI impI)
  show "findProxyByCIDR order t r = None \<longleftrightarrow> (\<forall>p \<in> ran (proxys r). \<not> proxy_serves t p)"
    by (rule find_proxy_None [OF assms])
next
  assume "findProxyByCIDR order t r = Some p"
  from find_proxy_Some [OF assms this] show "p \<in> ran (proxys r)" "proxy_serves t p" by simp_all
next
  assume p: "p \<in> ran (proxys r) \<and> proxy_serves t p \<and> (\<forall>q \<in> ran (proxys r). proxy_serves t q \<longrightarrow> q = p)"
  then have a: "p \<in> ran (proxys r)" and b: "proxy_serves t p"
    and c: "\<And>q. q \<in> ran (proxys r) \<Longrightarrow> proxy_serves t q \<Longrightarrow> q = p" by simp_all
  show "findProxyByCIDR order t r = Some p"
    by (rule find_proxy_unique [OF assms a b c])
qed

theorem find_proxy_by_cidr_witness:
  "FindProxyByCIDR [''q'', ''p''] (v4_string [10, 1, 2, 3]) sample_registry = Some sample_proxy"
proof -
  have "ran (proxys sample_registry) = {sample_other_proxy, sample_proxy}"
    by (simp add: ran_map_upd)
  then have "sample_proxy \<in> ran (proxys sample_registry) \<and>
      proxy_serves (v4_string [10, 1, 2, 3]) sample_proxy \<and>
      (\<forall>q \<in> ran (proxys sample_registry). proxy_serves (v4_string [10, 1, 2, 3]) q \<longrightarrow> q = sample_proxy)"
    using sample_serves by (simp only: ball_simps insert_iff simp_thms)
  then show ?thesis by (rule find_proxy_by_cidr [OF sample_order, THEN conjunct2, THEN conjunct2, THEN mp])
qed

text \<open>A proxy whose managed CIDR is written \<open>a.b.c.d/n\<close> serves the address written
  \<open>e.f.g.h\<close> exactly when the first n bits of the two agree. The text of both goes through
  the parsers of the standard library.\<close>

theorem proxy_serves_prefix:
  assumes "length net = 4" "length ip = 4" "n \<le> 32"
    and "pc_ManagedCIDR p = v4_string net @ ''/'' @ dec n"
  shows "proxy_serves (v4_string ip) p \<longleftrightarrow> (\<forall>j<n. ip_bit net j = ip_bit ip j)"
  by (rule proxy_serves_v4 [OF assms])

theorem proxy_serves_prefix_witness:
  "proxy_serves (v4_string [10, 7, 7, 7]) sample_proxy"
  by (subst proxy_serves_prefix [of "[10, 0, 0, 0]" "[10, 7, 7, 7]" 8])
    (simp_all add: sample_proxy_def ip_bit_def)

text \<open>The answer to a connection's first packet.\<close>

lemma response_path:
  assumes "reg_ok r" "connections r (ConnectionId pkt) = None" "clients r cid = Some c"
    and "RouteFromClient now order cid pkt r = (r1, Inr (ps, m))"
    and "ConnectionId reply = ConnectionId pkt"
  shows "\<exists>rt p r2. route_of r1 (ConnectionId pkt) = Some rt \<and> rt_ClientID rt = cid \<and>
      proxys r (rt_ProxyID rt) = Some p \<and> ps = pc_Stream p \<and> m = ProxyMessage_Packet pkt \<and>
      RouteFromProxy now' pid reply r1 = (r2, Inr (cc_Stream c, ClientMessage_Packet reply))"
proof -
  note sp = RouteFromClient_spec [OF assms(1,4)]
  have ok1: "reg_ok r1" using RouteFromClient_ok [OF assms(1)] assms(4) by (metis fst_conv)
  obtain rt p where rt: "route_of r1 (ConnectionId pkt) = Some rt" "rt_ClientID rt = cid"
      "proxys r (rt_ProxyID rt) = Some p" "pc_Stream p = ps" "m = ProxyMessage_Packet pkt"
    using spec_client_delivers [OF sp] assms(2) by (auto simp: route_of_def)
  have "s_clients (abs_reg r1) (rt_ClientID rt) = Some c"
    using spec_client_frame(3) [OF sp] assms(3) rt by simp
  then have "snd (spec_RouteFromProxy now' reply (abs_reg r1)) = Inr (cc_Stream c, ClientMessage_Packet reply)"
    using spec_proxy_delivers [of "abs_reg r1" reply rt c now'] rt assms(5) by simp
  then have "snd (RouteFromProxy now' pid reply r1) = Inr (cc_Stream c, ClientMessage_Packet reply)"
    using RouteFromProxy_refines [OF ok1, of now' pid reply]
    by (cases "RouteFromProxy now' pid reply r1") (metis map_prod_simp snd_conv)
  then show ?thesis using rt by (metis prod.collapse)
qed

text \<open>A connection's first packet and the answer to it. When a client's packet opens a route
  and is sent on, it goes to the stream of the proxy the route names, the route is the client's,
  and a packet of the same connection from any proxy is then sent to that client's stream.\<close>

theorem response_returns_to_opener:
  assumes "reg_ok r" "connections r (ConnectionId pkt) = None" "clients r cid = Some c"
    and "RouteFromClient now order cid pkt r = (r1, Inr (ps, m))"
    and "ConnectionId reply = ConnectionId pkt"
  shows "\<exists>rt p r2. route_of r1 (ConnectionId pkt) = Some rt \<and> rt_ClientID rt = cid \<and>
      proxys r (rt_ProxyID rt) = Some p \<and> ps = pc_Stream p \<and> m = ProxyMessage_Packet pkt \<and>
      RouteFromProxy now' pid reply r1 = (r2, Inr (cc_Stream c, ClientMessage_Packet reply))"
  by (rule response_path [OF assms])

lemma sample_find: "findProxyByCIDR [''q'', ''p''] (packet_dest sample_packet) sample_registry = Some sample_proxy"
  using sample_serves by (intro find_proxy_unique sample_order)
    (auto simp: packet_dest_def sample_packet_def ran_def split: if_splits)

theorem response_returns_to_opener_witness:
  "\<exists>r1 r2. fst (RouteFromClient 5 [''q'', ''p''] ''c'' sample_packet sample_registry) = r1 \<and>
     RouteFromProxy 6 ''p'' (sample_packet\<lparr>Data := [9]\<rparr>) r1 =
       (r2, Inr (1, ClientMessage_Packet (sample_packet\<lparr>Data := [9]\<rparr>)))"
proof -
  have none: "connections sample_registry (ConnectionId sample_packet) = None"
    by (simp add: sample_registry_def)
  obtain r1 where r1: "RouteFromClient 5 [''q'', ''p''] ''c'' sample_packet sample_registry =
      (r1, Inr (2, ProxyMessage_Packet sample_packet))"
    by (simp add: RouteFromClient_def lookup_new [OF none sample_find]) (simp add: sample_proxy_def)
  have "clients sample_registry ''c'' = Some sample_client" by (simp add: sample_registry_def)
  then show ?thesis
    using response_returns_to_opener [OF sample_ok(1) none _ r1, of sample_client "sample_packet\<lparr>Data := [9]\<rparr>" 6 "''p''"]
    by (auto simp: r1 sample_client_def)
qed

text \<open>What routing a packet leaves alone. Clients and proxies stay, the route of every other
  connection is untouched, and an existing route keeps its connection, client and proxy, so the
  packets of a connection stick to the proxy its first one chose.\<close>

theorem routing_keeps_routes:
  assumes "reg_ok r"
  shows "clients (route_event e r) = clients r \<and> proxys (route_event e r) = proxys r \<and>
      (i \<noteq> ConnectionId (packet_of e) \<longrightarrow> route_of (route_event e r) i = route_of r i) \<and>
      (route_of r i = Some rt \<longrightarrow> (\<exists>rt'. route_of (route_event e r) i = Some rt' \<and> same_ends rt rt'))"
proof (cases e)
  case (FromClient now order cid pkt)
  obtain r' x where "RouteFromClient now order cid pkt r = (r', x)" by force
  then show ?thesis using spec_client_frame [OF RouteFromClient_spec [OF assms]] FromClient by simp
next
  case (FromProxy now pid pkt)
  obtain r' x where "RouteFromProxy now pid pkt r = (r', x)" by force
  then show ?thesis using spec_proxy_frame [OF RouteFromProxy_spec [OF assms]] FromProxy by simp
qed

theorem routing_keeps_routes_witness:
  "\<exists>rt'. route_of (route_event (FromClient 9 [] ''other'' sample_packet) sample_routed) ''x'' = Some rt' \<and>
     rt_ClientID rt' = ''c''"
proof -
  have "route_of sample_routed ''x'' = Some (fresh_route 5 ''x'' ''c'' ''p'')"
    by (simp add: route_of_def sample_routed_def)
  then show ?thesis
    using routing_keeps_routes [OF sample_ok(2), of "FromClient 9 [] ''other'' sample_packet" "''x''"
      "fresh_route 5 ''x'' ''c'' ''p''"]
    by (auto simp: same_ends_def fresh_route_def)
qed

text \<open>C27: the metrics are exact. After any run of packets, of any connections and in any order,
  the counters of a connection whose client and proxy stay registered have grown by the number
  and the total size of its own packets in each direction, modulo 2^64, and these are the
  values \<open>GetConnectionMetrics\<close> reports.\<close>

theorem counters_exact:
  assumes "reg_ok r" "route_of r i = Some rt" "route_live r rt"
  shows "\<exists>m. GetConnectionMetrics t i (fold route_event es r) = Some m \<and>
    cm_ClientID m = rt_ClientID rt \<and> cm_ProxyID m = rt_ProxyID rt \<and>
    cm_PacketsToProxy m = rt_PacketsToProxy rt + of_nat (length (up_sizes i es)) \<and>
    cm_BytesToProxy m = rt_BytesToProxy rt + of_nat (sum_list (up_sizes i es)) \<and>
    cm_PacketsToClient m = rt_PacketsToClient rt + of_nat (length (down_sizes i es)) \<and>
    cm_BytesToClient m = rt_BytesToClient rt + of_nat (sum_list (down_sizes i es))"
proof -
  obtain rt' where "route_of (fold route_event es r) i = Some rt'"
    and c: "counted (up_sizes i es) (down_sizes i es) rt rt'"
    using route_events_counted [OF assms] by blast
  then have "GetConnectionMetrics t i (fold route_event es r) = Some (route_metrics t rt')"
    by (auto simp: GetConnectionMetrics_def route_of_def)
  then show ?thesis using c by (simp add: counted_def same_ends_def route_metrics_def)
qed

theorem counters_exact_witness:
  "\<exists>m. GetConnectionMetrics 9 ''x''
      (fold route_event [FromClient 6 [] ''c'' sample_packet, FromProxy 7 ''p'' sample_packet,
        FromClient 8 [] ''c'' sample_packet] sample_routed) = Some m \<and>
    cm_PacketsToProxy m = 2 \<and> cm_BytesToProxy m = 6 \<and> cm_BytesToClient m = 3"
proof -
  have "route_of sample_routed ''x'' = Some (fresh_route 5 ''x'' ''c'' ''p'')"
    and "route_live sample_routed (fresh_route 5 ''x'' ''c'' ''p'')"
    by (simp_all add: route_of_def sample_routed_def route_live_def sample_registry_def fresh_route_def dom_def)
  from counters_exact [OF sample_ok(2) this, of 9 "[FromClient 6 [] ''c'' sample_packet,
      FromProxy 7 ''p'' sample_packet, FromClient 8 [] ''c'' sample_packet]"]
  show ?thesis by (auto simp: fresh_route_def sample_packet_def)
qed

text \<open>The cleanup of stale connections, for whatever order the runtime ranges over the map in.
  It removes exactly the connections idle for more than five minutes, and the result is the
  same for every order.\<close>

theorem cleanup_removes_exactly_stale:
  assumes "range_order (connections r) order"
  shows "connections (cleanupStaleConnections now order r) i =
    (case connections r i of
       None \<Rightarrow> None
     | Some ref \<Rightarrow>
         if now - rt_LastActivity (routes r ! ref) > 300000000000 then None else Some ref)"
  unfolding cleanup_connections [OF assms]
  by (simp add: time_sub_gt idleTimeout_def minute_def max_duration_def split: option.split)

theorem cleanup_removes_exactly_stale_witness:
  "connections (cleanupStaleConnections 300000000006 [''x''] sample_routed) ''x'' = None \<and>
   connections (cleanupStaleConnections 300000000005 [''x''] sample_routed) ''x'' = Some 0"
proof -
  have o: "range_order (connections sample_routed) [''x'']"
    by (simp add: range_order_def sample_routed_def)
  show ?thesis
    unfolding cleanup_removes_exactly_stale [OF o] by (simp add: sample_routed_def fresh_route_def)
qed

end
