(* ===== verification/Netfilter.thy ===== *)
theory Netfilter
  imports GoNet
begin

text \<open>
  \<open>pkg/netfilter\<close> and \<open>internal/client/netfilter.go\<close>: the rule that redirects the traffic of the
  tunnelled network to the client's port. The \<open>iptables\<close> program is a parameter \<open>ipt\<close>: it takes the
  arguments of a command and the state of the host, and gives the new state and how the
  command ended.
\<close>

section \<open>Rules\<close>

definition TableFilter :: string where "TableFilter = ''filter''"
definition TableNat :: string where "TableNat = ''nat''"
definition TableMangle :: string where "TableMangle = ''mangle''"
definition TableRaw :: string where "TableRaw = ''raw''"

definition ChainInput :: string where "ChainInput = ''INPUT''"
definition ChainOutput :: string where "ChainOutput = ''OUTPUT''"
definition ChainForward :: string where "ChainForward = ''FORWARD''"
definition ChainPrerouting :: string where "ChainPrerouting = ''PREROUTING''"
definition ChainPostrouting :: string where "ChainPostrouting = ''POSTROUTING''"

definition TargetAccept :: string where "TargetAccept = ''ACCEPT''"
definition TargetDrop :: string where "TargetDrop = ''DROP''"
definition TargetReject :: string where "TargetReject = ''REJECT''"
definition TargetRedirect :: string where "TargetRedirect = ''REDIRECT''"
definition TargetMasquerade :: string where "TargetMasquerade = ''MASQUERADE''"
definition TargetReturn :: string where "TargetReturn = ''RETURN''"

definition NfProtocolTCP :: string where "NfProtocolTCP = ''tcp''"
definition NfProtocolUDP :: string where "NfProtocolUDP = ''udp''"
definition NfProtocolICMP :: string where "NfProtocolICMP = ''icmp''"
definition NfProtocolAll :: string where "NfProtocolAll = ''all''"

lemmas nf_names = TableFilter_def TableNat_def TableMangle_def TableRaw_def ChainInput_def ChainOutput_def
  ChainForward_def ChainPrerouting_def ChainPostrouting_def TargetAccept_def TargetDrop_def TargetReject_def
  TargetRedirect_def TargetMasquerade_def TargetReturn_def NfProtocolTCP_def NfProtocolUDP_def
  NfProtocolICMP_def NfProtocolAll_def

record rule =
  rTable :: string
  rChain :: string
  rProtocol :: string
  rSource :: string
  rDestination :: string
  rSrcPort :: string
  rDstPort :: string
  rTarget :: string
  rToPort :: string
  rComment :: string

text \<open>The arguments: an option and its value where the field is not empty.\<close>

definition opt_arg :: "string list \<Rightarrow> string \<Rightarrow> string list" where
  "opt_arg flags v = (if v \<noteq> '''' then flags @ [v] else [])"

definition Args :: "rule \<Rightarrow> string list" where
  "Args r = [''-t'', rTable r] @ opt_arg [''-p''] (rProtocol r) @ opt_arg [''-s''] (rSource r) @
     opt_arg [''-d''] (rDestination r) @ opt_arg [''--sport''] (rSrcPort r) @ opt_arg [''--dport''] (rDstPort r) @
     opt_arg [''-m'', ''comment'', ''--comment''] (rComment r) @ [''-j'', rTarget r] @
     (if rTarget r = TargetRedirect \<and> rToPort r \<noteq> '''' then [''--to-ports'', rToPort r] else [])"

definition opt_part :: "string \<Rightarrow> string \<Rightarrow> string list" where
  "opt_part name v = (if v \<noteq> '''' then [name @ ''='' @ v] else [])"

definition rule_String :: "rule \<Rightarrow> string" where
  "rule_String r = join '' '' ([''table='' @ rTable r, ''chain='' @ rChain r] @
     opt_part ''proto'' (rProtocol r) @ opt_part ''src'' (rSource r) @ opt_part ''dst'' (rDestination r) @
     opt_part ''sport'' (rSrcPort r) @ opt_part ''dport'' (rDstPort r) @ [''target='' @ rTarget r] @
     opt_part ''toport'' (rToPort r) @
     (if rComment r \<noteq> '''' then [''comment='' @ go_quote (rComment r)] else []))"

section \<open>Validation\<close>

datatype port_error =
    BadRange string
  | NotNumeric string
  | OutOfRange int

datatype cidr_error =
    BadCIDR string
  | NotAnAddress string

datatype rule_error =
    TableRequired
  | ChainRequired
  | TargetRequired
  | RedirectRequiresToPorts
  | PortsRequireProtocol
  | InvalidSrcPort port_error
  | InvalidDstPort port_error
  | InvalidToPort port_error
  | InvalidSource cidr_error
  | InvalidDestination cidr_error

definition validateSinglePort :: "string \<Rightarrow> port_error option" where
  "validateSinglePort port =
     (case atoi port of
        None \<Rightarrow> Some (NotNumeric port)
      | Some p \<Rightarrow> if p < 1 \<or> p > 65535 then Some (OutOfRange p) else None)"

definition validatePort :: "string \<Rightarrow> port_error option" where
  "validatePort port =
     (if port = '''' then None
      else if CHR '':'' \<in> set port then
        let parts = split_byte (CHR '':'') port in
        if length parts \<noteq> 2 then Some (BadRange port)
        else case validateSinglePort (parts ! 0) of
               Some e \<Rightarrow> Some e
             | None \<Rightarrow> validateSinglePort (parts ! 1)
      else validateSinglePort port)"

definition validateCIDR :: "string \<Rightarrow> cidr_error option" where
  "validateCIDR cidr =
     (if CHR ''/'' \<in> set cidr then
        (case parse_cidr cidr of None \<Rightarrow> Some (BadCIDR cidr) | Some n \<Rightarrow> None)
      else if parse_ip cidr = [] then Some (NotAnAddress cidr) else None)"

text \<open>The checks in order: \<open>None\<close> is no error.\<close>

fun first_error :: "'e option list \<Rightarrow> 'e option" where
  "first_error [] = None"
| "first_error (None # es) = first_error es"
| "first_error (Some e # es) = Some e"

definition Validate_rule :: "rule \<Rightarrow> rule_error option" where
  "Validate_rule r =
     (if rTable r = '''' then Some TableRequired
      else if rChain r = '''' then Some ChainRequired
      else if rTarget r = '''' then Some TargetRequired
      else if rTarget r = TargetRedirect \<and> rToPort r = '''' then Some RedirectRequiresToPorts
      else if (rSrcPort r \<noteq> '''' \<or> rDstPort r \<noteq> '''') \<and> rProtocol r = '''' then Some PortsRequireProtocol
      else first_error
        [if rSrcPort r \<noteq> '''' then map_option InvalidSrcPort (validatePort (rSrcPort r)) else None,
         if rDstPort r \<noteq> '''' then map_option InvalidDstPort (validatePort (rDstPort r)) else None,
         if rToPort r \<noteq> '''' then map_option InvalidToPort (validatePort (rToPort r)) else None,
         if rSource r \<noteq> '''' then map_option InvalidSource (validateCIDR (rSource r)) else None,
         if rDestination r \<noteq> '''' then map_option InvalidDestination (validateCIDR (rDestination r)) else None])"

section \<open>The builder\<close>

text \<open>A builder holds a rule; each method sets one field and returns the builder.\<close>

definition NewRule :: rule where
  "NewRule = \<lparr>rTable = '''', rChain = '''', rProtocol = '''', rSource = '''', rDestination = '''',
     rSrcPort = '''', rDstPort = '''', rTarget = '''', rToPort = '''', rComment = ''''\<rparr>"

definition rb_Table :: "string \<Rightarrow> rule \<Rightarrow> rule" where "rb_Table t r = r\<lparr>rTable := t\<rparr>"
definition rb_Chain :: "string \<Rightarrow> rule \<Rightarrow> rule" where "rb_Chain c r = r\<lparr>rChain := c\<rparr>"
definition rb_Protocol :: "string \<Rightarrow> rule \<Rightarrow> rule" where "rb_Protocol p r = r\<lparr>rProtocol := p\<rparr>"
definition rb_Source :: "string \<Rightarrow> rule \<Rightarrow> rule" where "rb_Source cidr r = r\<lparr>rSource := cidr\<rparr>"
definition rb_Destination :: "string \<Rightarrow> rule \<Rightarrow> rule" where "rb_Destination cidr r = r\<lparr>rDestination := cidr\<rparr>"
definition rb_SrcPort :: "string \<Rightarrow> rule \<Rightarrow> rule" where "rb_SrcPort port r = r\<lparr>rSrcPort := port\<rparr>"
definition rb_DstPort :: "string \<Rightarrow> rule \<Rightarrow> rule" where "rb_DstPort port r = r\<lparr>rDstPort := port\<rparr>"
definition rb_Target :: "string \<Rightarrow> rule \<Rightarrow> rule" where "rb_Target t r = r\<lparr>rTarget := t\<rparr>"
definition rb_ToPort :: "string \<Rightarrow> rule \<Rightarrow> rule" where "rb_ToPort port r = r\<lparr>rToPort := port\<rparr>"
definition rb_Comment :: "string \<Rightarrow> rule \<Rightarrow> rule" where "rb_Comment c r = r\<lparr>rComment := c\<rparr>"

definition Build :: "rule \<Rightarrow> rule_error + rule" where
  "Build r = (case Validate_rule r of Some e \<Rightarrow> Inl e | None \<Rightarrow> Inr r)"

definition MustBuild :: "rule \<Rightarrow> (rule_error, rule) outcome" where
  "MustBuild r = (case Build r of Inl e \<Rightarrow> Panic | Inr r \<Rightarrow> Ok r)"

section \<open>The manager\<close>

text \<open>How a command ended: its exit code and output, or it could not be started.\<close>

datatype exec_result = Exited int string | NotStarted

type_synonym 's iptables = "string list \<Rightarrow> 's \<Rightarrow> 's \<times> exec_result"

definition succeeded :: "exec_result \<Rightarrow> bool" where
  "succeeded res = (case res of Exited code _ \<Rightarrow> code = 0 | NotStarted \<Rightarrow> False)"

definition output_of :: "exec_result \<Rightarrow> string" where
  "output_of res = (case res of Exited _ out \<Rightarrow> out | NotStarted \<Rightarrow> '''')"

datatype manager_error =
    InvalidRule rule_error
  | CheckFailed rule exec_result
  | InsertFailed rule exec_result
  | DeleteFailed rule exec_result
  | ListFailed exec_result
  | FlushFailed exec_result
  | UnsupportedSystem

definition command_args :: "string \<Rightarrow> rule \<Rightarrow> string list" where
  "command_args command r = [''-t'', rTable r, command, rChain r] @ drop 2 (Args r)"

definition insertRule :: "'s iptables \<Rightarrow> rule \<Rightarrow> 's \<Rightarrow> 's \<times> manager_error option" where
  "insertRule ipt r s =
     (let (s, res) = ipt (command_args ''-I'' r) s
      in (s, if succeeded res then None else Some (InsertFailed r res)))"

definition deleteRule :: "'s iptables \<Rightarrow> rule \<Rightarrow> 's \<Rightarrow> 's \<times> manager_error option" where
  "deleteRule ipt r s =
     (let (s, res) = ipt (command_args ''-D'' r) s
      in (s, if succeeded res then None
             else if contains_str (output_of res) ''No chain/target/match by that name'' \<or>
                     contains_str (output_of res) ''does a matching rule exist'' then None
             else Some (DeleteFailed r res)))"

definition CheckRule :: "'s iptables \<Rightarrow> rule \<Rightarrow> 's \<Rightarrow> 's \<times> (manager_error + bool)" where
  "CheckRule ipt r s =
     (let (s, res) = ipt (command_args ''-C'' r) s
      in (s, case res of
               Exited code out \<Rightarrow>
                 if code = 0 then Inr True else if code = 1 then Inr False else Inl (CheckFailed r res)
             | NotStarted \<Rightarrow> Inl (CheckFailed r res)))"

definition AddRule :: "rule \<Rightarrow> rule list \<Rightarrow> rule list \<times> manager_error option" where
  "AddRule r rules =
     (case Validate_rule r of Some e \<Rightarrow> (rules, Some (InvalidRule e)) | None \<Rightarrow> (rules @ [r], None))"

fun Apply :: "'s iptables \<Rightarrow> rule list \<Rightarrow> 's \<Rightarrow> 's \<times> manager_error option" where
  "Apply ipt [] s = (s, None)"
| "Apply ipt (r # rules) s =
     (case CheckRule ipt r s of
        (s, Inl e) \<Rightarrow> (s, Some e)
      | (s, Inr True) \<Rightarrow> Apply ipt rules s
      | (s, Inr False) \<Rightarrow>
          (case insertRule ipt r s of
             (s, Some e) \<Rightarrow> (s, Some e)
           | (s, None) \<Rightarrow> Apply ipt rules s))"

text \<open>\<open>Remove\<close> walks the rules from the last to the first.\<close>

fun remove_loop :: "'s iptables \<Rightarrow> rule list \<Rightarrow> 's \<Rightarrow> 's \<times> manager_error option" where
  "remove_loop ipt [] s = (s, None)"
| "remove_loop ipt (r # rules) s =
     (case deleteRule ipt r s of
        (s, Some e) \<Rightarrow> (s, Some e)
      | (s, None) \<Rightarrow> remove_loop ipt rules s)"

definition Remove_rules :: "'s iptables \<Rightarrow> rule list \<Rightarrow> 's \<Rightarrow> 's \<times> manager_error option" where
  "Remove_rules ipt rules s = remove_loop ipt (rev rules) s"

definition ListRules :: "'s iptables \<Rightarrow> string \<Rightarrow> string \<Rightarrow> 's \<Rightarrow> 's \<times> (manager_error + string)" where
  "ListRules ipt table chain s =
     (let (s, res) = ipt [''-t'', table, ''-L'', chain, ''-n'', ''-v'', ''--line-numbers''] s
      in (s, if succeeded res then Inr (output_of res) else Inl (ListFailed res)))"

definition FlushChain :: "'s iptables \<Rightarrow> string \<Rightarrow> string \<Rightarrow> 's \<Rightarrow> 's \<times> manager_error option" where
  "FlushChain ipt table chain s =
     (let (s, res) = ipt [''-t'', table, ''-F'', chain] s
      in (s, if succeeded res then None else Some (FlushFailed res)))"

text \<open>On other systems every command is an error.\<close>

definition Apply_stub :: "rule list \<Rightarrow> manager_error option" where
  "Apply_stub rules = Some UnsupportedSystem"

definition Remove_stub :: "rule list \<Rightarrow> manager_error option" where
  "Remove_stub rules = Some UnsupportedSystem"

definition CheckRule_stub :: "rule \<Rightarrow> manager_error + bool" where
  "CheckRule_stub r = Inl UnsupportedSystem"

definition ListRules_stub :: "string \<Rightarrow> string \<Rightarrow> manager_error + string" where
  "ListRules_stub table chain = Inl UnsupportedSystem"

definition FlushChain_stub :: "string \<Rightarrow> string \<Rightarrow> manager_error option" where
  "FlushChain_stub table chain = Some UnsupportedSystem"

section \<open>The client's redirection\<close>

record nf_manager =
  nf_rules :: "rule list"
  nf_targetCIDR :: string
  nf_localPort :: string
  nf_active :: bool

definition NewNetfilterManager :: "string \<Rightarrow> int \<Rightarrow> nf_manager" where
  "NewNetfilterManager targetCIDR listenPort =
     \<lparr>nf_rules = [], nf_targetCIDR = targetCIDR, nf_localPort = fmt_d listenPort, nf_active = False\<rparr>"

definition redirect_rule :: "nf_manager \<Rightarrow> rule" where
  "redirect_rule nf =
     rb_Comment ''network-tunneler TCP redirect'' (rb_ToPort (nf_localPort nf) (rb_Target TargetRedirect
       (rb_Destination (nf_targetCIDR nf) (rb_Protocol NfProtocolTCP (rb_Chain ChainOutput
         (rb_Table TableNat NewRule))))))"

text \<open>The result of \<open>Setup\<close>: the manager, the state of the host and how the call ended.\<close>

definition Setup :: "'s iptables \<Rightarrow> nf_manager \<Rightarrow> 's \<Rightarrow> nf_manager \<times> 's \<times> (manager_error, unit) outcome" where
  "Setup ipt nf s =
     (if nf_active nf then (nf, s, Ok ())
      else case MustBuild (redirect_rule nf) of
             Ok r \<Rightarrow>
               (case AddRule r (nf_rules nf) of
                  (rules, Some e) \<Rightarrow> (nf\<lparr>nf_rules := rules\<rparr>, s, Err e)
                | (rules, None) \<Rightarrow>
                    let nf = nf\<lparr>nf_rules := rules\<rparr> in
                    (case Apply ipt rules s of
                       (s, Some e) \<Rightarrow> (nf, s, Err e)
                     | (s, None) \<Rightarrow> (nf\<lparr>nf_active := True\<rparr>, s, Ok ())))
           | _ \<Rightarrow> (nf, s, Panic))"

definition Nf_Cleanup :: "'s iptables \<Rightarrow> nf_manager \<Rightarrow> 's \<Rightarrow> nf_manager \<times> 's \<times> manager_error option" where
  "Nf_Cleanup ipt nf s =
     (if \<not> nf_active nf then (nf, s, None)
      else case Remove_rules ipt (nf_rules nf) s of
             (s, Some e) \<Rightarrow> (nf, s, Some e)
           | (s, None) \<Rightarrow> (nf\<lparr>nf_active := False\<rparr>, s, None))"

definition IsActive :: "nf_manager \<Rightarrow> bool" where
  "IsActive nf = nf_active nf"

section \<open>Reading the arguments back\<close>

text \<open>Reads one optional option: its flags and the value that follows.\<close>

definition take_opt :: "string list \<Rightarrow> string list \<Rightarrow> string \<times> string list" where
  "take_opt flags args =
     (if take (length flags) args = flags \<and> length flags < length args
      then (args ! length flags, drop (length flags + 1) args) else ('''', args))"

definition rule_of_args :: "string \<Rightarrow> string list \<Rightarrow> rule" where
  "rule_of_args chain args =
     (let (t, args) = take_opt [''-t''] args; (p, args) = take_opt [''-p''] args;
          (s, args) = take_opt [''-s''] args; (d, args) = take_opt [''-d''] args;
          (sp, args) = take_opt [''--sport''] args; (dp, args) = take_opt [''--dport''] args;
          (c, args) = take_opt [''-m'', ''comment'', ''--comment''] args;
          (j, args) = take_opt [''-j''] args; (tp, args) = take_opt [''--to-ports''] args
      in \<lparr>rTable = t, rChain = chain, rProtocol = p, rSource = s, rDestination = d, rSrcPort = sp,
          rDstPort = dp, rTarget = j, rToPort = tp, rComment = c\<rparr>)"

lemma take_opt_some: "v \<noteq> '''' \<Longrightarrow> take_opt flags (flags @ v # rest) = (v, rest)"
  by (simp add: take_opt_def)

lemma take_opt_arg:
  assumes "flags \<noteq> []" "rest = [] \<or> hd rest \<noteq> hd flags"
  shows "take_opt flags (opt_arg flags v @ rest) = (v, rest)"
proof (cases "v = ''''")
  case True
  have "take (length flags) rest \<noteq> flags"
    using assms by (cases rest; cases flags) auto
  then show ?thesis using True by (simp add: opt_arg_def take_opt_def)
next
  case False
  then show ?thesis using take_opt_some [OF False, of flags rest] by (simp add: opt_arg_def)
qed

text \<open>Nothing of a rule is lost in the arguments of the command. Reading the arguments back, each
  option only where it stands, gives every field of the rule, whatever strings the fields hold;
  only the port of a rule that does not redirect is not passed on.\<close>

theorem rule_args_roundtrip:
  "rTable r \<noteq> '''' \<Longrightarrow> rTarget r \<noteq> '''' \<Longrightarrow>
   rule_of_args (rChain r) (Args r) = r\<lparr>rToPort := if rTarget r = TargetRedirect then rToPort r else ''''\<rparr>"
proof -
  assume a: "rTable r \<noteq> ''''" "rTarget r \<noteq> ''''"
  let ?tp = "if rTarget r = TargetRedirect \<and> rToPort r \<noteq> '''' then [''--to-ports'', rToPort r] else []"
  let ?j = "''-j'' # rTarget r # ?tp"
  let ?c = "opt_arg [''-m'', ''comment'', ''--comment''] (rComment r) @ ?j"
  let ?dp = "opt_arg [''--dport''] (rDstPort r) @ ?c"
  let ?sp = "opt_arg [''--sport''] (rSrcPort r) @ ?dp"
  let ?d = "opt_arg [''-d''] (rDestination r) @ ?sp"
  let ?s = "opt_arg [''-s''] (rSource r) @ ?d"
  let ?p = "opt_arg [''-p''] (rProtocol r) @ ?s"
  have "take_opt [''-t''] (''-t'' # rTable r # ?p) = (rTable r, ?p)"
    using take_opt_some [OF a(1), of "[''-t'']"] by simp
  moreover have "take_opt [''-p''] ?p = (rProtocol r, ?s)" "take_opt [''-s''] ?s = (rSource r, ?d)"
    "take_opt [''-d''] ?d = (rDestination r, ?sp)" "take_opt [''--sport''] ?sp = (rSrcPort r, ?dp)"
    "take_opt [''--dport''] ?dp = (rDstPort r, ?c)"
    "take_opt [''-m'', ''comment'', ''--comment''] ?c = (rComment r, ?j)"
    by (rule take_opt_arg; simp add: opt_arg_def)+
  moreover have "take_opt [''-j''] ?j = (rTarget r, ?tp)"
    using take_opt_some [OF a(2), of "[''-j'']"] by simp
  moreover have "take_opt [''--to-ports''] ?tp = (if rTarget r = TargetRedirect then rToPort r else '''', [])"
    by (simp add: take_opt_def)
  moreover have "Args r = ''-t'' # rTable r # ?p" by (simp add: Args_def)
  ultimately show ?thesis by (simp add: rule_of_args_def)
qed

definition sample_rule :: rule where
  "sample_rule = redirect_rule (NewNetfilterManager ''100.64.0.0/10'' 9999)"

theorem rule_args_roundtrip_witness:
  "rule_of_args (rChain sample_rule) (Args sample_rule) = sample_rule"
  using rule_args_roundtrip [of sample_rule]
  by (simp add: sample_rule_def redirect_rule_def rb_Comment_def rb_ToPort_def rb_Target_def rb_Destination_def
    rb_Protocol_def rb_Chain_def rb_Table_def NewRule_def nf_names)

section \<open>What validation accepts\<close>

lemma validateSinglePort_ok:
  "validateSinglePort p = None \<longleftrightarrow> (\<exists>n. atoi p = Some n \<and> 1 \<le> n \<and> n \<le> 65535)"
  by (auto simp: validateSinglePort_def split: option.split)

lemma validateSinglePort_dec: "n < 2 ^ 63 \<Longrightarrow> validateSinglePort (dec n) = None \<longleftrightarrow> 1 \<le> n \<and> n \<le> 65535"
  by (auto simp: validateSinglePort_ok atoi_dec)

lemma split_two:
  assumes "length (split_byte c s) = 2"
  obtains a b where "s = a @ c # b" "c \<notin> set a" "c \<notin> set b" "split_byte c s = [a, b]"
proof -
  have "length (filter (\<lambda>x. x = c) s) = 1" using assms by (simp add: length_split_byte)
  then have "filter (\<lambda>x. x = c) s \<noteq> []" by auto
  then have "c \<in> set s" by (auto simp: filter_empty_conv)
  then obtain a b where s: "s = a @ c # b" "c \<notin> set a" by (meson split_list_first)
  then have "c \<notin> set b" using \<open>length (filter (\<lambda>x. x = c) s) = 1\<close> by (auto simp: filter_empty_conv)
  with s that show thesis by (simp add: split_byte_append split_byte_none)
qed

lemma validatePort_ok:
  "validatePort p = None \<longleftrightarrow> p = '''' \<or> (CHR '':'' \<notin> set p \<and> validateSinglePort p = None) \<or>
     (\<exists>a b. p = a @ CHR '':'' # b \<and> CHR '':'' \<notin> set a \<and> CHR '':'' \<notin> set b \<and>
       validateSinglePort a = None \<and> validateSinglePort b = None)"
proof (cases "CHR '':'' \<in> set p")
  case False
  then show ?thesis by (auto simp: validatePort_def)
next
  case True
  then have p: "p \<noteq> ''''" by auto
  show ?thesis
  proof (cases "length (split_byte (CHR '':'') p) = 2")
    case False
    have "\<not> (\<exists>a b. p = a @ CHR '':'' # b \<and> CHR '':'' \<notin> set a \<and> CHR '':'' \<notin> set b)"
    proof
      assume "\<exists>a b. p = a @ CHR '':'' # b \<and> CHR '':'' \<notin> set a \<and> CHR '':'' \<notin> set b"
      then obtain a b where "p = a @ CHR '':'' # b" "CHR '':'' \<notin> set a" "CHR '':'' \<notin> set b" by blast
      with False show False by (simp add: split_byte_append split_byte_none)
    qed
    then show ?thesis using True False p by (auto simp: validatePort_def)
  next
    case two: True
    then obtain a b where ab: "p = a @ CHR '':'' # b" "CHR '':'' \<notin> set a" "CHR '':'' \<notin> set b"
      "split_byte (CHR '':'') p = [a, b]" by (rule split_two)
    have "a' = a \<and> b' = b" if "p = a' @ CHR '':'' # b'" "CHR '':'' \<notin> set a'" "CHR '':'' \<notin> set b'" for a' b'
      using that ab(4) by (simp add: split_byte_append split_byte_none)
    then show ?thesis
      using ab True p by (auto simp: validatePort_def split: option.split)
  qed
qed

lemma first_error_None: "first_error es = None \<longleftrightarrow> (\<forall>e \<in> set es. e = None)"
  by (induction es rule: first_error.induct) simp_all

text \<open>C28: When a rule is valid. The table, the chain and the target are given, a redirection has a
  port, ports come with a protocol; every port is a number from 1 to 65535 or two of them with a
  colon between; every address is an IP address, or a network when it has a slash.\<close>

theorem rule_validation:
  "Validate_rule r = None \<longleftrightarrow>
     rTable r \<noteq> '''' \<and> rChain r \<noteq> '''' \<and> rTarget r \<noteq> '''' \<and>
     \<not> (rTarget r = TargetRedirect \<and> rToPort r = '''') \<and>
     \<not> ((rSrcPort r \<noteq> '''' \<or> rDstPort r \<noteq> '''') \<and> rProtocol r = '''') \<and>
     list_all (\<lambda>p. p = '''' \<or> (CHR '':'' \<notin> set p \<and> (\<exists>n. atoi p = Some n \<and> 1 \<le> n \<and> n \<le> 65535)) \<or>
         (\<exists>a b m n. p = a @ CHR '':'' # b \<and> CHR '':'' \<notin> set a \<and> CHR '':'' \<notin> set b \<and>
           atoi a = Some m \<and> 1 \<le> m \<and> m \<le> 65535 \<and> atoi b = Some n \<and> 1 \<le> n \<and> n \<le> 65535))
       [rSrcPort r, rDstPort r, rToPort r] \<and>
     list_all (\<lambda>a. a = '''' \<or> (if CHR ''/'' \<in> set a then parse_cidr a \<noteq> None else parse_ip a \<noteq> []))
       [rSource r, rDestination r]"
proof -
  have port: "(p = '''' \<or> (CHR '':'' \<notin> set p \<and> (\<exists>n. atoi p = Some n \<and> 1 \<le> n \<and> n \<le> 65535)) \<or>
         (\<exists>a b m n. p = a @ CHR '':'' # b \<and> CHR '':'' \<notin> set a \<and> CHR '':'' \<notin> set b \<and>
           atoi a = Some m \<and> 1 \<le> m \<and> m \<le> 65535 \<and> atoi b = Some n \<and> 1 \<le> n \<and> n \<le> 65535)) =
      (validatePort p = None)" for p
    unfolding validatePort_ok validateSinglePort_ok by blast
  have cidr: "(a = '''' \<or> (if CHR ''/'' \<in> set a then parse_cidr a \<noteq> None else parse_ip a \<noteq> [])) =
      (a \<noteq> '''' \<longrightarrow> validateCIDR a = None)" for a
    by (auto simp: validateCIDR_def split: option.split)
  show ?thesis
    unfolding port cidr by (auto simp: Validate_rule_def first_error_None validatePort_def)
qed

definition accept_rule :: rule where
  "accept_rule = \<lparr>rTable = TableFilter, rChain = ChainInput, rProtocol = '''', rSource = '''', rDestination = '''',
     rSrcPort = '''', rDstPort = '''', rTarget = TargetAccept, rToPort = '''', rComment = ''''\<rparr>"

theorem rule_validation_witness:
  "Validate_rule accept_rule = None \<and> Validate_rule (accept_rule\<lparr>rTarget := TargetRedirect\<rparr>) \<noteq> None"
  unfolding rule_validation by (simp add: accept_rule_def nf_names)

section \<open>What iptables does\<close>

text \<open>
  The documented behaviour the manager relies on, as a hypothesis. \<open>view\<close> is the list of the rules
  of a table's chain, each the list of its arguments, and \<open>accepts\<close> says which rules the host
  takes. Checking finds a rule or ends with code 1, inserting puts it in front, deleting removes
  its first occurrence or ends with code 1 and a message.
\<close>

definition iptables_behaves ::
  "'s iptables \<Rightarrow> ('s \<Rightarrow> string \<Rightarrow> string \<Rightarrow> string list list) \<Rightarrow> (string \<Rightarrow> string \<Rightarrow> string list \<Rightarrow> bool) \<Rightarrow> bool" where
  "iptables_behaves ipt view accepts \<longleftrightarrow>
     (\<forall>t c args s. accepts t c args \<longrightarrow>
        (\<exists>out. ipt ([''-t'', t, ''-C'', c] @ args) s = (s, Exited (if args \<in> set (view s t c) then 0 else 1) out)) \<and>
        (\<exists>s' out. ipt ([''-t'', t, ''-I'', c] @ args) s = (s', Exited 0 out) \<and>
           view s' = (view s)(t := (view s t)(c := args # view s t c))) \<and>
        (\<exists>s' out. ipt ([''-t'', t, ''-D'', c] @ args) s = (s', Exited (if args \<in> set (view s t c) then 0 else 1) out) \<and>
           view s' = (view s)(t := (view s t)(c := remove1 args (view s t c))) \<and>
           (args \<notin> set (view s t c) \<longrightarrow> contains_str out ''does a matching rule exist'')))"

definition accepted :: "(string \<Rightarrow> string \<Rightarrow> string list \<Rightarrow> bool) \<Rightarrow> rule \<Rightarrow> bool" where
  "accepted accepts r = accepts (rTable r) (rChain r) (drop 2 (Args r))"

definition installed :: "('s \<Rightarrow> string \<Rightarrow> string \<Rightarrow> string list list) \<Rightarrow> 's \<Rightarrow> rule \<Rightarrow> bool" where
  "installed view s r \<longleftrightarrow> drop 2 (Args r) \<in> set (view s (rTable r) (rChain r))"

lemma CheckRule_behaves:
  assumes "iptables_behaves ipt view accepts" "accepted accepts r"
  shows "CheckRule ipt r s = (s, Inr (installed view s r))"
proof -
  obtain out where "ipt (command_args ''-C'' r) s =
      (s, Exited (if drop 2 (Args r) \<in> set (view s (rTable r) (rChain r)) then 0 else 1) out)"
    using assms unfolding iptables_behaves_def accepted_def command_args_def by blast
  then show ?thesis by (simp add: CheckRule_def installed_def)
qed

definition push_rule :: "rule \<Rightarrow> (string \<Rightarrow> string \<Rightarrow> string list list) \<Rightarrow> string \<Rightarrow> string \<Rightarrow> string list list" where
  "push_rule r v = v(rTable r := (v (rTable r))(rChain r := drop 2 (Args r) # v (rTable r) (rChain r)))"

definition pop_rule :: "rule \<Rightarrow> (string \<Rightarrow> string \<Rightarrow> string list list) \<Rightarrow> string \<Rightarrow> string \<Rightarrow> string list list" where
  "pop_rule r v = v(rTable r := (v (rTable r))(rChain r := remove1 (drop 2 (Args r)) (v (rTable r) (rChain r))))"

lemma pop_push [simp]: "pop_rule r (push_rule r v) = v"
  by (simp add: pop_rule_def push_rule_def)

lemma insertRule_behaves:
  assumes "iptables_behaves ipt view accepts" "accepted accepts r"
  obtains s' where "insertRule ipt r s = (s', None)" "view s' = push_rule r (view s)"
proof -
  obtain s' out where "ipt (command_args ''-I'' r) s = (s', Exited 0 out)" "view s' = push_rule r (view s)"
    using assms unfolding iptables_behaves_def accepted_def command_args_def push_rule_def by blast
  with that show thesis by (simp add: insertRule_def succeeded_def)
qed

lemma deleteRule_behaves:
  assumes "iptables_behaves ipt view accepts" "accepted accepts r"
  obtains s' where "deleteRule ipt r s = (s', None)" "view s' = pop_rule r (view s)"
proof -
  obtain s' out where d: "ipt (command_args ''-D'' r) s =
      (s', Exited (if drop 2 (Args r) \<in> set (view s (rTable r) (rChain r)) then 0 else 1) out)"
    "view s' = pop_rule r (view s)"
    "drop 2 (Args r) \<notin> set (view s (rTable r) (rChain r)) \<longrightarrow> contains_str out ''does a matching rule exist''"
    using assms unfolding iptables_behaves_def accepted_def command_args_def pop_rule_def by metis
  then have "deleteRule ipt r s = (s', None)"
    by (cases "drop 2 (Args r) \<in> set (view s (rTable r) (rChain r))")
      (simp_all add: deleteRule_def succeeded_def output_of_def)
  with d(2) that show thesis by blast
qed

lemma installed_push: "installed view s r' \<Longrightarrow> view s' = push_rule r (view s) \<Longrightarrow> installed view s' r'"
  by (auto simp: installed_def push_rule_def)

lemma installed_push_same: "view s' = push_rule r (view s) \<Longrightarrow> installed view s' r"
  by (simp add: installed_def push_rule_def)

text \<open>Applying the rules: the rules that were missing are in front, in reverse order.\<close>

lemma Apply_behaves:
  assumes beh: "iptables_behaves ipt view accepts" and acc: "\<forall>r \<in> set rules. accepted accepts r"
  shows "\<exists>s' new. Apply ipt rules s = (s', None) \<and> view s' = fold push_rule new (view s) \<and>
    set new \<subseteq> set rules \<and> (\<forall>r \<in> set new. \<not> installed view s r) \<and> (\<forall>r \<in> set rules. installed view s' r) \<and>
    (\<forall>r. installed view s r \<longrightarrow> installed view s' r)"
  using acc
proof (induction rules arbitrary: s)
  case (Cons r rules)
  have r: "accepted accepts r" and rs: "\<forall>r \<in> set rules. accepted accepts r" using Cons.prems by auto
  note check = CheckRule_behaves [OF beh r, of s]
  show ?case
  proof (cases "installed view s r")
    case True
    obtain s' new where "Apply ipt rules s = (s', None)" "view s' = fold push_rule new (view s)"
      "set new \<subseteq> set rules" "\<forall>r \<in> set new. \<not> installed view s r" "\<forall>r \<in> set rules. installed view s' r"
      "\<forall>r. installed view s r \<longrightarrow> installed view s' r"
      using Cons.IH [OF rs] by metis
    then show ?thesis using True check by (intro exI [of _ s'] exI [of _ new]) auto
  next
    case False
    obtain s1 where s1: "insertRule ipt r s = (s1, None)" "view s1 = push_rule r (view s)"
      by (rule insertRule_behaves [OF beh r])
    obtain s' new where new: "Apply ipt rules s1 = (s', None)" "view s' = fold push_rule new (view s1)"
      "set new \<subseteq> set rules" "\<forall>r \<in> set new. \<not> installed view s1 r" "\<forall>r \<in> set rules. installed view s' r"
      "\<forall>r. installed view s1 r \<longrightarrow> installed view s' r"
      using Cons.IH [OF rs] by metis
    have "\<forall>r' \<in> set new. \<not> installed view s r'" using new(4) installed_push [OF _ s1(2)] by blast
    moreover have "installed view s' r" using new(6) installed_push_same [of view s1 r s] s1(2) by simp
    moreover have "\<forall>r'. installed view s r' \<longrightarrow> installed view s' r'" using new(6) installed_push [OF _ s1(2)] by blast
    ultimately show ?thesis
      using False check s1 new by (intro exI [of _ s'] exI [of _ "r # new"]) auto
  qed
qed (simp add: exI [of _ "[]"])

lemma Apply_installed:
  assumes beh: "iptables_behaves ipt view accepts"
  shows "\<forall>r \<in> set rules. accepted accepts r \<and> installed view s r \<Longrightarrow> Apply ipt rules s = (s, None)"
  by (induction rules) (simp_all add: CheckRule_behaves [OF beh])

section \<open>Setting up and cleaning up\<close>

lemmas builder_defs = rb_Comment_def rb_ToPort_def rb_Target_def rb_Destination_def rb_Source_def rb_SrcPort_def
  rb_DstPort_def rb_Protocol_def rb_Chain_def rb_Table_def NewRule_def

lemma redirect_rule_eq: "redirect_rule nf = \<lparr>rTable = ''nat'', rChain = ''OUTPUT'', rProtocol = ''tcp'', rSource = '''',
    rDestination = nf_targetCIDR nf, rSrcPort = '''', rDstPort = '''', rTarget = ''REDIRECT'', rToPort = nf_localPort nf,
    rComment = ''network-tunneler TCP redirect''\<rparr>"
  by (simp add: redirect_rule_def builder_defs nf_names)

lemma fmt_d_digits: "fmt_d i \<noteq> ''''" "CHR '':'' \<notin> set (fmt_d i)"
  using dec_no_sep by (simp_all add: fmt_d_def)

lemma atoi_fmt_d: "- (2 ^ 63) \<le> i \<Longrightarrow> i < 2 ^ 63 \<Longrightarrow> atoi (fmt_d i) = Some i"
proof (cases "i < 0")
  case True
  assume "- (2 ^ 63) \<le> i"
  then show ?thesis using True by (simp add: fmt_d_def atoi_def)
next
  case False
  assume "i < 2 ^ 63"
  then show ?thesis using False atoi_dec [of "nat i"] by (simp add: fmt_d_def nat_less_iff)
qed

lemma redirect_rule_valid:
  assumes "- (2 ^ 63) \<le> port" "port < 2 ^ 63"
  shows "Validate_rule (redirect_rule (NewNetfilterManager cidr port)) = None \<longleftrightarrow>
    1 \<le> port \<and> port \<le> 65535 \<and> (cidr = '''' \<or> validateCIDR cidr = None)"
  using fmt_d_digits [of port]
  by (auto simp: Validate_rule_def redirect_rule_eq NewNetfilterManager_def nf_names first_error_None validatePort_def
    validateSinglePort_ok atoi_fmt_d [OF assms] split: if_splits)

text \<open>Applying the rules. On a host where iptables works as documented and accepts the rules,
  \<open>Apply\<close> succeeds, every rule is then installed, only rules that were missing were put in front
  of their chains, nothing that was installed is lost, and applying again changes nothing.\<close>

theorem apply_installs_missing:
  assumes "iptables_behaves ipt view accepts" "\<forall>r \<in> set rules. accepted accepts r"
  shows "\<exists>s' new. Apply ipt rules s = (s', None) \<and> view s' = fold push_rule new (view s) \<and>
    set new \<subseteq> set rules \<and> (\<forall>r \<in> set new. \<not> installed view s r) \<and> (\<forall>r \<in> set rules. installed view s' r) \<and>
    Apply ipt rules s' = (s', None)"
proof -
  obtain s' new where new: "Apply ipt rules s = (s', None)" "view s' = fold push_rule new (view s)"
    "set new \<subseteq> set rules" "\<forall>r \<in> set new. \<not> installed view s r" "\<forall>r \<in> set rules. installed view s' r"
    using Apply_behaves [OF assms] by metis
  have "Apply ipt rules s' = (s', None)"
    using new(5) assms(2) by (intro Apply_installed [OF assms(1)]) blast
  with new show ?thesis by blast
qed

text \<open>A host with one list of rules per chain that does what is documented.\<close>

definition host_ipt :: "(string \<Rightarrow> string \<Rightarrow> string list list) iptables" where
  "host_ipt cmd v = (let t = cmd ! 1; c = cmd ! 3; args = drop 4 cmd; there = (args \<in> set (v t c)) in
     if cmd ! 2 = ''-C'' then (v, Exited (if there then 0 else 1) '''')
     else if cmd ! 2 = ''-I'' then (v(t := (v t)(c := args # v t c)), Exited 0 '''')
     else (v(t := (v t)(c := remove1 args (v t c))), Exited (if there then 0 else 1) ''does a matching rule exist''))"

lemma host_ipt_behaves: "iptables_behaves host_ipt id (\<lambda>t c args. True)"
  by (simp add: iptables_behaves_def host_ipt_def Let_def has_prefix_def)

theorem apply_installs_missing_witness:
  "\<exists>s'. Apply host_ipt [sample_rule] (\<lambda>t c. []) = (s', None) \<and> installed id s' sample_rule"
  using apply_installs_missing [OF host_ipt_behaves, of "[sample_rule]" "\<lambda>t c. []"]
  by (auto simp: accepted_def)

lemma Setup_valid:
  assumes beh: "iptables_behaves ipt view accepts"
    and acc: "accepted accepts (redirect_rule nf)" and val: "Validate_rule (redirect_rule nf) = None"
    and nf: "nf_rules nf = []" "\<not> nf_active nf"
  shows "\<exists>s'. Setup ipt nf s = (nf\<lparr>nf_rules := [redirect_rule nf], nf_active := True\<rparr>, s', Ok ()) \<and>
    view s' = (if installed view s (redirect_rule nf) then view s else push_rule (redirect_rule nf) (view s))"
proof -
  note check = CheckRule_behaves [OF beh acc, of s]
  show ?thesis
  proof (cases "installed view s (redirect_rule nf)")
    case True
    then show ?thesis using check nf val by (simp add: Setup_def MustBuild_def Build_def AddRule_def Let_def)
  next
    case False
    obtain s' where "insertRule ipt (redirect_rule nf) s = (s', None)" "view s' = push_rule (redirect_rule nf) (view s)"
      by (rule insertRule_behaves [OF beh acc])
    then show ?thesis
      using False check nf val by (simp add: Setup_def MustBuild_def Build_def AddRule_def Let_def)
  qed
qed

lemma Cleanup_one:
  assumes beh: "iptables_behaves ipt view accepts" and acc: "accepted accepts r"
    and nf: "nf_rules nf = [r]" "nf_active nf"
  shows "\<exists>s'. Nf_Cleanup ipt nf s = (nf\<lparr>nf_active := False\<rparr>, s', None) \<and> view s' = pop_rule r (view s)"
proof -
  obtain s' where "deleteRule ipt r s = (s', None)" "view s' = pop_rule r (view s)"
    by (rule deleteRule_behaves [OF beh acc])
  then show ?thesis using nf by (simp add: Nf_Cleanup_def Remove_rules_def)
qed

text \<open>C22: Setting up and cleaning up the redirection. On a host where iptables works as documented,
  \<open>Setup\<close> of a valid configuration succeeds and activates the manager with the one rule. When no equal
  rule is installed before, the chains are those from before with this rule once, in front of its
  chain, and nothing else; after \<open>Cleanup\<close>, which deactivates the manager, they are as they were. When an
  equal rule was there before, \<open>Setup\<close> changes nothing, and \<open>Cleanup\<close> deletes the rule the client did
  not install.\<close>

theorem setup_then_cleanup:
  assumes "iptables_behaves ipt view accepts" "- (2 ^ 63) \<le> port" "port < 2 ^ 63"
    and "nf = NewNetfilterManager cidr port" "accepted accepts (redirect_rule nf)"
    and "1 \<le> port" "port \<le> 65535" "validateCIDR cidr = None"
  shows "\<exists>nf1 s1 nf2 s2. Setup ipt nf s = (nf1, s1, Ok ()) \<and> IsActive nf1 \<and> installed view s1 (redirect_rule nf) \<and>
    nf_rules nf1 = [redirect_rule nf] \<and>
    view s1 = (if installed view s (redirect_rule nf) then view s else push_rule (redirect_rule nf) (view s)) \<and>
    Nf_Cleanup ipt nf1 s1 = (nf2, s2, None) \<and> \<not> IsActive nf2 \<and>
    view s2 = (if installed view s (redirect_rule nf) then pop_rule (redirect_rule nf) (view s) else view s)"
proof -
  have val: "Validate_rule (redirect_rule nf) = None"
    using redirect_rule_valid [OF assms(2,3), of cidr] assms(4,6-8) by simp
  have nf: "nf_rules nf = []" "\<not> nf_active nf" by (simp_all add: assms(4) NewNetfilterManager_def)
  obtain s1 where s1: "Setup ipt nf s = (nf\<lparr>nf_rules := [redirect_rule nf], nf_active := True\<rparr>, s1, Ok ())"
    "view s1 = (if installed view s (redirect_rule nf) then view s else push_rule (redirect_rule nf) (view s))"
    using Setup_valid [OF assms(1,5) val nf] by blast
  let ?nf1 = "nf\<lparr>nf_rules := [redirect_rule nf], nf_active := True\<rparr>"
  obtain s2 where s2: "Nf_Cleanup ipt ?nf1 s1 = (?nf1\<lparr>nf_active := False\<rparr>, s2, None)"
    "view s2 = pop_rule (redirect_rule nf) (view s1)"
    using Cleanup_one [OF assms(1,5), of ?nf1 s1] by auto
  have inst: "installed view s1 (redirect_rule nf)"
    using s1(2) installed_push_same [of view s1 "redirect_rule nf" s]
    by (cases "installed view s (redirect_rule nf)") (simp_all add: installed_def)
  have "view s2 = (if installed view s (redirect_rule nf) then pop_rule (redirect_rule nf) (view s) else view s)"
    by (simp add: s2(2) s1(2))
  with s1 s2(1) inst show ?thesis
    by (intro exI [of _ ?nf1] exI [of _ s1] exI [of _ "?nf1\<lparr>nf_active := False\<rparr>"] exI [of _ s2])
      (simp add: IsActive_def)
qed

theorem setup_then_cleanup_witness:
  "\<exists>nf1 s1 nf2 s2. Setup host_ipt (NewNetfilterManager ''100.64.0.0/10'' 9999) (\<lambda>t c. []) = (nf1, s1, Ok ()) \<and>
     s1 = push_rule (redirect_rule (NewNetfilterManager ''100.64.0.0/10'' 9999)) (\<lambda>t c. []) \<and>
     Nf_Cleanup host_ipt nf1 s1 = (nf2, s2, None) \<and> s2 = (\<lambda>t c. [])"
proof -
  have "v4_string [100, 64, 0, 0] @ CHR ''/'' # dec 10 = ''100.64.0.0/10''"
    by (simp add: v4_string_def dec_eval)
  then have "validateCIDR ''100.64.0.0/10'' = None"
    using parse_cidr_v4_string [of "[100, 64, 0, 0]" 10] by (simp add: validateCIDR_def)
  then show ?thesis
    using setup_then_cleanup [OF host_ipt_behaves _ _ refl, of 9999 "''100.64.0.0/10''" "\<lambda>t c. []"]
    by (auto simp: accepted_def installed_def)
qed

text \<open>When the builder of the rule panics.\<close>

lemma Setup_panics_iff:
  assumes "- (2 ^ 63) \<le> port" "port < 2 ^ 63"
  shows "snd (snd (Setup ipt (NewNetfilterManager cidr port) s)) = Panic \<longleftrightarrow>
    \<not> (1 \<le> port \<and> port \<le> 65535 \<and>
       (cidr = '''' \<or> (if CHR ''/'' \<in> set cidr then parse_cidr cidr \<noteq> None else parse_ip cidr \<noteq> [])))"
proof -
  have v: "validateCIDR cidr = None \<longleftrightarrow> (if CHR ''/'' \<in> set cidr then parse_cidr cidr \<noteq> None else parse_ip cidr \<noteq> [])"
    by (auto simp: validateCIDR_def split: option.split)
  have "snd (snd (Setup ipt nf s)) = Panic \<longleftrightarrow> Validate_rule (redirect_rule nf) \<noteq> None" if "\<not> nf_active nf" for nf
    using that by (auto simp: Setup_def MustBuild_def Build_def AddRule_def Let_def split: option.split prod.split)
  then have "snd (snd (Setup ipt (NewNetfilterManager cidr port) s)) = Panic \<longleftrightarrow>
      Validate_rule (redirect_rule (NewNetfilterManager cidr port)) \<noteq> None"
    by (simp add: NewNetfilterManager_def)
  then show ?thesis unfolding redirect_rule_valid [OF assms] v .
qed

text \<open>\<open>Setup\<close> panics, before it runs any command, exactly when the port is out of range or the
  target is neither empty nor an address or a network. The validation of the configuration
  only asks for a target that is not empty.\<close>

theorem setup_panics:
  assumes "- (2 ^ 63) \<le> port" "port < 2 ^ 63"
  shows "snd (snd (Setup ipt (NewNetfilterManager cidr port) s)) = Panic \<longleftrightarrow>
    \<not> (1 \<le> port \<and> port \<le> 65535 \<and>
       (cidr = '''' \<or> (if CHR ''/'' \<in> set cidr then parse_cidr cidr \<noteq> None else parse_ip cidr \<noteq> [])))"
  by (rule Setup_panics_iff [OF assms])

theorem setup_panics_witness:
  "snd (snd (Setup host_ipt (NewNetfilterManager ''100.64.0.0'' 70000) (\<lambda>t c. []))) = Panic"
  using setup_panics [of 70000 host_ipt "''100.64.0.0''"] by simp

end
