(* ===== verification/Config.thy ===== *)
theory Config
  imports GoStrings
begin

text \<open>
  The configuration of the three programs: \<open>internal/config\<close>, \<open>internal/version\<close>, the \<open>config.go\<close> and
  \<open>module.go\<close> of the client, the server and the proxy, \<open>pkg/crypto/tls.go\<close>, and the flags of the \<open>main\<close>
  functions. Viper, godotenv, the file system, the X.509 functions and the embedded
  certificates are parameters.
\<close>

section \<open>Build information\<close>

text \<open>The variables the linker may set, and what the runtime says of the system.\<close>

record build =
  Name :: string
  BuildVersion :: string
  Commit :: string
  BuildTime :: string
  Debug :: string
  GoVersion :: string
  GOOS :: string
  GOARCH :: string

record version_info =
  info_Name :: string
  info_Version :: string
  info_Commit :: string
  info_BuildTime :: string
  info_Debug :: bool
  info_GoVersion :: string
  info_OS :: string
  info_Arch :: string

definition IsDebug :: "build \<Rightarrow> bool" where
  "IsDebug b \<longleftrightarrow> Debug b = ''true''"

definition version_Get :: "build \<Rightarrow> version_info" where
  "version_Get b = \<lparr>info_Name = Name b, info_Version = BuildVersion b, info_Commit = Commit b,
     info_BuildTime = BuildTime b, info_Debug = IsDebug b, info_GoVersion = GoVersion b, info_OS = GOOS b,
     info_Arch = GOARCH b\<rparr>"

definition version_String :: "build \<Rightarrow> string" where
  "version_String b = Name b @ '' version '' @ BuildVersion b @ (if IsDebug b then '' [DEBUG]'' else '''') @
     '' (commit: '' @ Commit b @ '', built: '' @ BuildTime b @ '', go: '' @ GoVersion b @ '')''"

definition version_Short :: "build \<Rightarrow> string" where
  "version_Short b = Name b @ '' '' @ BuildVersion b"

section \<open>The configurations\<close>

text \<open>\<open>logger.Config\<close> without its writer.\<close>

record log_config =
  Level :: string
  Format :: string
  Development :: bool

definition DevelopmentLogConfig :: log_config where
  "DevelopmentLogConfig = \<lparr>Level = ''debug'', Format = ''console'', Development = True\<rparr>"

definition DefaultLogConfig :: "build \<Rightarrow> log_config" where
  "DefaultLogConfig b =
     (if IsDebug b then DevelopmentLogConfig else \<lparr>Level = ''info'', Format = ''json'', Development = False\<rparr>)"

text \<open>The inline certificates may be nil.\<close>

record tls_options =
  CertPath :: string
  KeyPath :: string
  CAPath :: string
  CertPEM :: "byte list option"
  KeyPEM :: "byte list option"
  CAPEM :: "byte list option"
  opt_ServerName :: string
  opt_InsecureSkipVerify :: bool

definition no_tls_options :: tls_options where
  "no_tls_options = \<lparr>CertPath = '''', KeyPath = '''', CAPath = '''', CertPEM = None, KeyPEM = None, CAPEM = None,
     opt_ServerName = '''', opt_InsecureSkipVerify = False\<rparr>"

record client_config =
  cc_ClientID :: string
  cc_ServerAddr :: string
  cc_ListenPort :: int
  cc_TargetCIDR :: string
  cc_TLS :: tls_options
  cc_Log :: log_config

definition client_DefaultConfig :: "build \<Rightarrow> client_config" where
  "client_DefaultConfig b = \<lparr>cc_ClientID = '''', cc_ServerAddr = ''localhost:8080'', cc_ListenPort = 9999,
     cc_TargetCIDR = ''100.64.0.0/10'', cc_TLS = no_tls_options, cc_Log = DefaultLogConfig b\<rparr>"

datatype config_error =
    ServerAddrRequired
  | ListenPortOutOfRange
  | TargetCIDRRequired
  | ProxyIDRequired
  | ManagedCIDRRequired
  | ClientListenAddrRequired
  | ProxyListenAddrRequired
  | SameListenAddr

definition client_Validate :: "client_config \<Rightarrow> config_error option" where
  "client_Validate c =
     (if cc_ServerAddr c = '''' then Some ServerAddrRequired
      else if cc_ListenPort c < 1 \<or> cc_ListenPort c > 65535 then Some ListenPortOutOfRange
      else if cc_TargetCIDR c = '''' then Some TargetCIDRRequired
      else None)"

record proxy_config =
  pc_ServerAddr :: string
  pc_ProxyID :: string
  pc_Managed :: string
  pc_TLS :: tls_options
  pc_Log :: log_config

definition proxy_DefaultConfig :: "build \<Rightarrow> proxy_config" where
  "proxy_DefaultConfig b = \<lparr>pc_ServerAddr = ''localhost:8081'', pc_ProxyID = ''proxy-1'',
     pc_Managed = ''192.168.1.0/24'', pc_TLS = no_tls_options, pc_Log = DefaultLogConfig b\<rparr>"

definition proxy_Validate :: "proxy_config \<Rightarrow> config_error option" where
  "proxy_Validate c =
     (if pc_ServerAddr c = '''' then Some ServerAddrRequired
      else if pc_ProxyID c = '''' then Some ProxyIDRequired
      else if pc_Managed c = '''' then Some ManagedCIDRRequired
      else None)"

record server_config =
  sc_ClientListenAddr :: string
  sc_ProxyListenAddr :: string
  sc_TLS :: tls_options
  sc_Log :: log_config

definition server_DefaultConfig :: "build \<Rightarrow> server_config" where
  "server_DefaultConfig b = \<lparr>sc_ClientListenAddr = '':8080'', sc_ProxyListenAddr = '':8081'',
     sc_TLS = no_tls_options, sc_Log = DefaultLogConfig b\<rparr>"

definition server_Validate :: "server_config \<Rightarrow> config_error option" where
  "server_Validate c =
     (if sc_ClientListenAddr c = '''' then Some ClientListenAddrRequired
      else if sc_ProxyListenAddr c = '''' then Some ProxyListenAddrRequired
      else if sc_ClientListenAddr c = sc_ProxyListenAddr c then Some SameListenAddr
      else None)"

section \<open>The loader\<close>

text \<open>A struct type as its fields' \<open>mapstructure\<close> tags; a field without a tag has an empty one.\<close>

datatype cfg_field = Plain string | Nested string "cfg_field list"

fun bindEnvs :: "cfg_field list \<Rightarrow> string \<Rightarrow> string list" where
  "bindEnvs [] prefix = []"
| "bindEnvs (Plain tag # fs) prefix =
     (if tag = '''' \<or> tag = ''-'' then bindEnvs fs prefix
      else (if prefix = '''' then tag else prefix @ ''.'' @ tag) # bindEnvs fs prefix)"
| "bindEnvs (Nested tag sub # fs) prefix =
     (if tag = '''' \<or> tag = ''-'' then bindEnvs fs prefix
      else let fullPath = (if prefix = '''' then tag else prefix @ ''.'' @ tag)
           in fullPath # bindEnvs sub fullPath @ bindEnvs fs prefix)"

definition tls_fields :: "cfg_field list" where
  "tls_fields = [Plain ''cert_path'', Plain ''key_path'', Plain ''ca_path'', Plain ''cert_pem'', Plain ''key_pem'',
     Plain ''ca_pem'', Plain ''server_name'', Plain ''insecure_skip_verify'']"

definition log_fields :: "cfg_field list" where
  "log_fields = [Plain '''', Plain '''', Plain '''', Plain '''']"

definition client_fields :: "cfg_field list" where
  "client_fields = [Plain ''client_id'', Plain ''server_addr'', Plain ''listen_port'', Plain ''target_cidr'',
     Nested ''tls'' tls_fields, Nested ''log'' log_fields]"

definition proxy_fields :: "cfg_field list" where
  "proxy_fields = [Plain ''server_addr'', Plain ''proxy_id'', Plain ''managed_cidr'',
     Nested ''tls'' tls_fields, Nested ''log'' log_fields]"

definition server_fields :: "cfg_field list" where
  "server_fields = [Plain ''client_listen_addr'', Plain ''proxy_listen_addr'',
     Nested ''tls'' tls_fields, Nested ''log'' log_fields]"

text \<open>\<open>filepath.Base\<close>: the last element of a path, without trailing slashes.\<close>

definition path_base :: "string \<Rightarrow> string" where
  "path_base path =
     (if path = '''' then ''.''
      else let p = rev (dropWhile (\<lambda>c. c = CHR ''/'') (rev path));
               b = rev (takeWhile (\<lambda>c. c \<noteq> CHR ''/'') (rev p))
           in if b = '''' then ''/'' else b)"

definition isEnvFile :: "string \<Rightarrow> bool" where
  "isEnvFile path = (let base = path_base path in has_prefix base ''.env'' \<or> has_suffix base ''.env'')"

text \<open>A loader holds a viper instance: the prefix of the environment variables, whether every variable is looked up
  by itself, the replacements that make the name of a variable of a key, the file it was given, and the keys that
  were bound to variables.\<close>

record loader =
  ld_prefix :: string
  ld_automaticEnv :: bool
  ld_keyReplacer :: "(string \<times> string) list"
  ld_file :: "string option"
  ld_bound :: "string list"

definition NewLoader :: "string \<Rightarrow> loader" where
  "NewLoader appName =
     \<lparr>ld_prefix = map to_upper appName, ld_automaticEnv = True, ld_keyReplacer = [(''.'', ''_''), (''-'', ''_'')],
      ld_file = None, ld_bound = []\<rparr>"

text \<open>
  The environment of a load: which files exist, what godotenv reads from them, whether viper
  reads a configuration file, and what a loader unmarshals from its file and the process environment into a
  configuration.
\<close>

record 'c load_env =
  le_Exists :: "string \<Rightarrow> bool"
  le_Godotenv :: "string \<Rightarrow> (string \<rightharpoonup> string) option"
  le_ReadInConfig :: "string \<Rightarrow> bool"
  le_Unmarshal :: "loader \<Rightarrow> (string \<rightharpoonup> string) \<Rightarrow> 'c \<Rightarrow> 'c option"

datatype load_error =
    ReadEnvFailed
  | SetEnvFailed string
  | ReadConfigFailed
  | UnmarshalFailed
  | InvalidConfig config_error

text \<open>\<open>os.Setenv\<close> refuses an empty key, a key with an equals sign, and zero bytes.\<close>

definition Setenv :: "string \<Rightarrow> string \<Rightarrow> (string \<rightharpoonup> string) \<Rightarrow> (string \<rightharpoonup> string) option" where
  "Setenv key value env =
     (if key = '''' \<or> CHR ''='' \<in> set key \<or> CHR 0x00 \<in> set key \<or> CHR 0x00 \<in> set value then None
      else Some (env(key \<mapsto> value)))"

fun setenv_loop :: "(string \<rightharpoonup> string) \<Rightarrow> string list \<Rightarrow> (string \<rightharpoonup> string) \<Rightarrow> (string \<rightharpoonup> string) \<times> load_error option" where
  "setenv_loop envMap [] env = (env, None)"
| "setenv_loop envMap (key # order) env =
     (case envMap key of
        None \<Rightarrow> setenv_loop envMap order env
      | Some value \<Rightarrow>
          (case Setenv key value env of
             None \<Rightarrow> (env, Some (SetEnvFailed key))
           | Some env \<Rightarrow> setenv_loop envMap order env))"

definition loadEnvFile ::
  "'c load_env \<Rightarrow> string list \<Rightarrow> string \<Rightarrow> (string \<rightharpoonup> string) \<Rightarrow> (string \<rightharpoonup> string) \<times> load_error option" where
  "loadEnvFile le order filepath env =
     (if \<not> le_Exists le filepath then (env, None)
      else case le_Godotenv le filepath of
             None \<Rightarrow> (env, Some ReadEnvFailed)
           | Some envMap \<Rightarrow> setenv_loop envMap order env)"

definition loadConfigFile :: "'c load_env \<Rightarrow> string \<Rightarrow> loader \<Rightarrow> loader \<times> load_error option" where
  "loadConfigFile le filepath l =
     (l\<lparr>ld_file := Some filepath\<rparr>, if le_ReadInConfig le filepath then None else Some ReadConfigFailed)"

text \<open>Loading a file changes the process environment or the loader.\<close>

definition LoadFile ::
  "'c load_env \<Rightarrow> string list \<Rightarrow> string \<Rightarrow> loader \<Rightarrow> (string \<rightharpoonup> string) \<Rightarrow>
   (string \<rightharpoonup> string) \<times> loader \<times> load_error option" where
  "LoadFile le order filepath l env =
     (if filepath = '''' then (env, l, None)
      else if isEnvFile filepath then
        (let (env, e) = loadEnvFile le order filepath env in (env, l, e))
      else (env, loadConfigFile le filepath l))"

definition Unmarshal :: "'c load_env \<Rightarrow> cfg_field list \<Rightarrow> (string \<rightharpoonup> string) \<Rightarrow> 'c \<Rightarrow> loader \<Rightarrow> loader \<times> 'c option" where
  "Unmarshal le shape env cfg l =
     (let l = l\<lparr>ld_bound := ld_bound l @ bindEnvs shape ''''\<rparr>
      in (l, le_Unmarshal le l env cfg))"

text \<open>\<open>Load\<close> for an application; \<open>order\<close> is the order in which a read environment file is ranged over.\<close>

definition Load ::
  "'c load_env \<Rightarrow> string list \<Rightarrow> ('c \<Rightarrow> config_error option) \<Rightarrow> cfg_field list \<Rightarrow> string \<Rightarrow> string \<Rightarrow> 'c \<Rightarrow>
   (string \<rightharpoonup> string) \<Rightarrow> (string \<rightharpoonup> string) \<times> (load_error + 'c)" where
  "Load le order validate shape appName configFile cfg env =
     (if configFile = '''' then
        (case validate cfg of Some e \<Rightarrow> (env, Inl (InvalidConfig e)) | None \<Rightarrow> (env, Inr cfg))
      else case LoadFile le order configFile (NewLoader appName) env of
             (env, l, Some e) \<Rightarrow> (env, Inl e)
           | (env, l, None) \<Rightarrow>
               (case snd (Unmarshal le shape env cfg l) of
                  None \<Rightarrow> (env, Inl UnmarshalFailed)
                | Some cfg \<Rightarrow>
                    (case validate cfg of Some e \<Rightarrow> (env, Inl (InvalidConfig e)) | None \<Rightarrow> (env, Inr cfg))))"

lemmas loader_defs = NewLoader_def loadConfigFile_def LoadFile_def Unmarshal_def loadEnvFile_def

definition client_LoadConfig where
  "client_LoadConfig b le order configFile env =
     Load le order client_Validate client_fields ''client'' configFile (client_DefaultConfig b) env"

definition proxy_LoadConfig where
  "proxy_LoadConfig b le order configFile env =
     Load le order proxy_Validate proxy_fields ''proxy'' configFile (proxy_DefaultConfig b) env"

definition server_LoadConfig where
  "server_LoadConfig b le order configFile env =
     Load le order server_Validate server_fields ''server'' configFile (server_DefaultConfig b) env"

section \<open>TLS\<close>

text \<open>The functions of the X.509 and file packages: a key pair from two files or from two PEM texts, the
  content of a file, and whether a PEM text holds a certificate for a pool. A certificate is
  opaque.\<close>

record 'cert tls_env =
  te_LoadX509KeyPair :: "string \<Rightarrow> string \<Rightarrow> 'cert option"
  te_X509KeyPair :: "byte list \<Rightarrow> byte list \<Rightarrow> 'cert option"
  te_ReadFile :: "string \<Rightarrow> byte list option"
  te_AppendCertsFromPEM :: "byte list \<Rightarrow> bool"

definition VersionTLS13 :: nat where "VersionTLS13 = 0x0304"
definition NoClientCert :: nat where "NoClientCert = 0"
definition RequireAndVerifyClientCert :: nat where "RequireAndVerifyClientCert = 4"

text \<open>The pools are given by the PEM text they were filled from.\<close>

record 'cert tls_config =
  tc_Certificate :: 'cert
  tc_RootCAs :: "byte list"
  tc_ClientCAs :: "byte list"
  tc_MinVersion :: nat
  tc_InsecureSkipVerify :: bool
  tc_ServerName :: string
  tc_ClientAuth :: nat

datatype tls_error =
    CertFilesFailed
  | EmbeddedCertFailed
  | NoCertificate
  | CAFileFailed
  | NoCA
  | CAParseFailed

definition pem_bytes :: "byte list option \<Rightarrow> byte list" where
  "pem_bytes pem = (case pem of None \<Rightarrow> [] | Some bs \<Rightarrow> bs)"

definition load_cert :: "'cert tls_env \<Rightarrow> tls_options \<Rightarrow> tls_error + 'cert" where
  "load_cert te opts =
     (if CertPath opts \<noteq> '''' \<and> KeyPath opts \<noteq> '''' then
        (case te_LoadX509KeyPair te (CertPath opts) (KeyPath opts) of None \<Rightarrow> Inl CertFilesFailed | Some c \<Rightarrow> Inr c)
      else if pem_bytes (CertPEM opts) \<noteq> [] \<and> pem_bytes (KeyPEM opts) \<noteq> [] then
        (case te_X509KeyPair te (pem_bytes (CertPEM opts)) (pem_bytes (KeyPEM opts)) of None \<Rightarrow> Inl EmbeddedCertFailed | Some c \<Rightarrow> Inr c)
      else Inl NoCertificate)"

definition load_ca :: "'cert tls_env \<Rightarrow> tls_options \<Rightarrow> tls_error + byte list" where
  "load_ca te opts =
     (if CAPath opts \<noteq> '''' then
        (case te_ReadFile te (CAPath opts) of None \<Rightarrow> Inl CAFileFailed | Some pem \<Rightarrow> Inr pem)
      else if pem_bytes (CAPEM opts) \<noteq> [] then Inr (pem_bytes (CAPEM opts))
      else Inl NoCA)"

definition LoadTLSConfig :: "'cert tls_env \<Rightarrow> tls_options \<Rightarrow> tls_error + 'cert tls_config" where
  "LoadTLSConfig te opts =
     (case load_cert te opts of
        Inl e \<Rightarrow> Inl e
      | Inr cert \<Rightarrow>
          (case load_ca te opts of
             Inl e \<Rightarrow> Inl e
           | Inr caCertPEM \<Rightarrow>
               if \<not> te_AppendCertsFromPEM te caCertPEM then Inl CAParseFailed
               else Inr \<lparr>tc_Certificate = cert, tc_RootCAs = caCertPEM, tc_ClientCAs = caCertPEM,
                      tc_MinVersion = VersionTLS13, tc_InsecureSkipVerify = opt_InsecureSkipVerify opts,
                      tc_ServerName = opt_ServerName opts, tc_ClientAuth = NoClientCert\<rparr>))"

definition LoadServerTLSConfig :: "'cert tls_env \<Rightarrow> tls_options \<Rightarrow> tls_error + 'cert tls_config" where
  "LoadServerTLSConfig te opts =
     (case LoadTLSConfig te opts of
        Inl e \<Rightarrow> Inl e
      | Inr c \<Rightarrow> Inr (c\<lparr>tc_ClientAuth := RequireAndVerifyClientCert\<rparr>))"

definition LoadClientTLSConfig :: "'cert tls_env \<Rightarrow> tls_options \<Rightarrow> tls_error + 'cert tls_config" where
  "LoadClientTLSConfig te opts = LoadTLSConfig te opts"

section \<open>What the programs run with\<close>

text \<open>The certificates embedded in the binary.\<close>

record certs =
  CACert :: "byte list"
  ServerCert :: "byte list"
  ServerKey :: "byte list"
  ClientCert :: "byte list"
  ClientKey :: "byte list"
  ProxyCert :: "byte list"
  ProxyKey :: "byte list"

definition fill_tls :: "byte list \<Rightarrow> byte list \<Rightarrow> byte list \<Rightarrow> tls_options \<Rightarrow> tls_options" where
  "fill_tls cert key ca opts =
     (let opts = (if CertPath opts = '''' \<and> CertPEM opts = None then opts\<lparr>CertPEM := Some cert\<rparr> else opts);
          opts = (if KeyPath opts = '''' \<and> KeyPEM opts = None then opts\<lparr>KeyPEM := Some key\<rparr> else opts)
      in if CAPath opts = '''' \<and> CAPEM opts = None then opts\<lparr>CAPEM := Some ca\<rparr> else opts)"

datatype provide_error =
    LoadError load_error
  | TLSError tls_error

definition client_ProvideConfig ::
  "build \<Rightarrow> client_config load_env \<Rightarrow> string list \<Rightarrow> 'cert tls_env \<Rightarrow> certs \<Rightarrow> string \<Rightarrow> (string \<rightharpoonup> string) \<Rightarrow>
   provide_error + client_config \<times> 'cert tls_config" where
  "client_ProvideConfig b le order te cs configFile env =
     (case snd (client_LoadConfig b le order configFile env) of
        Inl e \<Rightarrow> Inl (LoadError e)
      | Inr cfg \<Rightarrow>
          (case LoadClientTLSConfig te (fill_tls (ClientCert cs) (ClientKey cs) (CACert cs) (cc_TLS cfg)) of
             Inl e \<Rightarrow> Inl (TLSError e)
           | Inr tls \<Rightarrow> Inr (cfg, tls)))"

definition server_ProvideConfig ::
  "build \<Rightarrow> server_config load_env \<Rightarrow> string list \<Rightarrow> 'cert tls_env \<Rightarrow> certs \<Rightarrow> string \<Rightarrow> (string \<rightharpoonup> string) \<Rightarrow>
   provide_error + server_config \<times> 'cert tls_config" where
  "server_ProvideConfig b le order te cs configFile env =
     (case snd (server_LoadConfig b le order configFile env) of
        Inl e \<Rightarrow> Inl (LoadError e)
      | Inr cfg \<Rightarrow>
          (case LoadServerTLSConfig te (fill_tls (ServerCert cs) (ServerKey cs) (CACert cs) (sc_TLS cfg)) of
             Inl e \<Rightarrow> Inl (TLSError e)
           | Inr tls \<Rightarrow> Inr (cfg, tls)))"

text \<open>The proxy takes no configuration file: it always runs with the default configuration.\<close>

definition proxy_ProvideConfig ::
  "build \<Rightarrow> 'cert tls_env \<Rightarrow> certs \<Rightarrow> provide_error + proxy_config \<times> 'cert tls_config" where
  "proxy_ProvideConfig b te cs =
     (let cfg = proxy_DefaultConfig b in
      case LoadClientTLSConfig te (fill_tls (ProxyCert cs) (ProxyKey cs) (CACert cs) (pc_TLS cfg)) of
        Inl e \<Rightarrow> Inl (TLSError e)
      | Inr tls \<Rightarrow> Inr (cfg, tls))"

text \<open>The flags. fx decorates the configuration after the constructor has made it.\<close>

record client_flags =
  cf_config :: string
  cf_server :: string
  cf_cidr :: string
  cf_port :: int

definition client_applyOverrides :: "client_flags \<Rightarrow> client_config \<Rightarrow> client_config" where
  "client_applyOverrides f cfg =
     (let cfg = (if cf_server f \<noteq> '''' then cfg\<lparr>cc_ServerAddr := cf_server f\<rparr> else cfg);
          cfg = (if cf_cidr f \<noteq> '''' then cfg\<lparr>cc_TargetCIDR := cf_cidr f\<rparr> else cfg)
      in if cf_port f \<noteq> 0 then cfg\<lparr>cc_ListenPort := cf_port f\<rparr> else cfg)"

record proxy_flags =
  pf_config :: string
  pf_server :: string
  pf_id :: string

definition proxy_applyOverrides :: "proxy_flags \<Rightarrow> proxy_config \<Rightarrow> proxy_config" where
  "proxy_applyOverrides f cfg =
     (let cfg = (if pf_server f \<noteq> '''' then cfg\<lparr>pc_ServerAddr := pf_server f\<rparr> else cfg)
      in if pf_id f \<noteq> '''' then cfg\<lparr>pc_ProxyID := pf_id f\<rparr> else cfg)"

record server_flags =
  sf_config :: string
  sf_cert :: string
  sf_key :: string
  sf_ca :: string

definition applyTLSOverrides :: "server_flags \<Rightarrow> server_config \<Rightarrow> server_config" where
  "applyTLSOverrides f cfg =
     (let cfg = (if sf_cert f \<noteq> '''' then cfg\<lparr>sc_TLS := (sc_TLS cfg)\<lparr>CertPath := sf_cert f\<rparr>\<rparr> else cfg);
          cfg = (if sf_key f \<noteq> '''' then cfg\<lparr>sc_TLS := (sc_TLS cfg)\<lparr>KeyPath := sf_key f\<rparr>\<rparr> else cfg)
      in if sf_ca f \<noteq> '''' then cfg\<lparr>sc_TLS := (sc_TLS cfg)\<lparr>CAPath := sf_ca f\<rparr>\<rparr> else cfg)"

definition client_settings where
  "client_settings b le order te cs f env =
     map_sum id (\<lambda>(cfg, tls). (client_applyOverrides f cfg, tls))
       (client_ProvideConfig b le order te cs (cf_config f) env)"

definition proxy_settings where
  "proxy_settings b te cs f =
     map_sum id (\<lambda>(cfg, tls). (proxy_applyOverrides f cfg, tls)) (proxy_ProvideConfig b te cs)"

definition server_settings where
  "server_settings b le order te cs f env =
     map_sum id (\<lambda>(cfg, tls). (applyTLSOverrides f cfg, tls))
       (server_ProvideConfig b le order te cs (sf_config f) env)"

section \<open>Loading\<close>

text \<open>The contract the loader has with a configuration: its default is valid.\<close>

locale loadable =
  fixes validate :: "'c \<Rightarrow> config_error option"
    and default :: 'c
  assumes default_valid: "validate default = None"
begin

lemma load_default: "Load le order validate shape app '''' default env = (env, Inr default)"
  by (simp add: Load_def default_valid)

lemma load_valid: "snd (Load le order validate shape app path default env) = Inr c \<Longrightarrow> validate c = None"
  using default_valid by (auto simp: Load_def split: if_splits option.splits prod.splits)

lemma load_missing_env_file:
  assumes "isEnvFile file" "\<not> le_Exists le file"
  shows "Load le order validate shape app file default env =
    (env, case le_Unmarshal le ((NewLoader app)\<lparr>ld_bound := bindEnvs shape ''''\<rparr>) env default of
       None \<Rightarrow> Inl UnmarshalFailed
     | Some c \<Rightarrow> (case validate c of None \<Rightarrow> Inr c | Some e \<Rightarrow> Inl (InvalidConfig e)))"
proof -
  have "file \<noteq> ''''" using assms(1) by (auto simp: isEnvFile_def path_base_def has_prefix_def has_suffix_def Let_def)
  then show ?thesis using assms by (simp add: Load_def loader_defs split: option.split)
qed

end

interpretation client_loads: loadable client_Validate "client_DefaultConfig b" for b
  by unfold_locales (simp add: client_Validate_def client_DefaultConfig_def)

interpretation proxy_loads: loadable proxy_Validate "proxy_DefaultConfig b" for b
  by unfold_locales (simp add: proxy_Validate_def proxy_DefaultConfig_def)

interpretation server_loads: loadable server_Validate "server_DefaultConfig b" for b
  by unfold_locales (simp add: server_Validate_def server_DefaultConfig_def)

text \<open>Reading a file of variables: the ones before the first refused key are set.\<close>

lemma setenv_loop_ok:
  "snd (setenv_loop envMap order env) = None \<Longrightarrow>
   fst (setenv_loop envMap order env) k = (if k \<in> set order \<and> envMap k \<noteq> None then envMap k else env k)"
  by (induction order arbitrary: env) (auto simp: Setenv_def split: option.splits if_splits)

lemma path_base_dir: "b \<noteq> '''' \<Longrightarrow> CHR ''/'' \<notin> set b \<Longrightarrow> path_base (d @ CHR ''/'' # b) = b"
proof -
  assume b: "b \<noteq> ''''" "CHR ''/'' \<notin> set b"
  obtain c cs where rb: "rev b = c # cs" using b(1) by (cases "rev b") auto
  then have c: "c \<noteq> CHR ''/''" using b(2) by (metis list.set_intros(1) set_rev)
  then have "dropWhile (\<lambda>c. c = CHR ''/'') (rev (d @ CHR ''/'' # b)) = rev b @ CHR ''/'' # rev d"
    by (simp add: rb)
  moreover have "takeWhile (\<lambda>c. c \<noteq> CHR ''/'') (rev b @ CHR ''/'' # rev d) = rev b"
    using b(2) by (subst takeWhile_append2) auto
  ultimately show ?thesis using b(1) by (simp add: path_base_def Let_def)
qed

lemma path_base_plain: "b \<noteq> '''' \<Longrightarrow> CHR ''/'' \<notin> set b \<Longrightarrow> path_base b = b"
proof -
  assume b: "b \<noteq> ''''" "CHR ''/'' \<notin> set b"
  obtain c cs where rb: "rev b = c # cs" using b(1) by (cases "rev b") auto
  then have "c \<noteq> CHR ''/''" using b(2) by (metis list.set_intros(1) set_rev)
  then have "dropWhile (\<lambda>c. c = CHR ''/'') (rev b) = rev b" by (simp add: rb)
  moreover have "takeWhile (\<lambda>c. c \<noteq> CHR ''/'') (rev b) = rev b"
    using b(2) by auto
  ultimately show ?thesis using b(1) by (simp add: path_base_def Let_def del: takeWhile_eq_all_conv)
qed

section \<open>Properties\<close>

text \<open>What loading a configuration gives. Without a file it is the default configuration, and neither
  the process environment nor any file matters. With a file, a result is always valid; a
  missing environment file is no error; and the process environment is changed by environment
  files alone, in the keys the file has.\<close>

theorem client_config_loaded:
  "client_LoadConfig b le order '''' env = (env, Inr (client_DefaultConfig b)) \<and>
   (case snd (client_LoadConfig b le order file env) of Inl e \<Rightarrow> True | Inr c \<Rightarrow> client_Validate c = None) \<and>
   (\<not> isEnvFile file \<longrightarrow> fst (client_LoadConfig b le order file env) = env) \<and>
   (isEnvFile file \<and> \<not> le_Exists le file \<longrightarrow> fst (client_LoadConfig b le order file env) = env \<and>
      (\<forall>e. snd (client_LoadConfig b le order file env) \<noteq> Inl (SetEnvFailed e)) \<and>
      snd (client_LoadConfig b le order file env) \<noteq> Inl ReadEnvFailed) \<and>
   (isEnvFile file \<and> le_Godotenv le file = Some m \<and> (\<exists>c. snd (client_LoadConfig b le order file env) = Inr c) \<longrightarrow>
      le_Exists le file \<longrightarrow>
      (\<forall>k. fst (client_LoadConfig b le order file env) k = (if k \<in> set order \<and> m k \<noteq> None then m k else env k)))"
proof (intro conjI impI)
  show "client_LoadConfig b le order '''' env = (env, Inr (client_DefaultConfig b))"
    by (simp add: client_LoadConfig_def client_loads.load_default)
  show "case snd (client_LoadConfig b le order file env) of Inl e \<Rightarrow> True | Inr c \<Rightarrow> client_Validate c = None"
    using client_loads.load_valid [where le = le and order = order and shape = client_fields and b = b and env = env and path = "file"]
    by (auto simp: client_LoadConfig_def split: sum.split)
  show "fst (client_LoadConfig b le order file env) = env" if "\<not> isEnvFile file"
    using that by (simp add: client_LoadConfig_def Load_def loader_defs split: option.split)
  assume m: "isEnvFile file \<and> \<not> le_Exists le file"
  note l = client_loads.load_missing_env_file [of "file" le order client_fields "''client''" b env]
  show "fst (client_LoadConfig b le order file env) = env" using m l by (simp add: client_LoadConfig_def)
  show "\<forall>e. snd (client_LoadConfig b le order file env) \<noteq> Inl (SetEnvFailed e)"
    using m l by (simp add: client_LoadConfig_def split: option.split)
  show "snd (client_LoadConfig b le order file env) \<noteq> Inl ReadEnvFailed"
    using m l by (simp add: client_LoadConfig_def split: option.split)
next
  assume a: "isEnvFile file \<and> le_Godotenv le file = Some m \<and> (\<exists>c. snd (client_LoadConfig b le order file env) = Inr c)"
    and e: "le_Exists le file"
  have f: "file \<noteq> ''''" using a by (auto simp: isEnvFile_def path_base_def has_prefix_def has_suffix_def Let_def)
  have ok: "snd (setenv_loop m order env) = None"
    using a e f by (auto simp: client_LoadConfig_def Load_def loader_defs split: prod.splits option.splits)
  have "fst (client_LoadConfig b le order file env) = fst (setenv_loop m order env)"
    using a e f ok by (auto simp: client_LoadConfig_def Load_def loader_defs split: prod.splits option.splits)
  then show "\<forall>k. fst (client_LoadConfig b le order file env) k = (if k \<in> set order \<and> m k \<noteq> None then m k else env k)"
    using setenv_loop_ok [OF ok] by simp
qed

text \<open>An environment in which one file of variables exists and viper changes nothing.\<close>

definition sample_load_env :: "'c load_env" where
  "sample_load_env = \<lparr>le_Exists = (\<lambda>f. f = ''etc/.env''), le_Godotenv = (\<lambda>f. Some [''CLIENT_ID'' \<mapsto> ''a'']),
     le_ReadInConfig = (\<lambda>f. False), le_Unmarshal = (\<lambda>l env c. Some c)\<rparr>"

definition release_build :: build where
  "release_build = \<lparr>Name = ''network-tunneler'', BuildVersion = ''1.0.0'', Commit = ''unknown'', BuildTime = ''unknown'',
     Debug = ''false'', GoVersion = ''go1.25'', GOOS = ''linux'', GOARCH = ''amd64''\<rparr>"

theorem client_config_loaded_witness:
  "fst (client_LoadConfig release_build sample_load_env [''CLIENT_ID''] ''etc/.env'' Map.empty) ''CLIENT_ID'' = Some ''a''"
proof -
  have env: "isEnvFile ''etc/.env''"
    using path_base_dir [of "''.env''" "''etc''"] by (simp add: isEnvFile_def has_prefix_def)
  have "\<exists>c. snd (client_LoadConfig release_build sample_load_env [''CLIENT_ID''] ''etc/.env'' Map.empty) = Inr c"
    by (simp add: client_LoadConfig_def Load_def loader_defs env sample_load_env_def Setenv_def
      client_loads.default_valid)
  then show ?thesis
    using client_config_loaded [of release_build sample_load_env "[''CLIENT_ID'']" Map.empty "''etc/.env''" "[''CLIENT_ID'' \<mapsto> ''a'']"] env
    by (simp add: sample_load_env_def)
qed

text \<open>Which file is read as a file of environment variables: its last path element starts or ends
  with \<open>.env\<close>, in whatever directory it is.\<close>

theorem env_file_names:
  assumes "CHR ''/'' \<notin> set f" "f \<noteq> ''''"
  shows "(isEnvFile f \<longleftrightarrow> take 4 f = ''.env'' \<or> (\<exists>s. f = s @ ''.env'')) \<and> isEnvFile (d @ CHR ''/'' # f) = isEnvFile f"
proof -
  have "has_suffix f p \<longleftrightarrow> (\<exists>s. f = s @ p)" for p
    unfolding has_suffix_def by (metis append_take_drop_id append_eq_conv_conj diff_add_inverse2 le_add2 length_append)
  then show ?thesis
    using path_base_dir [OF assms(2,1)] path_base_plain [OF assms(2,1)]
    by (simp add: isEnvFile_def has_prefix_def Let_def numeral_eq_Suc)
qed

theorem env_file_names_witness: "isEnvFile ''etc/local.env'' \<and> \<not> isEnvFile ''client.yaml''"
proof -
  have "isEnvFile (''etc'' @ CHR ''/'' # ''local.env'')"
    using env_file_names [of "''local.env''" "''etc''"] by simp
  moreover have "\<not> isEnvFile ''client.yaml''"
    using env_file_names [of "''client.yaml''"] by (auto simp: append_eq_Cons_conv Cons_eq_append_conv)
  ultimately show ?thesis by simp
qed

text \<open>The keys bound to environment variables are the tags of the fields, nested with dots. The
  settings of the log have no tags, so no key below \<open>log\<close> is bound.\<close>

theorem bound_keys:
  "bindEnvs client_fields '''' = [''client_id'', ''server_addr'', ''listen_port'', ''target_cidr'', ''tls'',
     ''tls.cert_path'', ''tls.key_path'', ''tls.ca_path'', ''tls.cert_pem'', ''tls.key_pem'', ''tls.ca_pem'',
     ''tls.server_name'', ''tls.insecure_skip_verify'', ''log''] \<and>
   (\<forall>k \<in> set (bindEnvs client_fields '''') \<union> set (bindEnvs proxy_fields '''') \<union> set (bindEnvs server_fields '''').
     \<not> has_prefix k ''log.'')"
  by (simp add: client_fields_def proxy_fields_def server_fields_def tls_fields_def log_fields_def has_prefix_def)

text \<open>C37: The server demands mutual TLS. Whatever the options, the files and the flags, a server that
  gets its settings requires and verifies client certificates, against the pool it also takes
  as roots, and speaks TLS 1.3; and no program runs without a certificate and a pool.\<close>

theorem server_demands_client_certs:
  assumes "server_settings b le order te cs f env = Inr (cfg, tls)"
  shows "tc_ClientAuth tls = RequireAndVerifyClientCert \<and> tc_MinVersion tls = VersionTLS13 \<and>
    tc_ClientCAs tls = tc_RootCAs tls \<and> te_AppendCertsFromPEM te (tc_ClientCAs tls) \<and>
    (\<exists>x y. te_LoadX509KeyPair te x y = Some (tc_Certificate tls) \<or> (\<exists>p k. te_X509KeyPair te p k = Some (tc_Certificate tls)))"
  using assms
  by (auto simp: server_settings_def server_ProvideConfig_def LoadServerTLSConfig_def LoadTLSConfig_def load_cert_def
    split: sum.splits if_splits option.splits)

definition sample_tls_env :: "nat tls_env" where
  "sample_tls_env = \<lparr>te_LoadX509KeyPair = (\<lambda>c k. None), te_X509KeyPair = (\<lambda>c k. if c = [1] \<and> k = [2] then Some 7 else None),
     te_ReadFile = (\<lambda>f. None), te_AppendCertsFromPEM = (\<lambda>pem. pem = [3])\<rparr>"

definition sample_certs :: certs where
  "sample_certs = \<lparr>CACert = [3], ServerCert = [1], ServerKey = [2], ClientCert = [1], ClientKey = [2],
     ProxyCert = [1], ProxyKey = [2]\<rparr>"

lemmas settings_simps = server_settings_def server_ProvideConfig_def server_LoadConfig_def LoadServerTLSConfig_def
  LoadTLSConfig_def load_cert_def load_ca_def fill_tls_def pem_bytes_def sample_tls_env_def sample_certs_def no_tls_options_def
  server_DefaultConfig_def server_Validate_def Load_def Let_def

theorem server_demands_client_certs_witness:
  "\<exists>cfg tls. server_settings release_build sample_load_env [] sample_tls_env sample_certs \<lparr>sf_config = '''', sf_cert = '''', sf_key = '''', sf_ca = ''''\<rparr>
     Map.empty = Inr (cfg, tls) \<and> tc_ClientAuth tls = RequireAndVerifyClientCert"
proof -
  obtain cfg tls where s: "server_settings release_build sample_load_env [] sample_tls_env sample_certs
      \<lparr>sf_config = '''', sf_cert = '''', sf_key = '''', sf_ca = ''''\<rparr> Map.empty = Inr (cfg, tls)"
    by (simp add: settings_simps)
  then show ?thesis using server_demands_client_certs [OF s] by blast
qed

text \<open>The server's flags for the certificate, the key and the CA change the configuration but not
  the TLS configuration, which was made before the flags are applied: with any values of these
  flags the server runs with the same certificate and pool, or fails in the same way.\<close>

theorem server_tls_flags_ignored:
  "map_sum id snd (server_settings b le order te cs (f\<lparr>sf_cert := c, sf_key := k, sf_ca := a\<rparr>) env) =
   map_sum id snd (server_settings b le order te cs f env)"
  by (cases "server_ProvideConfig b le order te cs (sf_config f) env") (auto simp: server_settings_def)

text \<open>The proxy never reads its configuration file, and nothing sets the network it manages: its
  settings do not depend on the file flag, and the managed network is the default one.\<close>

theorem proxy_config_file_ignored:
  "proxy_settings b te cs (f\<lparr>pf_config := file\<rparr>) = proxy_settings b te cs f \<and>
   (case proxy_settings b te cs f of Inl e \<Rightarrow> True | Inr (cfg, tls) \<Rightarrow> pc_Managed cfg = ''192.168.1.0/24'')"
  by (auto simp: proxy_settings_def proxy_applyOverrides_def proxy_ProvideConfig_def proxy_DefaultConfig_def Let_def
    split: sum.split)

end
