(* ===== verification/Tracker.thy ===== *)
theory Tracker
  imports IdleTable
begin

text \<open>
  \<open>internal/client/tracker.go\<close>: the client's table of local connections. A \<open>ConnectionState\<close>
  is an object whose pointer \<open>DeliverResponse\<close> holds while the lock is released, so the states
  live in a heap (a list) and the table maps identifiers to pointers. A local connection is
  named by a number; \<open>tr_closed\<close> are the ones that have been closed.
\<close>

record conn_state =
  st_ConnectionID :: string
  st_OriginalDest :: string
  st_LocalConn :: nat
  st_CreatedAt :: int
  st_LastActivity :: int

record tracker =
  tr_connections :: "string \<rightharpoonup> nat"
  tr_states :: "conn_state list"
  tr_closed :: "nat list"

definition NewConnectionTracker :: tracker where
  "NewConnectionTracker = \<lparr>tr_connections = Map.empty, tr_states = [], tr_closed = []\<rparr>"

definition Track :: "int \<Rightarrow> string \<Rightarrow> string \<Rightarrow> nat \<Rightarrow> tracker \<Rightarrow> tracker" where
  "Track now connID originalDest localConn t =
     (let state = \<lparr>st_ConnectionID = connID, st_OriginalDest = originalDest, st_LocalConn = localConn,
                   st_CreatedAt = now, st_LastActivity = now\<rparr>
      in t\<lparr>tr_connections := (tr_connections t)(connID \<mapsto> length (tr_states t)),
           tr_states := tr_states t @ [state]\<rparr>)"

definition Get :: "string \<Rightarrow> tracker \<Rightarrow> conn_state option" where
  "Get connID t = map_option (\<lambda>ref. tr_states t ! ref) (tr_connections t connID)"

definition touch :: "int \<Rightarrow> nat \<Rightarrow> tracker \<Rightarrow> tracker" where
  "touch now ref t = t\<lparr>tr_states := (tr_states t)[ref := (tr_states t ! ref)\<lparr>st_LastActivity := now\<rparr>]\<rparr>"

definition UpdateActivity :: "int \<Rightarrow> string \<Rightarrow> tracker \<Rightarrow> tracker" where
  "UpdateActivity now connID t =
     (case tr_connections t connID of None \<Rightarrow> t | Some ref \<Rightarrow> touch now ref t)"

definition close_conn :: "nat \<Rightarrow> tracker \<Rightarrow> tracker" where
  "close_conn c t = t\<lparr>tr_closed := c # tr_closed t\<rparr>"

definition Remove :: "string \<Rightarrow> tracker \<Rightarrow> tracker" where
  "Remove connID t =
     (case tr_connections t connID of
        None \<Rightarrow> t
      | Some ref \<Rightarrow>
          let t = close_conn (st_LocalConn (tr_states t ! ref)) t
          in t\<lparr>tr_connections := (tr_connections t)(connID := None)\<rparr>)"

text \<open>The loop over the table closes and deletes the idle entries and counts them.\<close>

fun Cleanup_loop :: "int \<Rightarrow> int \<Rightarrow> string list \<Rightarrow> nat \<Rightarrow> tracker \<Rightarrow> tracker \<times> nat" where
  "Cleanup_loop now maxIdleTime [] removed t = (t, removed)"
| "Cleanup_loop now maxIdleTime (connID # rest) removed t =
     (case tr_connections t connID of
        None \<Rightarrow> Cleanup_loop now maxIdleTime rest removed t
      | Some ref \<Rightarrow>
          if time_sub now (st_LastActivity (tr_states t ! ref)) > maxIdleTime
          then let t = close_conn (st_LocalConn (tr_states t ! ref)) t;
                   t = t\<lparr>tr_connections := (tr_connections t)(connID := None)\<rparr>
               in Cleanup_loop now maxIdleTime rest (removed + 1) t
          else Cleanup_loop now maxIdleTime rest removed t)"

definition Cleanup :: "int \<Rightarrow> int \<Rightarrow> string list \<Rightarrow> tracker \<Rightarrow> tracker \<times> nat" where
  "Cleanup now maxIdleTime order t = Cleanup_loop now maxIdleTime order 0 t"

datatype deliver_error =
    NoSuchConnection string
  | WriteFailed string

text \<open>
  \<open>DeliverResponse\<close> in its three parts: the look up under the read lock, the update of the
  state under the lock, and the write to the local connection without a lock. The operating
  system decides whether the write succeeds, except that it fails on a closed connection. The result is
  the connection that received the data whole: a \<open>Write\<close> that fails after some of the bytes is a failed
  write, as it is for the source.
\<close>

definition DeliverResponse_lookup :: "string \<Rightarrow> tracker \<Rightarrow> deliver_error + nat" where
  "DeliverResponse_lookup connID t =
     (case tr_connections t connID of
        None \<Rightarrow> Inl (NoSuchConnection connID)
      | Some ref \<Rightarrow> Inr ref)"

definition DeliverResponse_write :: "bool \<Rightarrow> nat \<Rightarrow> byte list \<Rightarrow> tracker \<Rightarrow> deliver_error + nat \<times> byte list" where
  "DeliverResponse_write os_ok ref data t =
     (let state = tr_states t ! ref in
      if os_ok \<and> st_LocalConn state \<notin> set (tr_closed t)
      then Inr (st_LocalConn state, data)
      else Inl (WriteFailed (st_ConnectionID state)))"

definition DeliverResponse ::
  "int \<Rightarrow> bool \<Rightarrow> string \<Rightarrow> byte list \<Rightarrow> tracker \<Rightarrow> tracker \<times> (deliver_error + nat \<times> byte list)" where
  "DeliverResponse now os_ok connID data t =
     (case DeliverResponse_lookup connID t of
        Inl e \<Rightarrow> (t, Inl e)
      | Inr ref \<Rightarrow> let t = touch now ref t in (t, DeliverResponse_write os_ok ref data t))"

definition Count :: "tracker \<Rightarrow> nat" where
  "Count t = map_len (tr_connections t)"

section \<open>Invariant\<close>

definition tracker_ok :: "tracker \<Rightarrow> bool" where
  "tracker_ok t \<longleftrightarrow> finite (dom (tr_connections t)) \<and>
     (\<forall>i ref. tr_connections t i = Some ref \<longrightarrow>
        ref < length (tr_states t) \<and> st_ConnectionID (tr_states t ! ref) = i)"

lemma tracker_okD:
  assumes "tracker_ok t" "tr_connections t i = Some ref"
  shows "ref < length (tr_states t)" "st_ConnectionID (tr_states t ! ref) = i"
  using assms by (auto simp: tracker_ok_def)

lemma touch_sel [simp]:
  "tr_connections (touch now ref t) = tr_connections t" "tr_closed (touch now ref t) = tr_closed t"
  "length (tr_states (touch now ref t)) = length (tr_states t)"
  by (simp_all add: touch_def)

lemma close_conn_sel [simp]:
  "tr_connections (close_conn c t) = tr_connections t" "tr_states (close_conn c t) = tr_states t"
  "tr_closed (close_conn c t) = c # tr_closed t"
  by (simp_all add: close_conn_def)

lemma touch_field:
  "(\<And>s. g (s\<lparr>st_LastActivity := now\<rparr>) = g s) \<Longrightarrow>
   g (tr_states (touch now ref t) ! k) = g (tr_states t ! k)"
  unfolding touch_def by (simp add: nth_update_field [of g])

lemma tracker_ok_new: "tracker_ok NewConnectionTracker"
  by (simp add: tracker_ok_def NewConnectionTracker_def)

lemma tracker_ok_Track: "tracker_ok t \<Longrightarrow> tracker_ok (Track now i d c t)"
  by (auto simp: tracker_ok_def Track_def Let_def nth_append less_SucI)

lemma tracker_ok_touch: "tracker_ok t \<Longrightarrow> tracker_ok (touch now ref t)"
  by (simp add: tracker_ok_def touch_field [of st_ConnectionID])

lemma tracker_ok_Update: "tracker_ok t \<Longrightarrow> tracker_ok (UpdateActivity now i t)"
  by (simp add: UpdateActivity_def tracker_ok_touch split: option.split)

lemma tracker_ok_Remove: "tracker_ok t \<Longrightarrow> tracker_ok (Remove i t)"
  by (auto simp: tracker_ok_def Remove_def Let_def split: option.split)

lemma Cleanup_loop_states [simp]: "tr_states (fst (Cleanup_loop now m order n t)) = tr_states t"
  by (induction order arbitrary: n t) (auto simp: Let_def split: option.split)

lemma Cleanup_loop_spec:
  assumes "distinct order"
  shows "tr_connections (fst (Cleanup_loop now m order n t)) i =
      (case tr_connections t i of
         None \<Rightarrow> None
       | Some ref \<Rightarrow> if i \<in> set order \<and> time_sub now (st_LastActivity (tr_states t ! ref)) > m
                   then None else Some ref)"
  using assms
  by (induction order arbitrary: n t) (auto simp: Let_def split: option.splits)

text \<open>The entries an order visits do not depend on the keys visited before.\<close>

definition idle_in :: "int \<Rightarrow> int \<Rightarrow> tracker \<Rightarrow> string \<Rightarrow> bool" where
  "idle_in now m t i \<longleftrightarrow> (case tr_connections t i of
     None \<Rightarrow> False | Some ref \<Rightarrow> time_sub now (st_LastActivity (tr_states t ! ref)) > m)"

definition local_of :: "tracker \<Rightarrow> string \<Rightarrow> nat" where
  "local_of t i = st_LocalConn (tr_states t ! the (tr_connections t i))"

lemma Cleanup_loop_idle:
  "Cleanup_loop now m (i # rest) n t =
    (if idle_in now m t i
     then Cleanup_loop now m rest (n + 1)
       ((close_conn (local_of t i) t)\<lparr>tr_connections := (tr_connections t)(i := None)\<rparr>)
     else Cleanup_loop now m rest n t)"
  by (simp add: idle_in_def local_of_def Let_def split: option.split)

lemma idle_in_other:
  "j \<noteq> i \<Longrightarrow> idle_in now m ((close_conn c t)\<lparr>tr_connections := (tr_connections t)(i := None)\<rparr>) j = idle_in now m t j"
  "j \<noteq> i \<Longrightarrow> local_of ((close_conn c t)\<lparr>tr_connections := (tr_connections t)(i := None)\<rparr>) j = local_of t j"
  by (simp_all add: idle_in_def local_of_def split: option.split)

lemma Cleanup_loop_effects:
  "distinct order \<Longrightarrow>
   snd (Cleanup_loop now m order n t) = n + length (filter (idle_in now m t) order) \<and>
   tr_closed (fst (Cleanup_loop now m order n t)) =
     rev (map (local_of t) (filter (idle_in now m t) order)) @ tr_closed t"
proof (induction order arbitrary: n t)
  case (Cons i order)
  let ?t = "(close_conn (local_of t i) t)\<lparr>tr_connections := (tr_connections t)(i := None)\<rparr>"
  have ne: "j \<noteq> i" if "j \<in> set order" for j using Cons.prems that by auto
  have f: "filter (idle_in now m ?t) order = filter (idle_in now m t) order"
    by (rule filter_cong [OF refl]) (simp only: idle_in_other [OF ne])
  have "map (local_of ?t) (filter (idle_in now m t) order) = map (local_of t) (filter (idle_in now m t) order)"
    using ne by (intro map_cong refl idle_in_other) auto
  with f show ?case using Cons by (simp add: Cleanup_loop_idle del: Cleanup_loop.simps)
qed simp

interpretation tracker_table: idle_table tr_connections
  "\<lambda>t ref. st_LastActivity (tr_states t ! ref)" "\<lambda>now order t. fst (Cleanup now m order t)" m
  for m
  by unfold_locales
    (auto simp: Cleanup_def Cleanup_loop_spec range_order_def dom_def split: option.splits)

lemma tracker_ok_Cleanup: "tracker_ok t \<Longrightarrow> range_order (tr_connections t) order \<Longrightarrow>
  tracker_ok (fst (Cleanup now m order t))"
  using tracker_table.cleanup_submap [of t order now m]
  by (auto simp: tracker_ok_def Cleanup_def Cleanup_loop_spec range_order_def map_le_def dom_def
    elim: finite_subset [rotated] split: option.splits if_splits)

section \<open>Lookup laws\<close>

lemma Get_new [simp]: "Get i NewConnectionTracker = None"
  by (simp add: Get_def NewConnectionTracker_def)

lemma Get_Track:
  assumes "tracker_ok t"
  shows "Get j (Track now i d c t) =
    (if j = i then Some \<lparr>st_ConnectionID = i, st_OriginalDest = d, st_LocalConn = c,
       st_CreatedAt = now, st_LastActivity = now\<rparr> else Get j t)"
  using tracker_okD(1) [OF assms, of j]
  by (cases "tr_connections t j") (auto simp: Get_def Track_def Let_def nth_append)

lemma Get_Remove: "Get j (Remove i t) = (if j = i then None else Get j t)"
  by (auto simp: Get_def Remove_def Let_def split: option.split)

lemma Get_touch:
  assumes "tracker_ok t" "tr_connections t i = Some ref"
  shows "Get j (touch now ref t) =
    (if j = i then map_option (\<lambda>s. s\<lparr>st_LastActivity := now\<rparr>) (Get j t) else Get j t)"
proof (cases "tr_connections t j")
  case None
  then show ?thesis using assms(2) by (auto simp: Get_def)
next
  case (Some k)
  have "st_ConnectionID (tr_states t ! k) = j" "st_ConnectionID (tr_states t ! ref) = i"
    by (rule tracker_okD(2) [OF assms(1) Some] tracker_okD(2) [OF assms])+
  then have jk: "k = ref \<Longrightarrow> j = i" by simp
  have kj: "j = i \<Longrightarrow> k = ref" using Some assms(2) by simp
  have ref: "ref < length (tr_states t)" by (rule tracker_okD(1) [OF assms])
  show ?thesis
  proof (cases "k = ref")
    case True
    then show ?thesis using Some jk ref by (simp add: Get_def touch_def)
  next
    case False
    then have "j \<noteq> i" using kj by blast
    with False show ?thesis using Some by (simp add: Get_def touch_def)
  qed
qed

lemma Get_UpdateActivity:
  assumes "tracker_ok t"
  shows "Get j (UpdateActivity now i t) =
    (if j = i then map_option (\<lambda>s. s\<lparr>st_LastActivity := now\<rparr>) (Get j t) else Get j t)"
proof (cases "tr_connections t i")
  case None
  then show ?thesis by (simp add: UpdateActivity_def Get_def)
next
  case (Some ref)
  then show ?thesis by (simp add: UpdateActivity_def Get_touch [OF assms Some])
qed

lemma Get_Cleanup:
  assumes "range_order (tr_connections t) order"
  shows "Get i (fst (Cleanup now m order t)) =
    (case Get i t of
       None \<Rightarrow> None
     | Some s \<Rightarrow> if time_sub now (st_LastActivity s) > m then None else Some s)"
  using assms tracker_table.cleanup_entry [of t order now m i]
  by (auto simp: Get_def Cleanup_def Cleanup_loop_spec range_order_def split: option.splits)

lemma DeliverResponse_cases:
  "DeliverResponse now os_ok i data t =
    (case Get i t of
       None \<Rightarrow> (t, Inl (NoSuchConnection i))
     | Some s \<Rightarrow> (UpdateActivity now i t,
         if os_ok \<and> st_LocalConn s \<notin> set (tr_closed t) then Inr (st_LocalConn s, data)
         else Inl (WriteFailed (st_ConnectionID s))))"
  by (auto simp: DeliverResponse_def DeliverResponse_lookup_def DeliverResponse_write_def Get_def
    UpdateActivity_def Let_def touch_field [of st_LocalConn] touch_field [of st_ConnectionID]
    split: option.split)

section \<open>Properties\<close>

text \<open>The tracker is a map from identifiers to connection states. Tracking an identifier
  replaces whatever it had, removing it forgets it, updating touches its activity time alone,
  and no operation changes what another identifier has.\<close>

theorem tracker_is_map:
  assumes "tracker_ok t"
  shows "Get j (Track now i d c t) =
      (if j = i then Some \<lparr>st_ConnectionID = i, st_OriginalDest = d, st_LocalConn = c,
         st_CreatedAt = now, st_LastActivity = now\<rparr> else Get j t) \<and>
    Get j (Remove i t) = (if j = i then None else Get j t) \<and>
    Get j (UpdateActivity now i t) =
      (if j = i then map_option (\<lambda>s. s\<lparr>st_LastActivity := now\<rparr>) (Get j t) else Get j t) \<and>
    tracker_ok (Track now i d c t) \<and> tracker_ok (Remove i t) \<and> tracker_ok (UpdateActivity now i t)"
  using assms by (simp add: Get_Track Get_Remove Get_UpdateActivity tracker_ok_Track tracker_ok_Remove
    tracker_ok_Update)

definition sample_tracker :: tracker where
  "sample_tracker = Track 10 ''y'' ''10.0.0.2:80'' 8 (Track 5 ''x'' ''10.0.0.1:80'' 7 NewConnectionTracker)"

lemma sample_tracker_ok: "tracker_ok sample_tracker"
  by (simp add: sample_tracker_def tracker_ok_Track tracker_ok_new)

theorem tracker_is_map_witness:
  "Get ''x'' (Remove ''y'' sample_tracker) = Get ''x'' sample_tracker"
  using tracker_is_map [OF sample_tracker_ok, of "''x''" 0 "''y''"] by simp

text \<open>A cleanup, in whatever order the runtime ranges over the table, removes exactly the
  connections idle for longer than the limit, closes exactly their local connections, and
  returns their number.\<close>

theorem tracker_cleanup:
  assumes "range_order (tr_connections t) order"
  shows "Get i (fst (Cleanup now m order t)) =
      (case Get i t of
         None \<Rightarrow> None
       | Some s \<Rightarrow> if time_sub now (st_LastActivity s) > m then None else Some s) \<and>
    set (tr_closed (fst (Cleanup now m order t))) = set (tr_closed t) \<union>
      {st_LocalConn s | s i. Get i t = Some s \<and> time_sub now (st_LastActivity s) > m} \<and>
    snd (Cleanup now m order t) =
      card {i. \<exists>s. Get i t = Some s \<and> time_sub now (st_LastActivity s) > m}"
proof -
  have d: "distinct order" "set order = dom (tr_connections t)"
    using assms by (simp_all add: range_order_def)
  have idle: "idle_in now m t i \<longleftrightarrow> (\<exists>s. Get i t = Some s \<and> time_sub now (st_LastActivity s) > m)" for i
    by (auto simp: idle_in_def Get_def split: option.splits)
  have in_order: "i \<in> set order" if "idle_in now m t i" for i
    using that d(2) by (auto simp: idle_in_def split: option.splits)
  have local: "local_of t i = st_LocalConn s" if "Get i t = Some s" for i s
    using that by (auto simp: local_of_def Get_def)
  note eff = Cleanup_loop_effects [OF d(1), of now m 0 t]
  have "set (filter (idle_in now m t) order) = {i. \<exists>s. Get i t = Some s \<and> time_sub now (st_LastActivity s) > m}"
    using in_order by (auto simp: idle)
  then have n: "snd (Cleanup now m order t) =
      card {i. \<exists>s. Get i t = Some s \<and> time_sub now (st_LastActivity s) > m}"
    using eff d(1) distinct_card [of "filter (idle_in now m t) order"] by (simp add: Cleanup_def)
  have "set (tr_closed (fst (Cleanup now m order t))) = set (tr_closed t) \<union>
      local_of t ` {i \<in> set order. idle_in now m t i}"
    using eff by (auto simp: Cleanup_def)
  also have "local_of t ` {i \<in> set order. idle_in now m t i} =
      {st_LocalConn s | s i. Get i t = Some s \<and> time_sub now (st_LastActivity s) > m}"
    using in_order local by (auto simp: idle image_iff) metis
  finally show ?thesis using n Get_Cleanup [OF assms] by blast
qed

theorem tracker_cleanup_witness:
  "Get ''x'' (fst (Cleanup 20 12 [''y'', ''x''] sample_tracker)) = None \<and>
   Get ''y'' (fst (Cleanup 20 12 [''y'', ''x''] sample_tracker)) \<noteq> None"
proof -
  have o: "range_order (tr_connections sample_tracker) [''y'', ''x'']"
    by (auto simp: range_order_def sample_tracker_def Track_def NewConnectionTracker_def split: if_splits)
  have "Get ''x'' sample_tracker = Some \<lparr>st_ConnectionID = ''x'', st_OriginalDest = ''10.0.0.1:80'',
      st_LocalConn = 7, st_CreatedAt = 5, st_LastActivity = 5\<rparr>"
    "Get ''y'' sample_tracker = Some \<lparr>st_ConnectionID = ''y'', st_OriginalDest = ''10.0.0.2:80'',
      st_LocalConn = 8, st_CreatedAt = 10, st_LastActivity = 10\<rparr>"
    by (simp_all add: sample_tracker_def Get_Track tracker_ok_Track tracker_ok_new)
  then show ?thesis
    using tracker_cleanup [OF o, of "''x''" 20 12] tracker_cleanup [OF o, of "''y''" 20 12]
    by (simp add: time_sub_def max_duration_def min_duration_def)
qed

end
