(* ===== verification/OriginalDst.thy ===== *)
theory OriginalDst
  imports GoNet
begin

text \<open>
  \<open>pkg/network/original_dst.go\<close> and its stub for other systems: the destination a redirected
  connection was made to. What the operating system says of a connection is data of the
  connection: whether it is a TCP connection, whether its file can be taken, and what
  \<open>getsockopt\<close> stores for the IPv4 and the IPv6 option (\<open>None\<close> for an error number). The
  port field of a stored address is the 16 bit word the program reads.
\<close>

record sockaddr =
  sa_Port :: u16
  sa_Addr :: "byte list"

record net_conn =
  cn_TCP :: bool
  cn_File :: bool
  cn_OriginalDst4 :: "sockaddr option"
  cn_OriginalDst6 :: "sockaddr option"
  cn_LocalAddr :: string
  cn_RemoteAddr :: string

datatype dest_error =
    NotTCP
  | NoConnectionFile
  | GetsockoptFailed
  | GetsockoptFailed6
  | NoOriginalDestination
  | BadAddress string
  | InvalidIP string
  | InvalidPort string
  | NotSupported

text \<open>The swap of the two bytes of the port field.\<close>

definition swap_port :: "u16 \<Rightarrow> u16" where
  "swap_port p = drop_bit 8 p OR push_bit 8 (p AND 0xff)"

definition GetOriginalDest :: "net_conn \<Rightarrow> (dest_error, string) outcome" where
  "GetOriginalDest c =
     (if \<not> cn_TCP c then Err NotTCP
      else if \<not> cn_File c then Err NoConnectionFile
      else case cn_OriginalDst4 c of
             None \<Rightarrow> Err GetsockoptFailed
           | Some addr \<Rightarrow>
               let ip = v4_mapped (sa_Addr addr); port = swap_port (sa_Port addr)
               in Ok (join_host_port (ip_string ip) (dec (unat port))))"

definition GetOriginalDestIPv6 :: "net_conn \<Rightarrow> (dest_error, string) outcome" where
  "GetOriginalDestIPv6 c =
     (if \<not> cn_TCP c then Err NotTCP
      else if \<not> cn_File c then Err NoConnectionFile
      else case cn_OriginalDst6 c of
             None \<Rightarrow> Err GetsockoptFailed6
           | Some addr \<Rightarrow>
               let ip = sa_Addr addr; port = swap_port (sa_Port addr)
               in Ok (join_host_port (ip_string ip) (dec (unat port))))"

definition GetOriginalDestAuto :: "net_conn \<Rightarrow> (dest_error, string) outcome" where
  "GetOriginalDestAuto c =
     (case GetOriginalDest c of
        Ok dest \<Rightarrow> Ok dest
      | _ \<Rightarrow> (case GetOriginalDestIPv6 c of
                Ok dest \<Rightarrow> Ok dest
              | _ \<Rightarrow> Err NoOriginalDestination))"

definition GetOriginalDestIP :: "net_conn \<Rightarrow> (dest_error, ip) outcome" where
  "GetOriginalDestIP c =
     (case GetOriginalDest c of
        Err e \<Rightarrow> Err e
      | Panic \<Rightarrow> Panic
      | Ok addrStr \<Rightarrow>
          (case split_host_port addrStr of
             None \<Rightarrow> Err (BadAddress addrStr)
           | Some (host, _) \<Rightarrow>
               let ip = parse_ip host in if ip = [] then Err (InvalidIP host) else Ok ip))"

text \<open>\<open>fmt.Sscanf(s, "%d", &port)\<close> for a \<open>uint16\<close>: blanks, then digits; what follows is left.\<close>

definition is_blank :: "char \<Rightarrow> bool" where
  "is_blank c \<longleftrightarrow> (of_char c :: nat) \<in> {9, 11, 12, 13, 32}"

definition sscanf_u16 :: "string \<Rightarrow> u16 option" where
  "sscanf_u16 s =
     (let ds = takeWhile is_digit (dropWhile is_blank s) in
      if ds = [] \<or> dec_val ds > 65535 then None else Some (of_nat (dec_val ds)))"

definition GetOriginalDestPort :: "net_conn \<Rightarrow> (dest_error, u16) outcome" where
  "GetOriginalDestPort c =
     (case GetOriginalDest c of
        Err e \<Rightarrow> Err e
      | Panic \<Rightarrow> Panic
      | Ok addrStr \<Rightarrow>
          (case split_host_port addrStr of
             None \<Rightarrow> Err (BadAddress addrStr)
           | Some (_, portStr) \<Rightarrow>
               (case sscanf_u16 portStr of None \<Rightarrow> Err (InvalidPort portStr) | Some p \<Rightarrow> Ok p)))"

definition IsRedirectedConnection :: "net_conn \<Rightarrow> bool" where
  "IsRedirectedConnection c =
     (case GetOriginalDest c of
        Ok originalDest \<Rightarrow> originalDest \<noteq> cn_LocalAddr c
      | _ \<Rightarrow> False)"

text \<open>The stub for systems other than Linux.\<close>

definition GetOriginalDest_stub :: "net_conn \<Rightarrow> (dest_error, string) outcome" where
  "GetOriginalDest_stub c = Err NotSupported"

definition GetOriginalDestIPv6_stub :: "net_conn \<Rightarrow> (dest_error, string) outcome" where
  "GetOriginalDestIPv6_stub c = Err NotSupported"

definition GetOriginalDestAuto_stub :: "net_conn \<Rightarrow> (dest_error, string) outcome" where
  "GetOriginalDestAuto_stub c = Err NotSupported"

definition GetOriginalDestIP_stub :: "net_conn \<Rightarrow> (dest_error, ip) outcome" where
  "GetOriginalDestIP_stub c = Err NotSupported"

definition GetOriginalDestPort_stub :: "net_conn \<Rightarrow> (dest_error, u16) outcome" where
  "GetOriginalDestPort_stub c = Err NotSupported"

definition IsRedirectedConnection_stub :: "net_conn \<Rightarrow> bool" where
  "IsRedirectedConnection_stub c = False"

section \<open>Lemmas\<close>

text \<open>The two bytes of the port, in network order, as a little-endian machine loads them.\<close>

lemma swap_port_be16: "swap_port (be16 l h) = be16 h l"
proof -
  have "p AND 0xff = take_bit 8 p" for p :: u16
    by (simp add: take_bit_eq_mask mask_eq_exp_minus_1)
  then show ?thesis
    unfolding swap_port_def be16_def
    by (intro bit_word_eqI) (auto simp: bit_simps dest: bit_imp_le_length)
qed

lemma GetOriginalDest_ok:
  "cn_TCP c \<Longrightarrow> cn_File c \<Longrightarrow> cn_OriginalDst4 c = Some \<lparr>sa_Port = be16 l h, sa_Addr = a\<rparr> \<Longrightarrow> length a = 4 \<Longrightarrow>
   GetOriginalDest c = Ok (join_host_port (v4_string a) (dec (unat (be16 h l))))"
  by (cases "a = []") (simp_all add: GetOriginalDest_def swap_port_be16 ip_string_v4)

lemma GetOriginalDestAuto_ok:
  "GetOriginalDest c = Ok d \<Longrightarrow> GetOriginalDestAuto c = Ok d"
  by (simp add: GetOriginalDestAuto_def)

text \<open>What a string of digits joined to an address is split into again.\<close>

lemma split_v4_port: "split_host_port (join_host_port (v4_string a) (dec n)) = Some (v4_string a, dec n)"
  by (rule split_join_host_port) simp_all

lemma sscanf_u16_dec: "n \<le> 65535 \<Longrightarrow> sscanf_u16 (dec n) = Some (of_nat n)"
proof -
  assume n: "n \<le> 65535"
  have "dropWhile is_blank (dec n) = dec n"
    using dec_digits [of n] dec_nonempty [of n]
    by (cases "dec n") (auto simp: is_blank_def is_digit_def)
  moreover have "takeWhile is_digit (dec n) = dec n"
    using dec_digits [of n] by simp
  ultimately show ?thesis using n by (simp add: sscanf_u16_def Let_def del: takeWhile_eq_all_conv)
qed

section \<open>Properties\<close>

text \<open>A redirected IPv4 connection. From the address and the two port bytes the kernel stores,
  in network order, the string, the address and the port that the three functions return are
  those of the original destination; the automatic variant returns the same string.\<close>

theorem original_dest_recovered:
  assumes "cn_TCP c" "cn_File c" "cn_OriginalDst4 c = Some \<lparr>sa_Port = be16 l h, sa_Addr = a\<rparr>" "length a = 4"
  shows "GetOriginalDestAuto c = Ok (join_host_port (v4_string a) (dec (unat (be16 h l)))) \<and>
    GetOriginalDestIP c = Ok (v4_mapped a) \<and> GetOriginalDestPort c = Ok (be16 h l)"
proof -
  note d = GetOriginalDest_ok [OF assms]
  have "v4_mapped a \<noteq> []" by (simp add: v4_mapped_def v4_in_v6_prefix_def)
  moreover have "sscanf_u16 (dec (unat (be16 h l))) = Some (be16 h l)"
    using sscanf_u16_dec [OF unat_u16_le] by (metis of_nat_unat ucast_id)
  ultimately show ?thesis
    using assms(4) by (simp add: GetOriginalDestAuto_ok [OF d] GetOriginalDestIP_def GetOriginalDestPort_def
      d split_v4_port parse_ip_v4_string)
qed

definition sample_conn :: net_conn where
  "sample_conn = \<lparr>cn_TCP = True, cn_File = True,
     cn_OriginalDst4 = Some \<lparr>sa_Port = be16 0xbb 0x01, sa_Addr = [192, 168, 1, 10]\<rparr>,
     cn_OriginalDst6 = None, cn_LocalAddr = ''127.0.0.1:9999'', cn_RemoteAddr = ''10.0.0.5:40000''\<rparr>"

theorem original_dest_recovered_witness:
  "GetOriginalDestPort sample_conn = Ok 443"
  using original_dest_recovered [of sample_conn "0xbb" "0x01" "[192, 168, 1, 10]"]
  by (simp add: sample_conn_def) (simp add: be16_def)

text \<open>The automatic variant tries IPv4 first and IPv6 only when that fails, and its only error
  is that both failed; on a system without the socket option every function is an error.\<close>

theorem original_dest_auto_cases:
  "GetOriginalDestAuto c =
     (if is_ok (GetOriginalDest c) then GetOriginalDest c
      else if is_ok (GetOriginalDestIPv6 c) then GetOriginalDestIPv6 c
      else Err NoOriginalDestination) \<and>
   (is_ok (GetOriginalDest c) \<longleftrightarrow> cn_TCP c \<and> cn_File c \<and> (\<exists>a. cn_OriginalDst4 c = Some a)) \<and>
   (is_ok (GetOriginalDestIPv6 c) \<longleftrightarrow> cn_TCP c \<and> cn_File c \<and> (\<exists>a. cn_OriginalDst6 c = Some a)) \<and>
   \<not> is_ok (GetOriginalDestAuto_stub c)"
  by (auto simp: GetOriginalDestAuto_def GetOriginalDest_def GetOriginalDestIPv6_def Let_def
    GetOriginalDestAuto_stub_def split: option.split)

end
