(* ===== verification/Sha256.thy ===== *)
theory Sha256
  imports Prelude
begin

text \<open>
  SHA-256 (FIPS 180-4), which \<open>crypto/sha256\<close> of Go's standard library computes and the
  connection identifiers are made of. Only its shape matters to the proofs: a function of
  the written bytes that returns 32 bytes. The definition is executable.
\<close>

text \<open>
  The constants are the first 32 bits of the fractional parts of the roots of the first primes:
  \<open>iroot_loop\<close> finds the largest number of \<open>b\<close> further bits whose \<open>k\<close>-th power is at
  most \<open>n\<close>, and the cast to a word drops the integer part.
\<close>

definition first_primes :: "nat \<Rightarrow> nat list" where
  "first_primes n = take n (filter (\<lambda>p. list_all (\<lambda>d. p mod d \<noteq> 0) [2..<p]) [2..<312])"

fun iroot_loop :: "nat \<Rightarrow> nat \<Rightarrow> nat \<Rightarrow> nat \<Rightarrow> nat" where
  "iroot_loop k n 0 r = r"
| "iroot_loop k n (Suc b) r = iroot_loop k n b (if (r + 2 ^ b) ^ k \<le> n then r + 2 ^ b else r)"

definition root_frac :: "nat \<Rightarrow> nat \<Rightarrow> u32" where
  "root_frac k p = of_nat (iroot_loop k (p * 2 ^ (32 * k)) 40 0)"

definition sha_K :: "u32 list" where
  "sha_K = map (root_frac 3) (first_primes 64)"

definition sha_H0 :: "u32 list" where
  "sha_H0 = map (root_frac 2) [2, 3, 5, 7, 11, 13, 17, 19]"

definition sha_Ch :: "u32 \<Rightarrow> u32 \<Rightarrow> u32 \<Rightarrow> u32" where
  "sha_Ch x y z = (x AND y) XOR (NOT x AND z)"

definition sha_Maj :: "u32 \<Rightarrow> u32 \<Rightarrow> u32 \<Rightarrow> u32" where
  "sha_Maj x y z = (x AND y) XOR (x AND z) XOR (y AND z)"

definition rotr32 :: "nat \<Rightarrow> u32 \<Rightarrow> u32" where
  "rotr32 n x = drop_bit n x OR push_bit (32 - n) x"

definition sha_S0 :: "u32 \<Rightarrow> u32" where "sha_S0 x = rotr32 2 x XOR rotr32 13 x XOR rotr32 22 x"
definition sha_S1 :: "u32 \<Rightarrow> u32" where "sha_S1 x = rotr32 6 x XOR rotr32 11 x XOR rotr32 25 x"
definition sha_s0 :: "u32 \<Rightarrow> u32" where "sha_s0 x = rotr32 7 x XOR rotr32 18 x XOR drop_bit 3 x"
definition sha_s1 :: "u32 \<Rightarrow> u32" where "sha_s1 x = rotr32 17 x XOR rotr32 19 x XOR drop_bit 10 x"

text \<open>Padding: the bit 1, zeros, and the length in bits as a 64-bit big-endian number.\<close>

definition sha_pad :: "byte list \<Rightarrow> byte list" where
  "sha_pad m =
     m @ [0x80] @ replicate ((119 - length m mod 64) mod 64) 0 @
     map (\<lambda>i. of_nat (8 * length m div 256 ^ (7 - i))) [0..<8]"

fun sha_words :: "byte list \<Rightarrow> u32 list" where
  "sha_words (a # b # c # d # bs) = be32 a b c d # sha_words bs"
| "sha_words _ = []"

text \<open>The message schedule, kept newest word first while it grows.\<close>

fun sha_extend :: "nat \<Rightarrow> u32 list \<Rightarrow> u32 list" where
  "sha_extend 0 ws = rev ws"
| "sha_extend (Suc n) ws =
     sha_extend n ((sha_s1 (ws ! 1) + ws ! 6 + sha_s0 (ws ! 14) + ws ! 15) # ws)"

fun sha_round :: "u32 \<times> u32 \<Rightarrow> u32 list \<Rightarrow> u32 list" where
  "sha_round (k, w) [a, b, c, d, e, f, g, h] =
     (let t1 = h + sha_S1 e + sha_Ch e f g + k + w; t2 = sha_S0 a + sha_Maj a b c
      in [t1 + t2, a, b, c, d + t1, e, f, g])"
| "sha_round _ s = s"

definition sha_block :: "u32 list \<Rightarrow> u32 list \<Rightarrow> u32 list" where
  "sha_block hs ws = map2 (+) hs (fold sha_round (zip sha_K (sha_extend 48 (rev ws))) hs)"

fun sha_blocks :: "nat \<Rightarrow> u32 list \<Rightarrow> u32 list \<Rightarrow> u32 list" where
  "sha_blocks 0 hs ws = hs"
| "sha_blocks (Suc n) hs ws = sha_blocks n (sha_block hs (take 16 ws)) (drop 16 ws)"

definition sha256 :: "byte list \<Rightarrow> byte list" where
  "sha256 m =
     (let ws = sha_words (sha_pad m); hs = sha_blocks (length ws div 16) sha_H0 ws
      in concat (map (\<lambda>w. [b32 24 w, b32 16 w, b32 8 w, b32 0 w]) hs))"

section \<open>A digest has 32 bytes\<close>

lemma length_sha_round [simp]: "length (sha_round kw s) = length s"
  by (induction kw s rule: sha_round.induct) (simp_all add: Let_def)

lemma length_fold_sha_round [simp]: "length (fold sha_round kws s) = length s"
  by (induction kws arbitrary: s) simp_all

lemma length_sha_block [simp]: "length (sha_block hs ws) = length hs"
  by (simp add: sha_block_def)

lemma length_sha_blocks [simp]: "length (sha_blocks n hs ws) = length hs"
  by (induction n arbitrary: hs ws) simp_all

lemma length_concat_quads: "length (concat (map (\<lambda>w. [f w, g w, h w, k w]) xs)) = 4 * length xs"
  by (induction xs) simp_all

lemma length_sha256 [simp]: "length (sha256 m) = 32"
  by (simp add: sha256_def Let_def length_concat_quads) (simp add: sha_H0_def)

end
