(* ===== verification/Connection.thy ===== *)
theory Connection
  imports Packet Sha256
begin

text \<open>
  \<open>pkg/network/connection.go\<close>: connection tuples and the connection identifier both endpoints
  of the tunnel compute on their own. The lemmas show that \<open>compareIPs\<close> orders addresses,
  that the bytes hashed for an identifier do not depend on the direction and determine the
  two endpoints, and so what an equal identifier means.
\<close>

section \<open>Data and operations\<close>

record connection_tuple =
  ctSrcIP :: ip
  ctSrcPort :: u16
  ctDstIP :: ip
  ctDstPort :: u16

definition NewConnectionTuple :: "ip \<Rightarrow> u16 \<Rightarrow> ip \<Rightarrow> u16 \<Rightarrow> connection_tuple" where
  "NewConnectionTuple srcIP srcPort dstIP dstPort =
     \<lparr>ctSrcIP = srcIP, ctSrcPort = srcPort, ctDstIP = dstIP, ctDstPort = dstPort\<rparr>"

definition NewConnectionTupleFromPacket ::
  "ip_packet \<Rightarrow> (parse_error, connection_tuple) outcome" where
  "NewConnectionTupleFromPacket p =
     (if Protocol p \<noteq> ProtocolTCP \<and> Protocol p \<noteq> ProtocolUDP then Err (UnsupportedProtocol (Protocol p))
      else if length (Payload p) < 4 then Err PayloadTooSmallForPorts
      else Ok \<lparr>ctSrcIP = SrcIP p, ctSrcPort = get_be16 (Payload p) 0,
               ctDstIP = DstIP p, ctDstPort = get_be16 (Payload p) 2\<rparr>)"

definition tuple_String :: "connection_tuple \<Rightarrow> string" where
  "tuple_String ft =
     ip_string (ctSrcIP ft) @ '':'' @ dec (unat (ctSrcPort ft)) @ '' -> '' @
     ip_string (ctDstIP ft) @ '':'' @ dec (unat (ctDstPort ft))"

definition Reverse :: "connection_tuple \<Rightarrow> connection_tuple" where
  "Reverse ft = \<lparr>ctSrcIP = ctDstIP ft, ctSrcPort = ctDstPort ft,
                 ctDstIP = ctSrcIP ft, ctDstPort = ctSrcPort ft\<rparr>"

record endpoint =
  ep_ip :: ip
  ep_port :: u16

fun compare_loop :: "byte list \<Rightarrow> byte list \<Rightarrow> int" where
  "compare_loop (x # a) (y # b) = (if x < y then -1 else if x > y then 1 else compare_loop a b)"
| "compare_loop _ _ = 0"

definition compareIPs :: "ip \<Rightarrow> ip \<Rightarrow> int" where
  "compareIPs a b =
     (if length a < length b then -1
      else if length a > length b then 1
      else compare_loop a b)"

text \<open>The bytes written to the hasher, in the order of the writes.\<close>

definition id_preimage :: "ip \<Rightarrow> u16 \<Rightarrow> ip \<Rightarrow> u16 \<Rightarrow> byte list" where
  "id_preimage srcIP srcPort dstIP dstPort =
     (let (srcIP4, dstIP4) = (to4 srcIP, to4 dstIP);
          (srcIP4, dstIP4) = (if srcIP4 = [] \<or> dstIP4 = [] then (srcIP, dstIP) else (srcIP4, dstIP4));
          (ep1, ep2) = (\<lparr>ep_ip = srcIP4, ep_port = srcPort\<rparr>, \<lparr>ep_ip = dstIP4, ep_port = dstPort\<rparr>);
          cmp = compareIPs (ep_ip ep1) (ep_ip ep2);
          (ep1, ep2) = (if cmp > 0 \<or> cmp = 0 \<and> ep_port ep1 > ep_port ep2 then (ep2, ep1) else (ep1, ep2))
      in ep_ip ep1 @ put_be16 0 (ep_port ep1) [0, 0] @ ep_ip ep2 @ put_be16 0 (ep_port ep2) [0, 0])"

definition GenerateConnectionID :: "ip \<Rightarrow> u16 \<Rightarrow> ip \<Rightarrow> u16 \<Rightarrow> string" where
  "GenerateConnectionID srcIP srcPort dstIP dstPort =
     hex_bytes (take 16 (sha256 (id_preimage srcIP srcPort dstIP dstPort)))"

definition GenerateConnectionIDFromTuple :: "connection_tuple \<Rightarrow> string" where
  "GenerateConnectionIDFromTuple ft =
     GenerateConnectionID (ctSrcIP ft) (ctSrcPort ft) (ctDstIP ft) (ctDstPort ft)"

definition GenerateConnectionIDFromPacket :: "ip_packet \<Rightarrow> (parse_error, string) outcome" where
  "GenerateConnectionIDFromPacket p =
     map_ok GenerateConnectionIDFromTuple (NewConnectionTupleFromPacket p)"

section \<open>The order on addresses\<close>

lemma compare_loop_values: "compare_loop a b \<in> {-1, 0, 1}"
  by (induction a b rule: compare_loop.induct) auto

lemma compare_loop_swap: "compare_loop b a = - compare_loop a b"
  by (induction a b rule: compare_loop.induct) auto

lemma compare_loop_0: "length a = length b \<Longrightarrow> compare_loop a b = 0 \<longleftrightarrow> a = b"
  by (induction a b rule: compare_loop.induct) auto

lemma compareIPs_swap: "compareIPs b a = - compareIPs a b"
  using compare_loop_swap [of b a] by (auto simp: compareIPs_def)

lemma compareIPs_0 [simp]: "compareIPs a b = 0 \<longleftrightarrow> a = b"
  using compare_loop_0 [of a b] by (auto simp: compareIPs_def)

lemma compare_loop_trans:
  "length a = length b \<Longrightarrow> length b = length c \<Longrightarrow> compare_loop a b \<le> 0 \<Longrightarrow> compare_loop b c \<le> 0 \<Longrightarrow>
   compare_loop a c \<le> 0"
proof (induction a b arbitrary: c rule: compare_loop.induct)
  case (1 x a y b)
  then obtain z c' where "c = z # c'" by (cases c) auto
  with 1 show ?case by (auto split: if_splits)
qed (auto simp: length_0_conv)

lemma compareIPs_trans: "compareIPs a b \<le> 0 \<Longrightarrow> compareIPs b c \<le> 0 \<Longrightarrow> compareIPs a c \<le> 0"
  using compare_loop_trans [of a b c] by (auto simp: compareIPs_def split: if_splits)

section \<open>The hashed bytes\<close>

text \<open>The pair of endpoints, in the order the code picks.\<close>

definition id_ips :: "ip \<Rightarrow> ip \<Rightarrow> ip \<times> ip" where
  "id_ips src dst = (if to4 src = [] \<or> to4 dst = [] then (src, dst) else (to4 src, to4 dst))"

definition ep_bytes :: "ip \<times> u16 \<Rightarrow> byte list" where
  "ep_bytes e = fst e @ [hi8 (snd e), lo8 (snd e)]"

definition ep_le :: "ip \<times> u16 \<Rightarrow> ip \<times> u16 \<Rightarrow> bool" where
  "ep_le e f \<longleftrightarrow> \<not> (compareIPs (fst e) (fst f) > 0 \<or>
     compareIPs (fst e) (fst f) = 0 \<and> snd e > snd f)"

lemma ep_le_linear: "ep_le e f \<or> ep_le f e"
  using compareIPs_swap [of "fst e" "fst f"] by (auto simp: ep_le_def simp del: compareIPs_0)

lemma ep_le_antisym: "ep_le e f \<Longrightarrow> ep_le f e \<Longrightarrow> e = f"
proof -
  assume "ep_le e f" "ep_le f e"
  then have "compareIPs (fst e) (fst f) = 0" and "snd e = snd f"
    using compareIPs_swap [of "fst e" "fst f"] by (auto simp: ep_le_def simp del: compareIPs_0)
  then show ?thesis by (simp add: prod_eq_iff)
qed

lemma id_preimage_sorted:
  "id_preimage src sp dst dp =
    (let e = (fst (id_ips src dst), sp); f = (snd (id_ips src dst), dp)
     in if ep_le e f then ep_bytes e @ ep_bytes f else ep_bytes f @ ep_bytes e)"
proof -
  obtain a b where ab: "id_ips src dst = (a, b)" by force
  have ips: "(if to4 src = [] \<or> to4 dst = [] then (src, dst) else (to4 src, to4 dst)) = (a, b)"
    using ab by (simp only: id_ips_def)
  show ?thesis
    unfolding id_preimage_def Let_def case_prod_conv ips ab fst_conv snd_conv ep_le_def
    by (simp add: ep_bytes_def put_be16_def del: compareIPs_0)
qed

lemma id_ips_swap: "id_ips dst src = prod.swap (id_ips src dst)"
  by (simp add: id_ips_def)

lemma id_preimage_swap: "id_preimage dst dp src sp = id_preimage src sp dst dp"
proof -
  let ?e = "(fst (id_ips src dst), sp)" and ?f = "(snd (id_ips src dst), dp)"
  have "?e = ?f" if "ep_le ?e ?f" "ep_le ?f ?e" using ep_le_antisym that by blast
  moreover have "ep_le ?e ?f \<or> ep_le ?f ?e" by (rule ep_le_linear)
  ultimately show ?thesis
    unfolding id_preimage_sorted id_ips_swap [of dst src] Let_def fst_swap snd_swap by auto
qed

text \<open>Hashed bytes of the same layout determine the two endpoints, up to their order.\<close>

lemma ep_bytes_append_inject:
  "length (fst e) = length (fst e') \<Longrightarrow> ep_bytes e @ xs = ep_bytes e' @ ys \<longleftrightarrow> e = e' \<and> xs = ys"
  by (auto simp: ep_bytes_def prod_eq_iff dest: hi8_lo8_inject)

lemma id_preimage_inject:
  assumes len: "length a = n" "length b = n" "length c = n" "length d = n"
    and ips: "id_ips src dst = (a, b)" "id_ips src' dst' = (c, d)"
  shows "id_preimage src sp dst dp = id_preimage src' sp' dst' dp' \<longleftrightarrow>
    (a, sp) = (c, sp') \<and> (b, dp) = (d, dp') \<or> (a, sp) = (d, dp') \<and> (b, dp) = (c, sp')"
    (is "?L \<longleftrightarrow> ?R")
proof
  have inj: "ep_bytes e @ ep_bytes f = ep_bytes e' @ ep_bytes f' \<longleftrightarrow> e = e' \<and> f = f'"
    if "length (fst e) = n" "length (fst f) = n" "length (fst e') = n" "length (fst f') = n" for e f e' f'
    using that ep_bytes_append_inject [of e e'] ep_bytes_append_inject [of f f' "[]" "[]"] by simp
  show "?L \<Longrightarrow> ?R"
    using len unfolding id_preimage_sorted ips Let_def fst_conv snd_conv
    by (auto simp: inj split: if_splits)
  show "?R \<Longrightarrow> ?L"
  proof (elim disjE)
    assume "(a, sp) = (c, sp') \<and> (b, dp) = (d, dp')"
    then show ?L by (simp only: id_preimage_sorted ips prod.inject)
  next
    assume R: "(a, sp) = (d, dp') \<and> (b, dp) = (c, sp')"
    have "id_preimage src' sp' dst' dp' = id_preimage dst' dp' src' sp'"
      by (rule id_preimage_swap)
    then show ?L using R
      by (simp add: id_preimage_sorted [of src] id_preimage_sorted [of dst'] ips id_ips_swap [of dst'])
  qed
qed

lemma id_ips_v4: "to4 src \<noteq> [] \<Longrightarrow> to4 dst \<noteq> [] \<Longrightarrow> id_ips src dst = (to4 src, to4 dst)"
  by (simp add: id_ips_def)

lemma length_id: "length (GenerateConnectionID src sp dst dp) = 32"
  by (simp add: GenerateConnectionID_def length_sha256)

lemma id_preimage_v4:
  assumes "to4 src \<noteq> []" "to4 dst \<noteq> []" "to4 src' \<noteq> []" "to4 dst' \<noteq> []"
  shows "id_preimage src sp dst dp = id_preimage src' sp' dst' dp' \<longleftrightarrow>
    to4 src = to4 src' \<and> sp = sp' \<and> to4 dst = to4 dst' \<and> dp = dp' \<or>
    to4 src = to4 dst' \<and> sp = dp' \<and> to4 dst = to4 src' \<and> dp = sp'"
proof -
  have len: "length (to4 ip) = 4" if "to4 ip \<noteq> []" for ip using that length_to4 by blast
  show ?thesis
    using id_preimage_inject [OF len len len len id_ips_v4 id_ips_v4, OF assms assms] by blast
qed

section \<open>Properties\<close>

text \<open>An identifier is the same for both directions of a connection, whatever the addresses,
  so the client and the proxy agree on it, and it is always 32 hexadecimal characters.\<close>

theorem connection_id_symmetric:
  "GenerateConnectionID dst dp src sp = GenerateConnectionID src sp dst dp \<and>
   GenerateConnectionIDFromTuple (Reverse ft) = GenerateConnectionIDFromTuple ft \<and>
   length (GenerateConnectionID src sp dst dp) = 32 \<and>
   set (GenerateConnectionID src sp dst dp) \<subseteq> {c. is_hex_char c}"
  using length_id hex_bytes_chars
  by (auto simp: GenerateConnectionID_def GenerateConnectionIDFromTuple_def Reverse_def
    id_preimage_swap [of dst dp src sp] id_preimage_swap [of "ctDstIP ft"])

text \<open>C11: two IPv4 connections have the same identifier exactly when they join the same two
  endpoints, in either direction and whichever of the 4 and 16 byte forms each address has, or
  when the two different 12 byte messages collide in the first 128 bits of SHA-256.\<close>

theorem connection_id_identifies:
  assumes "to4 src \<noteq> []" "to4 dst \<noteq> []" "to4 src' \<noteq> []" "to4 dst' \<noteq> []"
  shows "GenerateConnectionID src sp dst dp = GenerateConnectionID src' sp' dst' dp' \<longleftrightarrow>
    to4 src = to4 src' \<and> sp = sp' \<and> to4 dst = to4 dst' \<and> dp = dp' \<or>
    to4 src = to4 dst' \<and> sp = dp' \<and> to4 dst = to4 src' \<and> dp = sp' \<or>
    id_preimage src sp dst dp \<noteq> id_preimage src' sp' dst' dp' \<and>
    take 16 (sha256 (id_preimage src sp dst dp)) = take 16 (sha256 (id_preimage src' sp' dst' dp'))"
  unfolding GenerateConnectionID_def hex_bytes_inject using id_preimage_v4 [OF assms] by metis

theorem connection_id_identifies_witness:
  "GenerateConnectionID [10, 0, 0, 1] 4242 (v4_mapped [10, 0, 0, 2]) 80 =
   GenerateConnectionID [10, 0, 0, 2] 80 (v4_mapped [10, 0, 0, 1]) 4242"
  using connection_id_identifies [of "[10, 0, 0, 1]" "v4_mapped [10, 0, 0, 2]" "[10, 0, 0, 2]"
    "v4_mapped [10, 0, 0, 1]" 4242 80 80 4242] by simp

text \<open>The identifier of a parsed packet. It is computed exactly for TCP and UDP packets with
  at least four payload bytes, is an error otherwise and never a panic. Swapping the addresses
  and the two ports of a packet, with any further payload, gives the same identifier.\<close>

theorem packet_id_outcomes:
  "((\<exists>s. GenerateConnectionIDFromPacket p = Ok s) \<longleftrightarrow>
     (Protocol p = ProtocolTCP \<or> Protocol p = ProtocolUDP) \<and> 4 \<le> length (Payload p)) \<and>
   GenerateConnectionIDFromPacket p \<noteq> Panic \<and>
   GenerateConnectionIDFromPacket (p\<lparr>SrcIP := x, DstIP := y, Payload := a # b # c # d # rest\<rparr>) =
   GenerateConnectionIDFromPacket (p\<lparr>SrcIP := y, DstIP := x, Payload := c # d # a # b # rest'\<rparr>)"
  using id_preimage_swap [of x "be16 a b" y "be16 c d"]
  by (auto simp: GenerateConnectionIDFromPacket_def NewConnectionTupleFromPacket_def get_be16_def
    GenerateConnectionIDFromTuple_def GenerateConnectionID_def)

end
