(* ===== verification/Client.thy ===== *)
theory Client
  imports Tracker OriginalDst Connection Proto
begin

text \<open>
  \<open>internal/client/handler.go\<close>, \<open>server_conn.go\<close> and the loops of \<open>client.go\<close>: the handlers
  of the redirected local connections, the queue of packets between them and the write loop,
  and the read loop that delivers responses. A run of the client is a sequence of events that
  interleaves the goroutines. A queued packet holds a slice of its handler's read buffer, not
  a copy, so the buffers are a store and a packet's data is what the buffer holds when the
  write loop marshals it. A local connection is named by a number.
\<close>

section \<open>Opening a connection\<close>

datatype handler_state = Rejected | Running | Returned

record handler =
  h_connID :: string
  h_originalDest :: string
  h_srcIP :: ip
  h_srcPort :: u16
  h_dstIP :: ip
  h_dstPort :: u16
  h_state :: handler_state

definition rejected_handler :: handler where
  "rejected_handler = \<lparr>h_connID = '''', h_originalDest = '''', h_srcIP = [], h_srcPort = 0,
     h_dstIP = [], h_dstPort = 0, h_state = Rejected\<rparr>"

text \<open>\<open>LookupPort\<close> consults the services database of the host for a port that is not a number.\<close>

definition parseAddr :: "(string \<Rightarrow> int option) \<Rightarrow> string \<Rightarrow> (string \<times> u16) option" where
  "parseAddr services addr =
     (case split_host_port addr of
        None \<Rightarrow> None
      | Some (host, port) \<Rightarrow>
          (case lookup_port services port of
             None \<Rightarrow> None
           | Some portNum \<Rightarrow> Some (host, of_int portNum)))"

text \<open>What \<open>Handle\<close> does before its loop; \<open>None\<close> where it logs and returns.\<close>

definition Handle_open :: "(string \<Rightarrow> int option) \<Rightarrow> net_conn \<Rightarrow> handler option" where
  "Handle_open services conn =
     (case GetOriginalDestAuto conn of
        Ok originalDest \<Rightarrow>
          (case parseAddr services (cn_RemoteAddr conn) of
             None \<Rightarrow> None
           | Some (srcHost, srcPort) \<Rightarrow>
               (case parseAddr services originalDest of
                  None \<Rightarrow> None
                | Some (dstHost, dstPort) \<Rightarrow>
                    let srcIP = parse_ip srcHost; dstIP = parse_ip dstHost;
                        connID = GenerateConnectionID srcIP srcPort dstIP dstPort
                    in Some \<lparr>h_connID = connID, h_originalDest = originalDest, h_srcIP = srcIP,
                         h_srcPort = srcPort, h_dstIP = dstIP, h_dstPort = dstPort, h_state = Running\<rparr>))
      | _ \<Rightarrow> None)"

section \<open>Packets to the server\<close>

definition handler_tuple :: "handler \<Rightarrow> pb_tuple" where
  "handler_tuple h = \<lparr>SrcIp = ip_string (h_srcIP h), SrcPortN = ucast (h_srcPort h),
     DstIp = ip_string (h_dstIP h), DstPortN = ucast (h_dstPort h)\<rparr>"

text \<open>A packet as the handler builds it: the data are the first \<open>op_len\<close> bytes of a buffer.\<close>

record out_packet =
  op_packet :: packet
  op_buf :: nat
  op_len :: nat

definition handler_packet :: "nat \<Rightarrow> handler \<Rightarrow> int \<Rightarrow> nat \<Rightarrow> out_packet" where
  "handler_packet c h now n =
     \<lparr>op_packet = \<lparr>ConnectionId = h_connID h, Data = [], ConnTuple = Some (handler_tuple h),
        PktProtocol = Protocol_PROTOCOL_TCP, Direction = Direction_DIRECTION_FORWARD, Timestamp = unix_time now\<rparr>,
      op_buf = c, op_len = n\<rparr>"

definition marshal :: "(nat \<Rightarrow> byte list) \<Rightarrow> out_packet \<Rightarrow> packet" where
  "marshal bufs q = (op_packet q)\<lparr>Data := take (op_len q) (bufs (op_buf q))\<rparr>"

definition packetChan_cap :: nat where "packetChan_cap = 100"

section \<open>The client\<close>

text \<open>The read loop is idle or between two parts of \<open>DeliverResponse\<close>. A handler may be between the return of
  \<open>Read\<close> and the select on the channel: \<open>cl_pending\<close> has what it read. The write loop may be between
  the receive from the channel and \<open>Send\<close>: \<open>cl_taken\<close> is the packet, whose data is still a slice of
  the handler's buffer. \<open>cl_written\<close> lists the packets whose data was written whole to a local connection: a
  \<open>Write\<close> that fails part of the way is a failed write here.\<close>

datatype reader_pc = RIdle | RTouch nat packet | RWrite nat packet

record client =
  cl_tracker :: tracker
  cl_handlers :: "nat \<rightharpoonup> handler"
  cl_bufs :: "nat \<Rightarrow> byte list"
  cl_pending :: "nat \<rightharpoonup> byte list"
  cl_queue :: "out_packet list"
  cl_taken :: "out_packet option"
  cl_sent :: "client_message list"
  cl_reader :: reader_pc
  cl_written :: "(nat \<times> packet) list"

definition client_init :: client where
  "client_init = \<lparr>cl_tracker = NewConnectionTracker, cl_handlers = Map.empty,
     cl_bufs = (\<lambda>c. replicate 65535 0), cl_pending = Map.empty, cl_queue = [], cl_taken = None, cl_sent = [],
     cl_reader = RIdle, cl_written = []\<rparr>"

datatype client_event =
    Accept nat net_conn int
  | ReadData nat int "byte list"
  | ReadFills nat "byte list"
  | ReadQueues nat int
  | ReadFails nat
  | WritePacket bool
  | TakePacket
  | SendTaken bool
  | WriteHeartbeat string int bool
  | RecvMsg client_message
  | TouchState int
  | WriteLocal bool
  | ClientCleanup int "string list"

text \<open>A new connection: its handler is rejected, or it is tracked and runs.\<close>

definition accept_conn :: "(string \<Rightarrow> int option) \<Rightarrow> nat \<Rightarrow> net_conn \<Rightarrow> int \<Rightarrow> client \<Rightarrow> client" where
  "accept_conn services c conn now cl =
     (case Handle_open services conn of
        None \<Rightarrow> cl\<lparr>cl_handlers := (cl_handlers cl)(c \<mapsto> rejected_handler),
                   cl_tracker := close_conn c (cl_tracker cl)\<rparr>
      | Some h \<Rightarrow> cl\<lparr>cl_handlers := (cl_handlers cl)(c \<mapsto> h),
                   cl_tracker := Track now (h_connID h) (h_originalDest h) c (cl_tracker cl)\<rparr>)"

text \<open>One round of the handler's loop in which \<open>Read\<close> returns data: it is in the buffer, then the
  activity is updated and the packet sent to the channel, or dropped when the channel is full.
  \<open>handler_read\<close> is the round when nothing comes between its two parts.\<close>

definition fill_buffer :: "nat \<Rightarrow> byte list \<Rightarrow> client \<Rightarrow> client" where
  "fill_buffer c data cl = cl\<lparr>cl_bufs := (cl_bufs cl)(c := copy_at 0 data (cl_bufs cl c))\<rparr>"

definition queue_read :: "nat \<Rightarrow> handler \<Rightarrow> int \<Rightarrow> nat \<Rightarrow> client \<Rightarrow> client" where
  "queue_read c h now n cl =
     (let cl = cl\<lparr>cl_tracker := UpdateActivity now (h_connID h) (cl_tracker cl)\<rparr>;
          packet = handler_packet c h now n
      in if length (cl_queue cl) < packetChan_cap then cl\<lparr>cl_queue := cl_queue cl @ [packet]\<rparr> else cl)"

definition handler_read :: "nat \<Rightarrow> handler \<Rightarrow> int \<Rightarrow> byte list \<Rightarrow> client \<Rightarrow> client" where
  "handler_read c h now data cl =
     (if data = [] then cl else queue_read c h now (length data) (fill_buffer c data cl))"

text \<open>\<open>SendPacket\<close> is the same select for the other users of the channel.\<close>

definition SendPacket :: "out_packet \<Rightarrow> client \<Rightarrow> client" where
  "SendPacket pkt cl =
     (if length (cl_queue cl) < packetChan_cap then cl\<lparr>cl_queue := cl_queue cl @ [pkt]\<rparr> else cl)"

lemma queue_read_sends:
  "queue_read c h now n cl =
     SendPacket (handler_packet c h now n) (cl\<lparr>cl_tracker := UpdateActivity now (h_connID h) (cl_tracker cl)\<rparr>)"
  by (simp add: queue_read_def SendPacket_def Let_def)

lemmas read_defs = handler_read_def queue_read_def fill_buffer_def

text \<open>The handler returns: its deferred calls remove the identifier, then close the connection.\<close>

definition handler_return :: "nat \<Rightarrow> handler \<Rightarrow> client \<Rightarrow> client" where
  "handler_return c h cl =
     cl\<lparr>cl_tracker := close_conn c (Remove (h_connID h) (cl_tracker cl)),
        cl_handlers := (cl_handlers cl)(c \<mapsto> h\<lparr>h_state := Returned\<rparr>)\<rparr>"

text \<open>A message from the server. Anything but a packet is only logged.\<close>

fun recv_msg :: "client_message \<Rightarrow> client \<Rightarrow> client" where
  "recv_msg (ClientMessage_Packet pkt) cl =
     (case DeliverResponse_lookup (ConnectionId pkt) (cl_tracker cl) of
        Inl e \<Rightarrow> cl
      | Inr ref \<Rightarrow> cl\<lparr>cl_reader := RTouch ref pkt\<rparr>)"
| "recv_msg (ClientMessage_Heartbeat h) cl = cl"
| "recv_msg (ClientMessage_Register m) cl = cl"
| "recv_msg (ClientMessage_Ack a) cl = cl"
| "recv_msg ClientMessage_Unset cl = cl"

definition write_local :: "bool \<Rightarrow> nat \<Rightarrow> packet \<Rightarrow> client \<Rightarrow> client" where
  "write_local os_ok ref pkt cl =
     (case DeliverResponse_write os_ok ref (Data pkt) (cl_tracker cl) of
        Inl e \<Rightarrow> cl\<lparr>cl_reader := RIdle\<rparr>
      | Inr (c, data) \<Rightarrow> cl\<lparr>cl_reader := RIdle, cl_written := cl_written cl @ [(c, pkt)]\<rparr>)"

text \<open>The two cases of the write loop that send, and a tick of the cleanup loop. The first receives a
  packet from the channel and then has \<open>Send\<close> marshal it; \<open>writeLoop_packet\<close> is the two without a break.\<close>

definition writeLoop_take :: "client \<Rightarrow> client option" where
  [simp]: "writeLoop_take cl =
     (case cl_queue cl of
        [] \<Rightarrow> None
      | q # qs \<Rightarrow> if cl_taken cl = None then Some (cl\<lparr>cl_queue := qs, cl_taken := Some q\<rparr>) else None)"

definition writeLoop_send :: "bool \<Rightarrow> client \<Rightarrow> client option" where
  [simp]: "writeLoop_send ok cl =
     (case cl_taken cl of
        None \<Rightarrow> None
      | Some q \<Rightarrow> Some (cl\<lparr>cl_taken := None, cl_sent := cl_sent cl @
          (if ok then [ClientMessage_Packet (marshal (cl_bufs cl) q)] else [])\<rparr>))"

definition writeLoop_packet :: "bool \<Rightarrow> client \<Rightarrow> client option" where
  "writeLoop_packet ok cl = (case writeLoop_take cl of None \<Rightarrow> None | Some cl' \<Rightarrow> writeLoop_send ok cl')"

lemma writeLoop_packet_eq [simp]:
  "writeLoop_packet ok cl =
     (case cl_queue cl of
        [] \<Rightarrow> None
      | q # qs \<Rightarrow> if cl_taken cl = None then Some (cl\<lparr>cl_queue := qs, cl_sent := cl_sent cl @
          (if ok then [ClientMessage_Packet (marshal (cl_bufs cl) q)] else [])\<rparr>) else None)"
  by (cases cl; cases "cl_queue cl"; cases "cl_taken cl") (simp_all add: writeLoop_packet_def)

definition writeLoop_heartbeat :: "string \<Rightarrow> int \<Rightarrow> bool \<Rightarrow> client \<Rightarrow> client" where
  [simp]: "writeLoop_heartbeat clientID now ok cl = cl\<lparr>cl_sent := cl_sent cl @ (if ok
     then [ClientMessage_Heartbeat \<lparr>SenderId = clientID, HbTimestamp = unix_time now\<rparr>] else [])\<rparr>"

definition cleanupLoop_tick :: "int \<Rightarrow> string list \<Rightarrow> client \<Rightarrow> client" where
  [simp]: "cleanupLoop_tick now order cl = cl\<lparr>cl_tracker := fst (Cleanup now (5 * minute) order (cl_tracker cl))\<rparr>"

text \<open>A handler is at its \<open>Read\<close>, and the read can succeed.\<close>

definition can_read :: "nat \<Rightarrow> handler \<Rightarrow> client \<Rightarrow> bool" where
  [simp]: "can_read c h cl \<longleftrightarrow> h_state h = Running \<and> c \<notin> set (tr_closed (cl_tracker cl)) \<and> cl_pending cl c = None"

text \<open>\<open>None\<close>: the event cannot happen. A read on a closed connection fails, and one read fills
  at most the buffer of 65535 bytes. \<open>ReadData\<close> is a whole round of the handler's loop, \<open>ReadFills\<close> and
  \<open>ReadQueues\<close> are its two parts; \<open>WritePacket\<close> is \<open>TakePacket\<close> and \<open>SendTaken\<close>.\<close>

fun cl_exec :: "(string \<Rightarrow> int option) \<Rightarrow> client \<Rightarrow> client_event \<Rightarrow> client option" where
  "cl_exec services cl (Accept c conn now) =
     (if cl_handlers cl c = None then Some (accept_conn services c conn now cl) else None)"
| "cl_exec services cl (ReadData c now data) =
     (case cl_handlers cl c of
        None \<Rightarrow> None
      | Some h \<Rightarrow>
          if can_read c h cl \<and> length data \<le> 65535 then Some (handler_read c h now data cl) else None)"
| "cl_exec services cl (ReadFills c data) =
     (case cl_handlers cl c of
        None \<Rightarrow> None
      | Some h \<Rightarrow>
          if can_read c h cl \<and> length data \<le> 65535 \<and> data \<noteq> []
          then Some ((fill_buffer c data cl)\<lparr>cl_pending := (cl_pending cl)(c \<mapsto> data)\<rparr>) else None)"
| "cl_exec services cl (ReadQueues c now) =
     (case (cl_handlers cl c, cl_pending cl c) of
        (Some h, Some data) \<Rightarrow>
          Some (queue_read c h now (length data) (cl\<lparr>cl_pending := (cl_pending cl)(c := None)\<rparr>))
      | _ \<Rightarrow> None)"
| "cl_exec services cl (ReadFails c) =
     (case cl_handlers cl c of
        None \<Rightarrow> None
      | Some h \<Rightarrow> if h_state h = Running \<and> cl_pending cl c = None then Some (handler_return c h cl) else None)"
| "cl_exec services cl (WritePacket ok) =
     writeLoop_packet ok cl"
| "cl_exec services cl TakePacket = writeLoop_take cl"
| "cl_exec services cl (SendTaken ok) = writeLoop_send ok cl"
| "cl_exec services cl (WriteHeartbeat clientID now ok) =
     (if cl_taken cl = None then Some (writeLoop_heartbeat clientID now ok cl) else None)"
| "cl_exec services cl (RecvMsg m) =
     (case cl_reader cl of RIdle \<Rightarrow> Some (recv_msg m cl) | _ \<Rightarrow> None)"
| "cl_exec services cl (TouchState now) =
     (case cl_reader cl of
        RTouch ref pkt \<Rightarrow> Some (cl\<lparr>cl_tracker := touch now ref (cl_tracker cl), cl_reader := RWrite ref pkt\<rparr>)
      | _ \<Rightarrow> None)"
| "cl_exec services cl (WriteLocal os_ok) =
     (case cl_reader cl of RWrite ref pkt \<Rightarrow> Some (write_local os_ok ref pkt cl) | _ \<Rightarrow> None)"
| "cl_exec services cl (ClientCleanup now order) =
     Some (cleanupLoop_tick now order cl)"

inductive cl_reachable :: "(string \<Rightarrow> int option) \<Rightarrow> client \<Rightarrow> bool" for services where
  cl_init: "cl_reachable services client_init"
| cl_step: "cl_reachable services cl \<Longrightarrow> cl_exec services cl e = Some cl' \<Longrightarrow> cl_reachable services cl'"

fun cl_run :: "(string \<Rightarrow> int option) \<Rightarrow> client_event list \<Rightarrow> client \<Rightarrow> client option" where
  "cl_run services [] cl = Some cl"
| "cl_run services (e # es) cl =
     (case cl_exec services cl e of None \<Rightarrow> None | Some cl' \<Rightarrow> cl_run services es cl')"

lemma cl_reachable_run: "cl_reachable services cl \<Longrightarrow> cl_run services es cl = Some cl' \<Longrightarrow> cl_reachable services cl'"
  by (induction es arbitrary: cl) (auto split: option.splits intro: cl_step)

section \<open>Registration\<close>

text \<open>The random numbers are an argument; each is below the size of the character set.\<close>

definition charset :: string where
  "charset = ''abcdefghijklmnopqrstuvwxyzABCDEFGHIJKLMNOPQRSTUVWXYZ0123456789''"

definition generateAlphanumericID :: "nat list \<Rightarrow> string" where
  "generateAlphanumericID ns = map (\<lambda>n. charset ! n) ns"

datatype register_error =
    SendRegistrationFailed
  | ReadRegistrationFailed
  | UnexpectedResponse
  | RegistrationFailed string

text \<open>The result: the client's identifier, the messages sent, and the error if any. The reply is
  \<open>None\<close> when receiving it fails.\<close>

definition client_register_with ::
  "string \<Rightarrow> nat list \<Rightarrow> bool \<Rightarrow> client_message option \<Rightarrow>
   string \<times> client_message list \<times> register_error option" where
  "client_register_with configID randoms send_ok reply =
     (let clientID = (if configID = '''' then ''client-'' @ generateAlphanumericID randoms else configID);
          reg = ClientMessage_Register \<lparr>ClientId = clientID\<rparr>
      in if \<not> send_ok then (clientID, [], Some SendRegistrationFailed)
         else (clientID, [reg],
           case reply of
             None \<Rightarrow> Some ReadRegistrationFailed
           | Some (ClientMessage_Ack ack) \<Rightarrow>
               if \<not> Success ack then Some (RegistrationFailed (Message ack)) else None
           | Some _ \<Rightarrow> Some UnexpectedResponse))"

section \<open>Invariant\<close>

text \<open>
  Every tracked state, every queued, sent and delivered packet belongs to a connection that was
  accepted and carries that connection's own identifier.
\<close>

definition conn_has_id :: "client \<Rightarrow> nat \<Rightarrow> string \<Rightarrow> bool" where
  "conn_has_id cl c i \<longleftrightarrow> (\<exists>h. cl_handlers cl c = Some h \<and> h_connID h = i \<and> h_state h \<noteq> Rejected)"

definition packet_of_conn :: "client \<Rightarrow> nat \<Rightarrow> packet \<Rightarrow> bool" where
  "packet_of_conn cl c p \<longleftrightarrow> (\<exists>h. cl_handlers cl c = Some h \<and> h_state h \<noteq> Rejected \<and>
     ConnectionId p = h_connID h \<and> ConnTuple p = Some (handler_tuple h) \<and>
     PktProtocol p = Protocol_PROTOCOL_TCP \<and> Direction p = Direction_DIRECTION_FORWARD)"

definition states_ok :: "client \<Rightarrow> bool" where
  "states_ok cl \<longleftrightarrow> (\<forall>s \<in> set (tr_states (cl_tracker cl)). conn_has_id cl (st_LocalConn s) (st_ConnectionID s))"

definition reader_ok :: "client \<Rightarrow> bool" where
  "reader_ok cl \<longleftrightarrow> (case cl_reader cl of
     RIdle \<Rightarrow> True
   | RTouch ref pkt \<Rightarrow> ref < length (tr_states (cl_tracker cl)) \<and>
       st_ConnectionID (tr_states (cl_tracker cl) ! ref) = ConnectionId pkt
   | RWrite ref pkt \<Rightarrow> ref < length (tr_states (cl_tracker cl)) \<and>
       st_ConnectionID (tr_states (cl_tracker cl) ! ref) = ConnectionId pkt)"

text \<open>The packets not yet marshalled, oldest first.\<close>

definition in_flight :: "client \<Rightarrow> out_packet list" where
  "in_flight cl = (case cl_taken cl of None \<Rightarrow> [] | Some q \<Rightarrow> [q]) @ cl_queue cl"

lemma in_flight_Nil [simp]: "in_flight cl = [] \<longleftrightarrow> cl_taken cl = None \<and> cl_queue cl = []"
  by (auto simp: in_flight_def split: option.split)

definition queue_ok :: "client \<Rightarrow> bool" where
  "queue_ok cl \<longleftrightarrow> length (cl_queue cl) \<le> packetChan_cap \<and>
     (\<forall>q \<in> set (in_flight cl). packet_of_conn cl (op_buf q) (op_packet q) \<and> 0 < op_len q \<and> op_len q \<le> 65535) \<and>
     (\<forall>c. length (cl_bufs cl c) = 65535)"

text \<open>What a handler has read is at the start of its buffer.\<close>

definition pending_ok :: "client \<Rightarrow> bool" where
  "pending_ok cl \<longleftrightarrow> (\<forall>c data. cl_pending cl c = Some data \<longrightarrow> data \<noteq> [] \<and> length data \<le> 65535 \<and>
     take (length data) (cl_bufs cl c) = data \<and> (\<exists>h. cl_handlers cl c = Some h \<and> h_state h \<noteq> Rejected))"

definition sent_ok :: "client \<Rightarrow> bool" where
  "sent_ok cl \<longleftrightarrow> (\<forall>p. ClientMessage_Packet p \<in> set (cl_sent cl) \<longrightarrow>
     (\<exists>c. packet_of_conn cl c p) \<and> Data p \<noteq> [])"

definition written_ok :: "client \<Rightarrow> bool" where
  "written_ok cl \<longleftrightarrow> (\<forall>(c, pkt) \<in> set (cl_written cl). conn_has_id cl c (ConnectionId pkt))"

definition client_inv :: "client \<Rightarrow> bool" where
  "client_inv cl \<longleftrightarrow> tracker_ok (cl_tracker cl) \<and> states_ok cl \<and> reader_ok cl \<and> queue_ok cl \<and>
     sent_ok cl \<and> written_ok cl \<and> pending_ok cl"

text \<open>Handlers are only added, or return.\<close>

definition handlers_extend :: "client \<Rightarrow> client \<Rightarrow> bool" where
  "handlers_extend cl cl' \<longleftrightarrow> (\<forall>c h. cl_handlers cl c = Some h \<and> h_state h \<noteq> Rejected \<longrightarrow>
     (\<exists>st. cl_handlers cl' c = Some (h\<lparr>h_state := st\<rparr>) \<and> st \<noteq> Rejected))"

lemma handlers_extend_same: "cl_handlers cl' = cl_handlers cl \<Longrightarrow> handlers_extend cl cl'"
  unfolding handlers_extend_def by (metis handler.surjective handler.update_convs(7))

lemma conn_has_id_extend: "conn_has_id cl c i \<Longrightarrow> handlers_extend cl cl' \<Longrightarrow> conn_has_id cl' c i"
  unfolding conn_has_id_def handlers_extend_def by fastforce

lemma handler_tuple_state [simp]: "handler_tuple (h\<lparr>h_state := st\<rparr>) = handler_tuple h"
  by (simp add: handler_tuple_def)

lemma packet_of_conn_extend: "packet_of_conn cl c p \<Longrightarrow> handlers_extend cl cl' \<Longrightarrow> packet_of_conn cl' c p"
  unfolding packet_of_conn_def handlers_extend_def by fastforce

text \<open>States are only added to the tracker, and keep what the invariant speaks of.\<close>

definition states_extend :: "tracker \<Rightarrow> tracker \<Rightarrow> bool" where
  "states_extend t t' \<longleftrightarrow> length (tr_states t) \<le> length (tr_states t') \<and>
     (\<forall>k < length (tr_states t). st_ConnectionID (tr_states t' ! k) = st_ConnectionID (tr_states t ! k) \<and>
        st_LocalConn (tr_states t' ! k) = st_LocalConn (tr_states t ! k))"

lemma states_extend_same: "tr_states t' = tr_states t \<Longrightarrow> states_extend t t'"
  by (simp add: states_extend_def)

lemma states_extend_touch: "states_extend t (touch now ref t)"
  by (simp add: states_extend_def touch_field [of st_ConnectionID] touch_field [of st_LocalConn])

lemma states_extend_ops:
  "states_extend t (Track now i d c t)" "states_extend t (UpdateActivity now i t)"
  "states_extend t (Remove i t)" "states_extend t (close_conn c t)"
  "states_extend t (fst (Cleanup now m order t))"
  by (auto simp: Track_def UpdateActivity_def Remove_def Cleanup_def Let_def states_extend_def nth_append
    touch_field [of st_ConnectionID] touch_field [of st_LocalConn] split: option.split)

lemma reader_ok_extend:
  "reader_ok cl \<Longrightarrow> cl_reader cl' = cl_reader cl \<Longrightarrow> states_extend (cl_tracker cl) (cl_tracker cl') \<Longrightarrow>
   reader_ok cl'"
  by (auto simp: reader_ok_def states_extend_def split: reader_pc.splits)

lemma states_ok_same_len:
  assumes "states_ok cl" "handlers_extend cl cl'" "states_extend (cl_tracker cl) (cl_tracker cl')"
    and "length (tr_states (cl_tracker cl')) = length (tr_states (cl_tracker cl))"
  shows "states_ok cl'"
  unfolding states_ok_def all_set_conv_all_nth
proof (intro allI impI)
  fix k assume k: "k < length (tr_states (cl_tracker cl'))"
  then have "conn_has_id cl (st_LocalConn (tr_states (cl_tracker cl) ! k)) (st_ConnectionID (tr_states (cl_tracker cl) ! k))"
    using assms(1,4) by (simp add: states_ok_def)
  then show "conn_has_id cl' (st_LocalConn (tr_states (cl_tracker cl') ! k)) (st_ConnectionID (tr_states (cl_tracker cl') ! k))"
    using assms(2-4) k by (auto simp: states_extend_def intro: conn_has_id_extend)
qed

lemma queue_ok_extend:
  "queue_ok cl \<Longrightarrow> handlers_extend cl cl' \<Longrightarrow> cl_queue cl' = cl_queue cl \<Longrightarrow> cl_taken cl' = cl_taken cl \<Longrightarrow>
   cl_bufs cl' = cl_bufs cl \<Longrightarrow> queue_ok cl'"
  by (auto simp: queue_ok_def in_flight_def intro: packet_of_conn_extend)

lemma pending_ok_extend:
  "pending_ok cl \<Longrightarrow> handlers_extend cl cl' \<Longrightarrow> cl_pending cl' = cl_pending cl \<Longrightarrow> cl_bufs cl' = cl_bufs cl \<Longrightarrow>
   pending_ok cl'"
  unfolding pending_ok_def handlers_extend_def by fastforce

lemma sent_ok_extend: "sent_ok cl \<Longrightarrow> handlers_extend cl cl' \<Longrightarrow> cl_sent cl' = cl_sent cl \<Longrightarrow> sent_ok cl'"
  unfolding sent_ok_def by (metis packet_of_conn_extend)

lemma written_ok_extend:
  "written_ok cl \<Longrightarrow> handlers_extend cl cl' \<Longrightarrow> cl_written cl' = cl_written cl \<Longrightarrow> written_ok cl'"
  unfolding written_ok_def by (auto intro: conn_has_id_extend)

lemma client_invD:
  assumes "client_inv cl"
  shows "tracker_ok (cl_tracker cl)" "states_ok cl" "reader_ok cl" "queue_ok cl" "sent_ok cl" "written_ok cl"
    "pending_ok cl"
  using assms by (simp_all add: client_inv_def)

text \<open>An event that leaves the queue, the reader and the outputs alone.\<close>

lemma client_inv_frame:
  assumes inv: "client_inv cl" and h: "handlers_extend cl cl'"
    and t: "tracker_ok (cl_tracker cl')" "states_extend (cl_tracker cl) (cl_tracker cl')" "states_ok cl'"
    and same: "cl_queue cl' = cl_queue cl" "cl_bufs cl' = cl_bufs cl" "cl_sent cl' = cl_sent cl"
      "cl_reader cl' = cl_reader cl" "cl_written cl' = cl_written cl" "cl_taken cl' = cl_taken cl"
      "cl_pending cl' = cl_pending cl"
  shows "client_inv cl'"
  unfolding client_inv_def
  using t reader_ok_extend [OF client_invD(3) [OF inv] same(4) t(2)]
    queue_ok_extend [OF client_invD(4) [OF inv] h same(1,6,2)]
    pending_ok_extend [OF client_invD(7) [OF inv] h same(7,2)]
    sent_ok_extend [OF client_invD(5) [OF inv] h same(3)]
    written_ok_extend [OF client_invD(6) [OF inv] h same(5)] by blast

lemma Cleanup_loop_ok: "tracker_ok t \<Longrightarrow> tracker_ok (fst (Cleanup_loop now m order n t))"
proof (induction order arbitrary: n t)
  case (Cons i order)
  have "tracker_ok ((close_conn c t)\<lparr>tr_connections := (tr_connections t)(i := None)\<rparr>)" for c
    using Cons.prems by (auto simp: tracker_ok_def)
  then show ?case using Cons by (simp add: Cleanup_loop_idle del: Cleanup_loop.simps)
qed simp

lemma tracker_ok_close [simp]: "tracker_ok (close_conn c t) = tracker_ok t"
  by (simp add: tracker_ok_def)

lemma accept_inv:
  assumes inv: "client_inv cl" and c: "cl_handlers cl c = None"
  shows "client_inv (accept_conn services c conn now cl)"
proof (cases "Handle_open services conn")
  case None
  let ?cl = "accept_conn services c conn now cl"
  have h: "handlers_extend cl ?cl"
    using c handlers_extend_same [of cl cl]
    by (auto simp: handlers_extend_def accept_conn_def None split: option.split)
  have t: "states_extend (cl_tracker cl) (cl_tracker ?cl)" "tracker_ok (cl_tracker ?cl)"
    using client_invD(1) [OF inv] by (simp_all add: accept_conn_def None states_extend_ops)
  have "states_ok ?cl"
    by (rule states_ok_same_len [OF client_invD(2) [OF inv] h t(1)]) (simp add: accept_conn_def None)
  then show ?thesis
    by (rule client_inv_frame [OF inv h t(2,1)]) (simp_all add: accept_conn_def None)
next
  case (Some k)
  let ?cl = "accept_conn services c conn now cl"
  have run: "h_state k \<noteq> Rejected"
    using Some by (auto simp: Handle_open_def Let_def split: outcome.splits option.splits)
  have h: "handlers_extend cl ?cl"
    using c handlers_extend_same [of cl cl]
    by (auto simp: handlers_extend_def accept_conn_def Some split: option.split)
  have t: "states_extend (cl_tracker cl) (cl_tracker ?cl)" "tracker_ok (cl_tracker ?cl)"
    using client_invD(1) [OF inv] by (simp_all add: accept_conn_def Some states_extend_ops tracker_ok_Track)
  have "conn_has_id ?cl c (h_connID k)"
    using run by (simp add: conn_has_id_def accept_conn_def Some)
  moreover have "conn_has_id ?cl (st_LocalConn s) (st_ConnectionID s)" if "s \<in> set (tr_states (cl_tracker cl))" for s
    using client_invD(2) [OF inv] that conn_has_id_extend [OF _ h] by (simp add: states_ok_def)
  ultimately have "states_ok ?cl"
    unfolding states_ok_def by (auto simp: accept_conn_def Some Track_def Let_def)
  then show ?thesis
    by (rule client_inv_frame [OF inv h t(2,1)]) (simp_all add: accept_conn_def Some)
qed

lemma return_inv:
  assumes inv: "client_inv cl" and c: "cl_handlers cl c = Some h" and run: "h_state h = Running"
  shows "client_inv (handler_return c h cl)"
proof -
  let ?cl = "handler_return c h cl"
  have h: "handlers_extend cl ?cl"
    using c handlers_extend_same [of cl cl] by (auto simp: handlers_extend_def handler_return_def)
  have st: "tr_states (cl_tracker ?cl) = tr_states (cl_tracker cl)"
    by (simp add: handler_return_def Remove_def Let_def split: option.split)
  then have t: "states_extend (cl_tracker cl) (cl_tracker ?cl)" "tracker_ok (cl_tracker ?cl)"
    "length (tr_states (cl_tracker ?cl)) = length (tr_states (cl_tracker cl))"
    using tracker_ok_Remove [OF client_invD(1) [OF inv]]
    by (simp_all add: states_extend_same) (simp add: handler_return_def)
  have "states_ok ?cl"
    by (rule states_ok_same_len [OF client_invD(2) [OF inv] h t(1,3)])
  then show ?thesis
    by (rule client_inv_frame [OF inv h t(2,1)]) (simp_all add: handler_return_def)
qed

lemma tracker_frame_inv:
  assumes inv: "client_inv cl" and t: "tracker_ok t" "states_extend (cl_tracker cl) t"
    "length (tr_states t) = length (tr_states (cl_tracker cl))"
  shows "client_inv (cl\<lparr>cl_tracker := t\<rparr>)"
proof -
  have h: "handlers_extend cl (cl\<lparr>cl_tracker := t\<rparr>)" by (rule handlers_extend_same) simp
  have "states_ok (cl\<lparr>cl_tracker := t\<rparr>)"
    by (rule states_ok_same_len [OF client_invD(2) [OF inv] h]) (simp_all add: t)
  then show ?thesis by (intro client_inv_frame [OF inv h]) (simp_all add: t)
qed

lemma length_states_Update [simp]: "length (tr_states (UpdateActivity now i t)) = length (tr_states t)"
  by (simp add: UpdateActivity_def split: option.split)

lemma queue_ok_sub: "queue_ok cl \<Longrightarrow> set (in_flight cl') \<subseteq> set (in_flight cl) \<Longrightarrow>
  length (cl_queue cl') \<le> length (cl_queue cl) \<Longrightarrow> cl_handlers cl' = cl_handlers cl \<Longrightarrow>
  cl_bufs cl' = cl_bufs cl \<Longrightarrow> queue_ok cl'"
  unfolding queue_ok_def packet_of_conn_def by auto

text \<open>Each part of the invariant depends on the fields it speaks of.\<close>

lemma inv_cong:
  "cl_tracker cl' = cl_tracker cl \<Longrightarrow> cl_handlers cl' = cl_handlers cl \<Longrightarrow> states_ok cl' = states_ok cl"
  "cl_tracker cl' = cl_tracker cl \<Longrightarrow> cl_reader cl' = cl_reader cl \<Longrightarrow> reader_ok cl' = reader_ok cl"
  "cl_handlers cl' = cl_handlers cl \<Longrightarrow> cl_sent cl' = cl_sent cl \<Longrightarrow> sent_ok cl' = sent_ok cl"
  "cl_handlers cl' = cl_handlers cl \<Longrightarrow> cl_written cl' = cl_written cl \<Longrightarrow> written_ok cl' = written_ok cl"
  "cl_handlers cl' = cl_handlers cl \<Longrightarrow> cl_queue cl' = cl_queue cl \<Longrightarrow> cl_taken cl' = cl_taken cl \<Longrightarrow>
     (\<And>c. length (cl_bufs cl' c) = length (cl_bufs cl c)) \<Longrightarrow> queue_ok cl' = queue_ok cl"
  "cl_handlers cl' = cl_handlers cl \<Longrightarrow> packet_of_conn cl' c p = packet_of_conn cl c p"
  "cl_handlers cl' = cl_handlers cl \<Longrightarrow> cl_pending cl' = cl_pending cl \<Longrightarrow> cl_bufs cl' = cl_bufs cl \<Longrightarrow>
     pending_ok cl' = pending_ok cl"
  by (simp_all add: states_ok_def reader_ok_def sent_ok_def written_ok_def queue_ok_def in_flight_def conn_has_id_def pending_ok_def
    packet_of_conn_def split: reader_pc.split)

lemma client_invI:
  assumes "client_inv cl" "cl_tracker cl' = cl_tracker cl" "cl_handlers cl' = cl_handlers cl"
    and "reader_ok cl'" "queue_ok cl'" "sent_ok cl'" "written_ok cl'" "pending_ok cl'"
  shows "client_inv cl'"
  using assms inv_cong(1) [of cl' cl] by (simp add: client_inv_def)

text \<open>Filling a buffer, and putting a packet of it in the queue.\<close>

lemma take_copy_at: "k \<le> length data \<Longrightarrow> length data \<le> length buf \<Longrightarrow> take k (copy_at 0 data buf) = take k data"
  by (simp add: copy_at_def)

lemma pending_ok_fill:
  assumes "pending_ok cl" "cl_pending cl c = None" "cl_handlers cl' = cl_handlers cl" "cl_pending cl' = cl_pending cl"
    "\<And>d. d \<noteq> c \<Longrightarrow> cl_bufs cl' d = cl_bufs cl d"
  shows "pending_ok cl'"
  using assms unfolding pending_ok_def by (metis option.distinct(1))

lemma fill_inv:
  assumes inv: "client_inv cl" and c: "cl_pending cl c = None"
  shows "client_inv (fill_buffer c data cl)" (is "client_inv ?cl")
proof (rule client_invI [OF inv])
  show "reader_ok ?cl" "sent_ok ?cl" "written_ok ?cl" "queue_ok ?cl"
    using client_invD [OF inv] inv_cong(2-5) [of ?cl cl] by (simp_all add: fill_buffer_def)
  show "pending_ok ?cl" by (rule pending_ok_fill [OF client_invD(7) [OF inv] c]) (simp_all add: fill_buffer_def)
qed (simp_all add: fill_buffer_def)

lemma fills_inv:
  assumes inv: "client_inv cl" and c: "cl_handlers cl c = Some h" "h_state h \<noteq> Rejected" "cl_pending cl c = None"
    and data: "data \<noteq> []" "length data \<le> 65535"
  shows "client_inv ((fill_buffer c data cl)\<lparr>cl_pending := (cl_pending cl)(c \<mapsto> data)\<rparr>)" (is "client_inv ?cl")
proof (rule client_invI [OF fill_inv [OF inv c(3), of data]])
  let ?cl1 = "fill_buffer c data cl"
  show "reader_ok ?cl" "sent_ok ?cl" "written_ok ?cl" "queue_ok ?cl"
    using client_invD [OF fill_inv [OF inv c(3), of data]] inv_cong(2-5) [of ?cl ?cl1] by simp_all
  have "length (cl_bufs cl c) = 65535" using client_invD(4) [OF inv] by (simp add: queue_ok_def)
  then have "take (length data) (copy_at 0 data (cl_bufs cl c)) = data"
    using take_copy_at [of "length data" data "cl_bufs cl c"] data(2) by simp
  then show "pending_ok ?cl"
    using client_invD(7) [OF inv] c data unfolding pending_ok_def by (auto simp: fill_buffer_def)
qed simp_all

lemma enqueue_inv:
  assumes inv: "client_inv cl" and q: "packet_of_conn cl (op_buf q) (op_packet q)" "0 < op_len q" "op_len q \<le> 65535"
    and room: "length (cl_queue cl) < packetChan_cap"
  shows "client_inv (cl\<lparr>cl_queue := cl_queue cl @ [q]\<rparr>)" (is "client_inv ?cl")
proof (rule client_invI [OF inv])
  show "reader_ok ?cl" "sent_ok ?cl" "written_ok ?cl" "pending_ok ?cl"
    using client_invD [OF inv] inv_cong(2-4,7) [of ?cl cl] by simp_all
  have "packet_of_conn ?cl c p = packet_of_conn cl c p" for c p by (rule inv_cong(6)) simp
  then show "queue_ok ?cl"
    using client_invD(4) [OF inv] q room by (auto simp: queue_ok_def in_flight_def)
qed simp_all

lemma handler_packet_ok:
  "cl_handlers cl c = Some h \<Longrightarrow> h_state h \<noteq> Rejected \<Longrightarrow>
   packet_of_conn cl (op_buf (handler_packet c h now n)) (op_packet (handler_packet c h now n))"
  by (simp add: packet_of_conn_def handler_packet_def)

lemma queue_read_inv:
  assumes inv: "client_inv cl" and c: "cl_handlers cl c = Some h" "h_state h \<noteq> Rejected"
    and len: "0 < n" "n \<le> 65535"
  shows "client_inv (queue_read c h now n cl)"
proof -
  let ?cl = "cl\<lparr>cl_tracker := UpdateActivity now (h_connID h) (cl_tracker cl)\<rparr>"
  have one: "client_inv ?cl"
    using client_invD(1) [OF inv] by (intro tracker_frame_inv inv) (simp_all add: tracker_ok_Update states_extend_ops)
  have "packet_of_conn ?cl (op_buf (handler_packet c h now n)) (op_packet (handler_packet c h now n))"
    by (rule handler_packet_ok) (simp_all add: c)
  then have "client_inv (?cl\<lparr>cl_queue := cl_queue ?cl @ [handler_packet c h now n]\<rparr>)"
    if "length (cl_queue cl) < packetChan_cap"
    using that len by (intro enqueue_inv one) (simp_all add: handler_packet_def)
  then show ?thesis using one by (simp add: queue_read_def Let_def)
qed

lemma read_inv:
  assumes inv: "client_inv cl" and c: "cl_handlers cl c = Some h" and run: "h_state h = Running"
    and p: "cl_pending cl c = None" and len: "length data \<le> 65535"
  shows "client_inv (handler_read c h now data cl)"
proof (cases "data = []")
  case False
  then show ?thesis
    using len by (simp add: handler_read_def queue_read_inv [OF fill_inv [OF inv p]] c run fill_buffer_def [of c data cl])
      (simp add: queue_read_inv [OF fill_inv [OF inv p], unfolded fill_buffer_def] c run)
qed (simp add: handler_read_def inv)

lemma queues_inv:
  assumes inv: "client_inv cl" and c: "cl_handlers cl c = Some h" "cl_pending cl c = Some data"
  shows "client_inv (queue_read c h now (length data) (cl\<lparr>cl_pending := (cl_pending cl)(c := None)\<rparr>))"
proof -
  let ?cl = "cl\<lparr>cl_pending := (cl_pending cl)(c := None)\<rparr>"
  have "client_inv ?cl"
  proof (rule client_invI [OF inv])
    show "reader_ok ?cl" "sent_ok ?cl" "written_ok ?cl" "queue_ok ?cl"
      using client_invD [OF inv] inv_cong(2-5) [of ?cl cl] by simp_all
    show "pending_ok ?cl" using client_invD(7) [OF inv] by (auto simp: pending_ok_def split: if_splits)
  qed simp_all
  moreover have "h_state h \<noteq> Rejected \<and> data \<noteq> [] \<and> length data \<le> 65535"
    using client_invD(7) [OF inv] c unfolding pending_ok_def by fastforce
  ultimately show ?thesis using c(1) by (intro queue_read_inv) simp_all
qed

lemma take_inv:
  assumes inv: "client_inv cl" and q: "cl_queue cl = q # qs" "cl_taken cl = None"
  shows "client_inv (cl\<lparr>cl_queue := qs, cl_taken := Some q\<rparr>)" (is "client_inv ?cl")
proof (rule client_invI [OF inv])
  show "queue_ok ?cl"
    by (rule queue_ok_sub [OF client_invD(4) [OF inv]]) (auto simp: q in_flight_def)
  show "reader_ok ?cl" "written_ok ?cl" "sent_ok ?cl" "pending_ok ?cl"
    using client_invD [OF inv] inv_cong(2-4,7) [of ?cl cl] by simp_all
qed simp_all

lemma send_inv:
  assumes inv: "client_inv cl" and q: "cl_taken cl = Some q"
  shows "client_inv (cl\<lparr>cl_taken := None, cl_sent := cl_sent cl @
    (if ok then [ClientMessage_Packet (marshal (cl_bufs cl) q)] else [])\<rparr>)" (is "client_inv ?cl")
proof (rule client_invI [OF inv])
  have "packet_of_conn cl (op_buf q) (op_packet q)" "0 < op_len q" "op_len q \<le> 65535"
    "length (cl_bufs cl (op_buf q)) = 65535"
    using client_invD(4) [OF inv] q by (simp_all add: queue_ok_def in_flight_def)
  then have p: "packet_of_conn cl (op_buf q) (marshal (cl_bufs cl) q)" "Data (marshal (cl_bufs cl) q) \<noteq> []"
    by (auto simp: packet_of_conn_def marshal_def)
  have same: "packet_of_conn ?cl c p = packet_of_conn cl c p" for c p by (rule inv_cong(6)) simp
  show "queue_ok ?cl"
    by (rule queue_ok_sub [OF client_invD(4) [OF inv]]) (auto simp: q in_flight_def)
  show "sent_ok ?cl"
    using client_invD(5) [OF inv] p unfolding sent_ok_def same by (auto split: if_splits)
  show "reader_ok ?cl" "written_ok ?cl" "pending_ok ?cl"
    using client_invD [OF inv] inv_cong(2,4,7) [of ?cl cl] by simp_all
qed simp_all

lemma write_packet_inv:
  assumes inv: "client_inv cl" and e: "writeLoop_packet ok cl = Some cl'"
  shows "client_inv cl'"
proof -
  obtain q qs where q: "cl_queue cl = q # qs" "cl_taken cl = None"
    and cl': "writeLoop_send ok (cl\<lparr>cl_queue := qs, cl_taken := Some q\<rparr>) = Some cl'"
    using e unfolding writeLoop_packet_def by (auto split: list.splits if_splits)
  show ?thesis using send_inv [OF take_inv [OF inv q], of q ok] cl' by simp
qed

lemma reader_inv:
  assumes inv: "client_inv cl"
    and r: "case r of RIdle \<Rightarrow> True | RTouch ref pkt \<Rightarrow> ref < length (tr_states (cl_tracker cl)) \<and>
        st_ConnectionID (tr_states (cl_tracker cl) ! ref) = ConnectionId pkt
      | RWrite ref pkt \<Rightarrow> ref < length (tr_states (cl_tracker cl)) \<and>
        st_ConnectionID (tr_states (cl_tracker cl) ! ref) = ConnectionId pkt"
  shows "client_inv (cl\<lparr>cl_reader := r\<rparr>)" (is "client_inv ?cl")
proof (rule client_invI [OF inv])
  show "queue_ok ?cl" "sent_ok ?cl" "written_ok ?cl" "pending_ok ?cl"
    using client_invD [OF inv] inv_cong(3-5,7) [of ?cl cl] by simp_all
  show "reader_ok ?cl" using r by (cases r) (simp_all add: reader_ok_def)
qed simp_all

lemma recv_inv:
  assumes inv: "client_inv cl" and r: "cl_reader cl = RIdle"
  shows "client_inv (recv_msg m cl)"
proof (cases m)
  case (ClientMessage_Packet pkt)
  show ?thesis
  proof (cases "tr_connections (cl_tracker cl) (ConnectionId pkt)")
    case None
    then show ?thesis using inv by (simp add: ClientMessage_Packet DeliverResponse_lookup_def)
  next
    case (Some ref)
    then show ?thesis
      using reader_inv [OF inv, of "RTouch ref pkt"] tracker_okD [OF client_invD(1) [OF inv] Some]
      by (simp add: ClientMessage_Packet DeliverResponse_lookup_def)
  qed
qed (simp_all add: inv)

lemma touch_inv:
  assumes inv: "client_inv cl" and r: "cl_reader cl = RTouch ref pkt"
  shows "client_inv (cl\<lparr>cl_tracker := touch now ref (cl_tracker cl), cl_reader := RWrite ref pkt\<rparr>)"
proof -
  have one: "client_inv (cl\<lparr>cl_tracker := touch now ref (cl_tracker cl)\<rparr>)"
    using client_invD(1) [OF inv]
    by (intro tracker_frame_inv inv) (simp_all add: tracker_ok_touch states_extend_touch)
  then show ?thesis
    using reader_inv [OF one, of "RWrite ref pkt"] client_invD(3) [OF inv] r
    by (simp add: reader_ok_def touch_field [of st_ConnectionID])
qed

lemma write_local_inv:
  assumes inv: "client_inv cl" and r: "cl_reader cl = RWrite ref pkt"
  shows "client_inv (write_local os_ok ref pkt cl)"
proof -
  let ?s = "tr_states (cl_tracker cl) ! ref"
  have "ref < length (tr_states (cl_tracker cl))" and i: "st_ConnectionID ?s = ConnectionId pkt"
    using client_invD(3) [OF inv] r by (simp_all add: reader_ok_def)
  then have own: "conn_has_id cl (st_LocalConn ?s) (ConnectionId pkt)"
    using client_invD(2) [OF inv] unfolding states_ok_def by (metis nth_mem)
  have idle: "client_inv (cl\<lparr>cl_reader := RIdle\<rparr>)" using reader_inv [OF inv, of RIdle] by simp
  have "client_inv (cl\<lparr>cl_reader := RIdle, cl_written := cl_written cl @ [(st_LocalConn ?s, pkt)]\<rparr>)"
    (is "client_inv ?cl")
  proof (rule client_invI [OF inv])
    show "queue_ok ?cl" "sent_ok ?cl" "pending_ok ?cl" using client_invD [OF inv] inv_cong(3,5,7) [of ?cl cl] by simp_all
    show "written_ok ?cl"
      using client_invD(6) [OF inv] own by (auto simp: written_ok_def conn_has_id_def)
  qed (simp_all add: reader_ok_def)
  with idle show ?thesis by (simp add: write_local_def DeliverResponse_write_def Let_def)
qed

lemma heartbeat_inv:
  assumes inv: "client_inv cl"
  shows "client_inv (cl\<lparr>cl_sent := cl_sent cl @ (if ok then [ClientMessage_Heartbeat h] else [])\<rparr>)"
    (is "client_inv ?cl")
proof (rule client_invI [OF inv])
  show "reader_ok ?cl" "queue_ok ?cl" "written_ok ?cl" "pending_ok ?cl"
    using client_invD [OF inv] inv_cong(2,4,5,7) [of ?cl cl] by simp_all
  have same: "packet_of_conn ?cl c p = packet_of_conn cl c p" for c p by (rule inv_cong(6)) simp
  show "sent_ok ?cl" using client_invD(5) [OF inv] unfolding sent_ok_def same by auto
qed simp_all

lemma client_cleanup_inv: "client_inv cl \<Longrightarrow> client_inv (cl\<lparr>cl_tracker := fst (Cleanup now m order (cl_tracker cl))\<rparr>)"
  by (intro tracker_frame_inv) (simp_all add: Cleanup_def Cleanup_loop_ok client_inv_def states_extend_same)

lemma client_inv_init: "client_inv client_init"
  by (simp add: client_inv_def client_init_def tracker_ok_new states_ok_def reader_ok_def queue_ok_def
    sent_ok_def written_ok_def pending_ok_def in_flight_def NewConnectionTracker_def tracker_ok_def)

lemma cl_exec_inv:
  assumes inv: "client_inv cl" and e: "cl_exec services cl e = Some cl'"
  shows "client_inv cl'"
proof (cases e)
  case (WritePacket ok)
  then show ?thesis using e write_packet_inv [OF inv] by simp
next
  case TakePacket
  then show ?thesis using e take_inv [OF inv] by (auto split: list.splits if_splits)
next
  case (SendTaken ok)
  then show ?thesis using e send_inv [OF inv, of _ ok] by (auto split: option.splits)
next
  case (WriteHeartbeat i now ok)
  then show ?thesis using e heartbeat_inv [OF inv, of ok "\<lparr>SenderId = i, HbTimestamp = unix_time now\<rparr>"] by (auto split: if_splits)
next
  case (ReadData c now data)
  then show ?thesis using e read_inv [OF inv] by (auto split: option.splits if_splits)
next
  case (ReadFills c data)
  then show ?thesis using e fills_inv [OF inv] by (auto split: option.splits if_splits)
next
  case (ReadQueues c now)
  then show ?thesis using e queues_inv [OF inv] by (auto split: option.splits)
next
  case (ReadFails c)
  then show ?thesis using e return_inv [OF inv] by (auto split: option.splits if_splits)
qed (use e in \<open>auto split: if_splits reader_pc.splits
    intro: accept_inv [OF inv] recv_inv [OF inv] touch_inv [OF inv] write_local_inv [OF inv] client_cleanup_inv [OF inv]\<close>)

lemma cl_reachable_inv: "cl_reachable services cl \<Longrightarrow> client_inv cl"
  by (induction rule: cl_reachable.induct) (auto intro: client_inv_init cl_exec_inv)

text \<open>Before a connection is accepted nothing of it is pending.\<close>

lemma no_handler_no_pending:
  assumes "cl_reachable services cl" "cl_handlers cl c = None"
  shows "cl_pending cl c = None"
proof (cases "cl_pending cl c")
  case (Some data)
  then have "\<exists>h. cl_handlers cl c = Some h"
    using client_invD(7) [OF cl_reachable_inv [OF assms(1)]] unfolding pending_ok_def by blast
  then show ?thesis using assms(2) by simp
qed simp

section \<open>Properties\<close>

text \<open>C8: The client keeps connections apart. In every reachable state, whatever the interleaving,
  the queue holds at most 100 packets; every packet sent belongs to a connection that was
  accepted, with that connection's identifier and endpoints and at least one byte of data; and
  every packet written to a local connection carries the identifier of that connection.\<close>

theorem client_keeps_connections_apart:
  assumes "cl_reachable services cl"
  shows "length (cl_queue cl) \<le> 100 \<and>
    (\<forall>p. ClientMessage_Packet p \<in> set (cl_sent cl) \<longrightarrow> Data p \<noteq> [] \<and>
      (\<exists>c h. cl_handlers cl c = Some h \<and> h_state h \<noteq> Rejected \<and> ConnectionId p = h_connID h \<and>
        ConnTuple p = Some (handler_tuple h))) \<and>
    (\<forall>(c, p) \<in> set (cl_written cl).
      \<exists>h. cl_handlers cl c = Some h \<and> h_state h \<noteq> Rejected \<and> ConnectionId p = h_connID h)"
proof -
  have inv: "client_inv cl" using assms by (rule cl_reachable_inv)
  have "length (cl_queue cl) \<le> 100"
    using client_invD(4) [OF inv] by (simp add: queue_ok_def packetChan_cap_def)
  moreover have "Data p \<noteq> [] \<and> (\<exists>c h. cl_handlers cl c = Some h \<and> h_state h \<noteq> Rejected \<and>
      ConnectionId p = h_connID h \<and> ConnTuple p = Some (handler_tuple h))"
    if "ClientMessage_Packet p \<in> set (cl_sent cl)" for p
    using client_invD(5) [OF inv] that unfolding sent_ok_def packet_of_conn_def by blast
  moreover have "\<exists>h. cl_handlers cl c = Some h \<and> h_state h \<noteq> Rejected \<and> ConnectionId p = h_connID h"
    if "(c, p) \<in> set (cl_written cl)" for c p
    using client_invD(6) [OF inv] that unfolding written_ok_def conn_has_id_def by fastforce
  ultimately show ?thesis by blast
qed

lemma Handle_open_v4:
  assumes "cn_TCP c" "cn_File c" "cn_OriginalDst4 c = Some \<lparr>sa_Port = be16 l h, sa_Addr = d\<rparr>" "length d = 4"
    and s: "length s = 4" "cn_RemoteAddr c = join_host_port (v4_string s) (dec (unat sp))"
  shows "Handle_open services c = Some \<lparr>h_connID = GenerateConnectionID (v4_mapped s) sp (v4_mapped d) (be16 h l),
     h_originalDest = join_host_port (v4_string d) (dec (unat (be16 h l))), h_srcIP = v4_mapped s,
     h_srcPort = sp, h_dstIP = v4_mapped d, h_dstPort = be16 h l, h_state = Running\<rparr>"
proof -
  have parse: "parseAddr services (join_host_port (v4_string a) (dec (unat p))) = Some (v4_string a, p)"
    for a and p :: u16
    using unat_u16_le [of p] by (simp add: parseAddr_def split_v4_port lookup_port_dec)
  show ?thesis
    using s GetOriginalDestAuto_ok [OF GetOriginalDest_ok [OF assms(1-4)]] assms(4)
    by (simp add: Handle_open_def parse parse_ip_v4_string Let_def)
qed


text \<open>A redirected IPv4 connection from \<open>s:sp\<close> that was made to \<open>d:dp\<close> is accepted whatever
  services the host knows. Its packets carry the identifier of these two endpoints, which is the
  identifier of the reply direction too, and name the endpoints in the text form; host and port
  of the destination of the packets joined give the original destination of the tracker.\<close>

theorem redirected_connection_opens:
  assumes "cn_TCP c" "cn_File c" "cn_OriginalDst4 c = Some \<lparr>sa_Port = be16 l h, sa_Addr = d\<rparr>" "length d = 4"
    and "length s = 4" "cn_RemoteAddr c = join_host_port (v4_string s) (dec (unat sp))"
  shows "\<exists>hd. Handle_open services c = Some hd \<and> h_state hd = Running \<and>
    h_connID hd = GenerateConnectionID (v4_mapped s) sp (v4_mapped d) (be16 h l) \<and>
    h_connID hd = GenerateConnectionID (v4_mapped d) (be16 h l) (v4_mapped s) sp \<and>
    handler_tuple hd = \<lparr>SrcIp = v4_string s, SrcPortN = ucast sp, DstIp = v4_string d, DstPortN = ucast (be16 h l)\<rparr> \<and>
    h_originalDest hd = join_host_port (DstIp (handler_tuple hd)) (dec (unat (DstPortN (handler_tuple hd))))"
proof -
  have "d \<noteq> []" "s \<noteq> []" using assms(4,5) by auto
  then have str: "ip_string (v4_mapped s) = v4_string s" "ip_string (v4_mapped d) = v4_string d"
    using assms(4,5) by (simp_all add: ip_string_v4)
  show ?thesis
    using id_preimage_swap [of "v4_mapped d" "be16 h l" "v4_mapped s" sp]
    by (simp add: Handle_open_v4 [OF assms] handler_tuple_def str unat_ucast_u16 GenerateConnectionID_def)
qed

text \<open>A host that knows no services.\<close>

definition no_services :: "string \<Rightarrow> int option" where
  "no_services = Map.empty"

theorem redirected_connection_opens_witness:
  "\<exists>hd. Handle_open no_services sample_conn = Some hd \<and>
     handler_tuple hd = \<lparr>SrcIp = ''10.0.0.5'', SrcPortN = 40000, DstIp = ''192.168.1.10'', DstPortN = 443\<rparr>"
proof -
  have dec: "dec 10 = ''10''" "dec 0 = ''0''" "dec 5 = ''5''" "dec 192 = ''192''" "dec 168 = ''168''" "dec (Suc 0) = ''1''"
    by (simp_all add: dec_eval)
  have "dec 40000 = ''40000''" by (simp add: dec_eval)
  then show ?thesis
    using redirected_connection_opens [of sample_conn "0xbb" "0x01" "[192, 168, 1, 10]" "[10, 0, 0, 5]" 40000 no_services]
    by (auto simp: sample_conn_def v4_string_def join_host_port_def dec be16_def)
qed

lemma read_then_send:
  assumes "cl_handlers cl c = Some h" "h_state h = Running" "c \<notin> set (tr_closed (cl_tracker cl))"
    and "data \<noteq> []" "length data \<le> 65535" "cl_queue cl = []" "cl_pending cl c = None" "cl_taken cl = None"
  shows "cl_exec services cl (ReadData c now data) = Some (handler_read c h now data cl)"
    and "cl_queue (handler_read c h now data cl) = [handler_packet c h now (length data)]"
    and "cl_bufs (handler_read c h now data cl) = (cl_bufs cl)(c := copy_at 0 data (cl_bufs cl c))"
    and "cl_sent (handler_read c h now data cl) = cl_sent cl"
    and "cl_handlers (handler_read c h now data cl) = cl_handlers cl"
    and "tr_closed (cl_tracker (handler_read c h now data cl)) = tr_closed (cl_tracker cl)"
    and "cl_pending (handler_read c h now data cl) = cl_pending cl" "cl_taken (handler_read c h now data cl) = None"
  using assms by (simp_all add: read_defs Let_def packetChan_cap_def UpdateActivity_def split: option.split)

text \<open>When no packet waits and the write loop sends before the next read, the bytes read from a
  connection are sent to the server verbatim, under the identifier and the endpoints of the
  connection, and nothing else is sent.\<close>

theorem read_bytes_sent_verbatim:
  assumes "cl_reachable services cl" "cl_handlers cl c = Some h" "h_state h = Running"
    and "c \<notin> set (tr_closed (cl_tracker cl))" "data \<noteq> []" "length data \<le> 65535" "cl_queue cl = []"
    and "cl_pending cl c = None" "cl_taken cl = None"
  shows "\<exists>cl'. cl_run services [ReadData c now data, WritePacket True] cl = Some cl' \<and> cl_queue cl' = [] \<and>
    cl_sent cl' = cl_sent cl @ [ClientMessage_Packet \<lparr>ConnectionId = h_connID h, Data = data,
      ConnTuple = Some (handler_tuple h), PktProtocol = Protocol_PROTOCOL_TCP,
      Direction = Direction_DIRECTION_FORWARD, Timestamp = unix_time now\<rparr>]"
proof -
  have "length (cl_bufs cl c) = 65535"
    using client_invD(4) [OF cl_reachable_inv [OF assms(1)]] by (simp add: queue_ok_def)
  then show ?thesis
    using assms(6) take_copy_at [of "length data" data "cl_bufs cl c"]
    by (simp add: read_then_send [OF assms(2-9)] marshal_def handler_packet_def del: cl_exec.simps(2))
qed


definition sample_handler :: "(string \<Rightarrow> int option) \<Rightarrow> handler" where
  "sample_handler services = the (Handle_open services sample_conn)"

definition sample_client :: "(string \<Rightarrow> int option) \<Rightarrow> client" where
  "sample_client services = accept_conn services 1 sample_conn 0 client_init"

lemma sample_opens: "Handle_open services sample_conn = Some (sample_handler services)"
    "h_state (sample_handler services) = Running"
proof -
  have "dec 10 = ''10''" "dec 0 = ''0''" "dec 5 = ''5''" "dec 40000 = ''40000''"
    by (simp_all add: dec_eval)
  then have r: "cn_RemoteAddr sample_conn = join_host_port (v4_string [10, 0, 0, 5]) (dec (unat (40000 :: u16)))"
    by (simp add: sample_conn_def v4_string_def join_host_port_def)
  have "cn_TCP sample_conn" "cn_File sample_conn"
    "cn_OriginalDst4 sample_conn = Some \<lparr>sa_Port = be16 0xbb 0x01, sa_Addr = [192, 168, 1, 10]\<rparr>"
    by (simp_all add: sample_conn_def)
  note o = Handle_open_v4 [OF this _ _ r, of services]
  show "Handle_open services sample_conn = Some (sample_handler services)"
    "h_state (sample_handler services) = Running"
    using o by (simp_all add: sample_handler_def)
qed

lemma sample_client:
  "cl_reachable services (sample_client services)"
  "cl_handlers (sample_client services) 1 = Some (sample_handler services)"
  "tr_closed (cl_tracker (sample_client services)) = []" "cl_queue (sample_client services) = []"
  "cl_reader (sample_client services) = RIdle" "cl_pending (sample_client services) = Map.empty"
  "cl_taken (sample_client services) = None"
proof -
  have "cl_exec services client_init (Accept 1 sample_conn 0) = Some (sample_client services)"
    by (simp add: sample_client_def client_init_def)
  then show "cl_reachable services (sample_client services)" by (rule cl_step [OF cl_init])
qed (simp_all add: sample_client_def accept_conn_def sample_opens client_init_def Track_def
  NewConnectionTracker_def Let_def)

theorem client_keeps_connections_apart_witness:
  "length (cl_queue (sample_client no_services)) \<le> 100"
  using client_keeps_connections_apart [OF sample_client(1) [of no_services]] by simp

theorem read_bytes_sent_verbatim_witness:
  "\<exists>cl'. cl_run no_services [ReadData 1 0 [7, 8, 9], WritePacket True] (sample_client no_services) = Some cl' \<and>
     cl_queue cl' = []"
  using read_bytes_sent_verbatim [OF sample_client(1,2) sample_opens(2) _ _ _ sample_client(4) _ sample_client(7),
      where data = "[7, 8, 9]" and now = 0]
  by (auto simp: sample_client(3,6) simp del: cl_run.simps)

text \<open>C29: A packet that waits keeps a slice of the read buffer, so a second read before the write
  loop gets to it changes what is sent: when the second read is at least as long, the first
  packet goes out with the bytes of the second, and the bytes of the first are never sent.\<close>

theorem second_read_overwrites_first:
  assumes "cl_reachable services cl" "cl_handlers cl c = Some h" "h_state h = Running"
    and "c \<notin> set (tr_closed (cl_tracker cl))" "in_flight cl = []" "cl_pending cl c = None"
    and "d1 \<noteq> []" "length d1 \<le> length d2" "length d2 \<le> 65535"
  shows "\<exists>cl' p1 p2. cl_run services [ReadData c t1 d1, ReadData c t2 d2, WritePacket True, WritePacket True] cl = Some cl' \<and>
    cl_sent cl' = cl_sent cl @ [ClientMessage_Packet p1, ClientMessage_Packet p2] \<and>
    Data p1 = take (length d1) d2 \<and> Data p2 = d2"
proof -
  let ?cl1 = "handler_read c h t1 d1 cl" and ?p1 = "handler_packet c h t1 (length d1)"
    and ?p2 = "handler_packet c h t2 (length d2)"
  have d: "d2 \<noteq> []" "length d1 \<le> 65535" "cl_queue cl = []" "cl_taken cl = None" using assms(5,7-9) by auto
  note one = read_then_send [OF assms(2-4,7) d(2,3) assms(6) d(4), where now = t1]
  have two: "cl_exec services ?cl1 (ReadData c t2 d2) = Some (handler_read c h t2 d2 ?cl1)"
      "cl_queue (handler_read c h t2 d2 ?cl1) = [?p1, ?p2]"
      "cl_bufs (handler_read c h t2 d2 ?cl1) c = copy_at 0 d2 (copy_at 0 d1 (cl_bufs cl c))"
      "cl_sent (handler_read c h t2 d2 ?cl1) = cl_sent cl" "cl_taken (handler_read c h t2 d2 ?cl1) = None"
    using assms(2-4,6,9) d one by (simp_all add: handler_read_def [of c h t2] queue_read_def fill_buffer_def Let_def packetChan_cap_def)
  have "length (cl_bufs cl c) = 65535"
    using client_invD(4) [OF cl_reachable_inv [OF assms(1)]] by (simp add: queue_ok_def)
  then have "take (length d1) (copy_at 0 d2 (copy_at 0 d1 (cl_bufs cl c))) = take (length d1) d2"
    "take (length d2) (copy_at 0 d2 (copy_at 0 d1 (cl_bufs cl c))) = d2"
    using assms(8,9) by (simp_all add: take_copy_at)
  then show ?thesis
    by (simp add: one(1) two marshal_def handler_packet_def del: cl_exec.simps(2))
qed

theorem second_read_overwrites_first_witness:
  "\<exists>cl' p1 p2. cl_run no_services [ReadData 1 0 [1, 2], ReadData 1 0 [3, 4], WritePacket True, WritePacket True]
       (sample_client no_services) = Some cl' \<and>
     cl_sent cl' = cl_sent (sample_client no_services) @ [ClientMessage_Packet p1, ClientMessage_Packet p2] \<and>
     Data p1 = [3, 4] \<and> Data p2 = [3, 4]"
  using second_read_overwrites_first [OF sample_client(1,2) sample_opens(2) _ _ _,
      where ?d1.0 = "[1, 2]" and ?d2.0 = "[3, 4]" and ?t1.0 = 0 and ?t2.0 = 0]
  by (simp add: sample_client(3,4,6,7) del: cl_run.simps)

text \<open>C31: A local connection that reuses the endpoints of an earlier one has the same identifier.
  Tracking it replaces the entry of the earlier connection, and when the earlier handler
  returns, its deferred removal closes the new connection and forgets it, while the handler of
  the new connection still runs.\<close>

theorem stale_handler_closes_new:
  assumes "Handle_open services conn = Some h"
  shows "\<exists>cl. cl_run services [Accept 1 conn t1, Accept 2 conn t2, ReadFails 1] client_init = Some cl \<and>
    2 \<in> set (tr_closed (cl_tracker cl)) \<and> Get (h_connID h) (cl_tracker cl) = None \<and>
    cl_handlers cl 2 = Some h \<and> h_state h = Running"
proof -
  have "h_state h = Running"
    using assms by (auto simp: Handle_open_def Let_def split: outcome.splits option.splits)
  then show ?thesis
    by (simp add: accept_conn_def assms client_init_def handler_return_def Remove_def Track_def
      NewConnectionTracker_def close_conn_def Get_def Let_def)
qed

theorem stale_handler_closes_new_witness:
  "\<exists>cl. cl_run no_services [Accept 1 sample_conn 0, Accept 2 sample_conn 5, ReadFails 1] client_init = Some cl \<and>
     2 \<in> set (tr_closed (cl_tracker cl))"
  using stale_handler_closes_new [OF sample_opens(1), where ?t1.0 = 0 and ?t2.0 = 5] by blast

text \<open>Delivery of a response. A packet of a tracked, open connection is written to that
  connection, its bytes as they are, and marks the connection active; a packet of an unknown
  connection is dropped and changes nothing.\<close>

theorem response_delivered:
  assumes "cl_reachable services cl" "cl_reader cl = RIdle"
  shows "case Get (ConnectionId pkt) (cl_tracker cl) of
      None \<Rightarrow> cl_exec services cl (RecvMsg (ClientMessage_Packet pkt)) = Some cl
    | Some s \<Rightarrow> st_LocalConn s \<notin> set (tr_closed (cl_tracker cl)) \<longrightarrow>
        (\<exists>cl'. cl_run services [RecvMsg (ClientMessage_Packet pkt), TouchState now, WriteLocal True] cl = Some cl' \<and>
          cl_written cl' = cl_written cl @ [(st_LocalConn s, pkt)] \<and> cl_reader cl' = RIdle \<and>
          Get (ConnectionId pkt) (cl_tracker cl') = Some (s\<lparr>st_LastActivity := now\<rparr>))"
proof (cases "tr_connections (cl_tracker cl) (ConnectionId pkt)")
  case None
  then show ?thesis by (simp add: Get_def assms(2) DeliverResponse_lookup_def)
next
  case (Some ref)
  have "ref < length (tr_states (cl_tracker cl))"
    using tracker_okD [OF client_invD(1) [OF cl_reachable_inv [OF assms(1)]] Some] by simp
  then show ?thesis
    by (simp add: Get_def Some assms(2) DeliverResponse_lookup_def write_local_def DeliverResponse_write_def
      touch_def Let_def)
qed

theorem response_delivered_witness:
  "case Get (h_connID (sample_handler no_services)) (cl_tracker (sample_client no_services)) of
      None \<Rightarrow> False
    | Some s \<Rightarrow> (\<exists>cl'. cl_run no_services [RecvMsg (ClientMessage_Packet
         \<lparr>ConnectionId = h_connID (sample_handler no_services), Data = [5], ConnTuple = None,
          PktProtocol = Protocol_PROTOCOL_TCP, Direction = Direction_DIRECTION_REVERSE, Timestamp = 0\<rparr>),
         TouchState 9, WriteLocal True] (sample_client no_services) = Some cl')"
proof -
  have g: "Get (h_connID (sample_handler no_services)) (cl_tracker (sample_client no_services)) =
      Some \<lparr>st_ConnectionID = h_connID (sample_handler no_services),
        st_OriginalDest = h_originalDest (sample_handler no_services), st_LocalConn = 1, st_CreatedAt = 0, st_LastActivity = 0\<rparr>"
    by (simp add: sample_client_def accept_conn_def sample_opens client_init_def)
      (simp add: Get_def Track_def NewConnectionTracker_def Let_def)
  show ?thesis
    using response_delivered [OF sample_client(1,5) [of no_services], where now = 9 and pkt =
        "\<lparr>ConnectionId = h_connID (sample_handler no_services), Data = [5], ConnTuple = None,
          PktProtocol = Protocol_PROTOCOL_TCP, Direction = Direction_DIRECTION_REVERSE, Timestamp = 0\<rparr>"]
    by (auto simp: g sample_client(3) simp del: cl_run.simps)
qed

lemma length_charset: "length charset = 62"
  by (simp add: charset_def)

text \<open>Registration of the client. It succeeds exactly when the message is sent and the answer
  is a positive acknowledgement. The client registers the configured identifier, or, when none
  is configured, \<open>client-\<close> and as many letters and digits as random numbers are drawn. Exactly one
  message is sent, unless sending fails.\<close>

theorem client_registration:
  assumes "\<forall>n \<in> set randoms. n < 62" "client_register_with configID randoms send_ok reply = (clientID, sent, err)"
  shows "(err = None \<longleftrightarrow> send_ok \<and> (\<exists>ack. reply = Some (ClientMessage_Ack ack) \<and> Success ack)) \<and>
    sent = (if send_ok then [ClientMessage_Register \<lparr>ClientId = clientID\<rparr>] else []) \<and>
    (configID \<noteq> '''' \<longrightarrow> clientID = configID) \<and>
    (configID = '''' \<longrightarrow> (\<exists>s. clientID = ''client-'' @ s \<and> length s = length randoms \<and> set s \<subseteq> set charset))"
proof -
  have "set (generateAlphanumericID randoms) \<subseteq> set charset"
    using assms(1) length_charset by (auto simp: generateAlphanumericID_def)
  moreover have "length (generateAlphanumericID randoms) = length randoms"
    by (simp add: generateAlphanumericID_def)
  ultimately show ?thesis
    using assms(2) unfolding client_register_with_def Let_def
    by (auto split: if_splits option.splits client_message.splits)
qed

theorem client_registration_witness:
  "snd (snd (client_register_with '''' [0, 61] True None)) \<noteq> None"
  using client_registration [of "[0, 61]" "''''" True None "''client-a9''"
      "[ClientMessage_Register \<lparr>ClientId = ''client-a9''\<rparr>]" "Some ReadRegistrationFailed"]
  by (simp add: client_register_with_def generateAlphanumericID_def charset_def Let_def)

text \<open>A run of reads of one byte each fills the channel.\<close>

lemma tr_closed_Update [simp]: "tr_closed (UpdateActivity now i t) = tr_closed t"
  by (simp add: UpdateActivity_def split: option.split)

lemma reads_fill_queue:
  assumes "cl_handlers cl k = Some h" "h_state h = Running" "k \<notin> set (tr_closed (cl_tracker cl))" "cl_pending cl k = None"
  shows "length (cl_queue cl) + n \<le> packetChan_cap \<Longrightarrow>
    \<exists>cl'. cl_run services (replicate n (ReadData k now [b])) cl = Some cl' \<and> length (cl_queue cl') = length (cl_queue cl) + n \<and>
      cl_handlers cl' = cl_handlers cl \<and> tr_closed (cl_tracker cl') = tr_closed (cl_tracker cl) \<and>
      cl_pending cl' = cl_pending cl \<and> cl_taken cl' = cl_taken cl \<and>
      (\<forall>q \<in> set (cl_queue cl'). q \<in> set (cl_queue cl) \<or> op_buf q = k)"
  using assms
proof (induction n arbitrary: cl)
  case (Suc n)
  let ?cl1 = "handler_read k h now [b] cl"
  have e: "cl_exec services cl (ReadData k now [b]) = Some ?cl1" using Suc.prems by simp
  have cl1: "cl_queue ?cl1 = cl_queue cl @ [handler_packet k h now 1]" "cl_handlers ?cl1 = cl_handlers cl"
    "tr_closed (cl_tracker ?cl1) = tr_closed (cl_tracker cl)" "cl_pending ?cl1 = cl_pending cl" "cl_taken ?cl1 = cl_taken cl"
    using Suc.prems(1) by (simp_all add: read_defs Let_def)
  have "op_buf (handler_packet k h now (Suc 0)) = k" by (simp add: handler_packet_def)
  moreover obtain cl' where "cl_run services (replicate n (ReadData k now [b])) ?cl1 = Some cl'"
      "length (cl_queue cl') = Suc (length (cl_queue cl) + n)" "cl_handlers cl' = cl_handlers cl"
      "tr_closed (cl_tracker cl') = tr_closed (cl_tracker cl)" "cl_pending cl' = cl_pending cl" "cl_taken cl' = cl_taken cl"
      "\<forall>q \<in> set (cl_queue cl'). q \<in> set (cl_queue ?cl1) \<or> op_buf q = k"
    using Suc.IH [of ?cl1] Suc.prems cl1 by auto
  ultimately show ?case using e cl1(1) by (intro exI [of _ cl']) (auto simp del: cl_exec.simps)
qed auto

text \<open>Nothing but the write loop runs until the channel is empty.\<close>

lemma drain_queue:
  "cl_taken cl = None \<Longrightarrow> cl_run services (replicate (length (cl_queue cl)) (WritePacket True)) cl =
    Some (cl\<lparr>cl_queue := [], cl_sent := cl_sent cl @ map (\<lambda>q. ClientMessage_Packet (marshal (cl_bufs cl) q)) (cl_queue cl)\<rparr>)"
proof (induction "cl_queue cl" arbitrary: cl)
  case (Cons q qs)
  let ?cl1 = "cl\<lparr>cl_queue := qs, cl_sent := cl_sent cl @ [ClientMessage_Packet (marshal (cl_bufs cl) q)]\<rparr>"
  have "cl_exec services cl (WritePacket True) = Some ?cl1" using Cons.prems Cons.hyps(2) [symmetric] by simp
  then show ?case using Cons.hyps(1) [of ?cl1] Cons.prems Cons.hyps(2) [symmetric] by simp
qed (cases cl, simp)

lemma cl_run_append:
  "cl_run services (es @ es') cl = (case cl_run services es cl of None \<Rightarrow> None | Some cl' \<Rightarrow> cl_run services es' cl')"
  by (induction es arbitrary: cl) (auto split: option.split)

text \<open>C25: A full channel tears a hole into a stream. When a handler none of whose packets wait reads while
  the channel is full, what it read is never sent: after everything that waits has been sent, the
  next packet of its connection carries the bytes of its next read, while the connection is still
  open and its handler runs. (If packets of the same handler do wait, the read overwrites them.)\<close>

theorem full_channel_loses_bytes:
  assumes "cl_reachable services cl" "cl_handlers cl k = Some h" "h_state h = Running" "k \<notin> set (tr_closed (cl_tracker cl))"
    and "cl_pending cl k = None" "cl_taken cl = None" "length (cl_queue cl) = packetChan_cap"
    and "\<forall>q \<in> set (cl_queue cl). op_buf q \<noteq> k"
    and "length data \<le> 65535" "data' \<noteq> []" "length data' \<le> 65535"
  shows "\<exists>cl'. cl_run services ([ReadData k now data] @ replicate packetChan_cap (WritePacket True) @
      [ReadData k now' data', WritePacket True]) cl = Some cl' \<and>
    cl_sent cl' = cl_sent cl @ map (\<lambda>q. ClientMessage_Packet (marshal (cl_bufs cl) q)) (cl_queue cl) @
      [ClientMessage_Packet \<lparr>ConnectionId = h_connID h, Data = data', ConnTuple = Some (handler_tuple h),
        PktProtocol = Protocol_PROTOCOL_TCP, Direction = Direction_DIRECTION_FORWARD, Timestamp = unix_time now'\<rparr>] \<and>
    cl_queue cl' = [] \<and> cl_handlers cl' k = Some h \<and> k \<notin> set (tr_closed (cl_tracker cl'))"
proof -
  let ?cl1 = "handler_read k h now data cl"
  have e: "cl_exec services cl (ReadData k now data) = Some ?cl1" using assms(2-5,9) by simp
  have cl1: "cl_queue ?cl1 = cl_queue cl" "cl_taken ?cl1 = None" "cl_sent ?cl1 = cl_sent cl" "cl_handlers ?cl1 = cl_handlers cl"
      "cl_pending ?cl1 = cl_pending cl" "tr_closed (cl_tracker ?cl1) = tr_closed (cl_tracker cl)"
      "\<And>c. c \<noteq> k \<Longrightarrow> cl_bufs ?cl1 c = cl_bufs cl c"
    using assms(6,7) by (simp_all add: read_defs Let_def)
  let ?cl2 = "?cl1\<lparr>cl_queue := [], cl_sent := cl_sent ?cl1 @ map (\<lambda>q. ClientMessage_Packet (marshal (cl_bufs ?cl1) q)) (cl_queue ?cl1)\<rparr>"
  have d: "cl_run services (replicate packetChan_cap (WritePacket True)) ?cl1 = Some ?cl2"
    using drain_queue [OF cl1(2), of services] by (simp add: cl1(1) assms(7))
  have "marshal (cl_bufs ?cl1) q = marshal (cl_bufs cl) q" if "q \<in> set (cl_queue cl)" for q
    using that assms(8) cl1(7) by (simp add: marshal_def)
  then have sent: "cl_sent ?cl2 = cl_sent cl @ map (\<lambda>q. ClientMessage_Packet (marshal (cl_bufs cl) q)) (cl_queue cl)"
    by (simp add: cl1(1,3))
  have "cl_reachable services ?cl2" by (rule cl_reachable_run [OF cl_step [OF assms(1) e] d])
  then have "length (cl_bufs ?cl2 k) = 65535" using client_invD(4) [OF cl_reachable_inv, of services ?cl2] by (simp add: queue_ok_def)
  then have "take (length data') (copy_at 0 data' (cl_bufs ?cl2 k)) = data'"
    using take_copy_at [of "length data'" data' "cl_bufs ?cl2 k"] assms(11) by simp
  moreover have "cl_handlers ?cl2 k = Some h" "k \<notin> set (tr_closed (cl_tracker ?cl2))" "cl_queue ?cl2 = []" "cl_pending ?cl2 k = None"
      "cl_taken ?cl2 = None" using cl1 assms(2,4,5) by simp_all
  note r = read_then_send [OF this(1) assms(3) this(2) assms(10,11) this(3-5), where now = now']
  ultimately have "\<exists>cl'. cl_run services [ReadData k now' data', WritePacket True] ?cl2 = Some cl' \<and>
    cl_sent cl' = cl_sent ?cl2 @ [ClientMessage_Packet \<lparr>ConnectionId = h_connID h, Data = data', ConnTuple = Some (handler_tuple h),
        PktProtocol = Protocol_PROTOCOL_TCP, Direction = Direction_DIRECTION_FORWARD, Timestamp = unix_time now'\<rparr>] \<and>
    cl_queue cl' = [] \<and> cl_handlers cl' k = Some h \<and> k \<notin> set (tr_closed (cl_tracker cl'))"
    using assms(2,4) cl1(4,6) by (simp add: r marshal_def handler_packet_def del: cl_exec.simps(2))
  then show ?thesis using e d by (simp add: cl_run_append sent del: cl_exec.simps(2))
qed

text \<open>A second connection, which reads when packets of the first fill the channel.\<close>

definition sample_conn2 :: net_conn where
  "sample_conn2 = sample_conn\<lparr>cn_RemoteAddr := ''10.0.0.5:40001''\<rparr>"

lemma sample_opens2:
  obtains h where "Handle_open services sample_conn2 = Some h" "h_state h = Running"
proof -
  have "dec 10 = ''10''" "dec 0 = ''0''" "dec 5 = ''5''" "dec 40001 = ''40001''"
    by (simp_all add: dec_eval)
  then have r: "cn_RemoteAddr sample_conn2 = join_host_port (v4_string [10, 0, 0, 5]) (dec (unat (40001 :: u16)))"
    by (simp add: sample_conn2_def v4_string_def join_host_port_def)
  have "cn_TCP sample_conn2" "cn_File sample_conn2"
    "cn_OriginalDst4 sample_conn2 = Some \<lparr>sa_Port = be16 0xbb 0x01, sa_Addr = [192, 168, 1, 10]\<rparr>"
    by (simp_all add: sample_conn2_def sample_conn_def)
  note Handle_open_v4 [OF this _ _ r, of services]
  then show thesis using that by simp
qed

theorem full_channel_loses_bytes_witness:
  "\<exists>cl cl'. cl_run no_services (Accept 2 sample_conn2 0 # replicate 100 (ReadData 1 0 [7])) (sample_client no_services) = Some cl \<and>
     cl_run no_services ([ReadData 2 1 [8]] @ replicate 100 (WritePacket True) @ [ReadData 2 2 [9], WritePacket True]) cl = Some cl' \<and>
     (\<exists>p. last (cl_sent cl') = ClientMessage_Packet p \<and> Data p = [9]) \<and> length (cl_sent cl') = length (cl_sent cl) + 101"
proof -
  obtain h where h: "Handle_open no_services sample_conn2 = Some h" "h_state h = Running" by (rule sample_opens2)
  let ?cl0 = "accept_conn no_services 2 sample_conn2 0 (sample_client no_services)"
  have c: "cl_handlers (sample_client no_services) 2 = None"
    by (simp add: sample_client_def accept_conn_def sample_opens client_init_def)
  have e: "cl_exec no_services (sample_client no_services) (Accept 2 sample_conn2 0) = Some ?cl0" by (simp add: c)
  have cl0: "cl_handlers ?cl0 1 = Some (sample_handler no_services)" "cl_handlers ?cl0 2 = Some h" "cl_queue ?cl0 = []"
      "cl_pending ?cl0 = Map.empty" "cl_taken ?cl0 = None" "tr_closed (cl_tracker ?cl0) = []"
    using sample_client [of no_services] by (simp_all add: accept_conn_def h Track_def Let_def)
  obtain cl where cl: "cl_run no_services (replicate 100 (ReadData 1 0 [7])) ?cl0 = Some cl"
      "length (cl_queue cl) = packetChan_cap" "cl_handlers cl = cl_handlers ?cl0" "tr_closed (cl_tracker cl) = []"
      "cl_pending cl = Map.empty" "cl_taken cl = None" "\<forall>q \<in> set (cl_queue cl). op_buf q \<noteq> 2"
    using reads_fill_queue [OF cl0(1) sample_opens(2), where n = 100 and services = no_services and now = 0 and b = 7]
    by (auto simp: packetChan_cap_def cl0)
  have "cl_reachable no_services cl" by (rule cl_reachable_run [OF cl_step [OF sample_client(1) e] cl(1)])
  moreover have "cl_handlers cl 2 = Some h" "2 \<notin> set (tr_closed (cl_tracker cl))" "cl_pending cl 2 = None"
    using cl cl0 by simp_all
  ultimately obtain cl' where
      "cl_run no_services ([ReadData 2 1 [8]] @ replicate packetChan_cap (WritePacket True) @ [ReadData 2 2 [9], WritePacket True]) cl = Some cl'"
      "cl_sent cl' = cl_sent cl @ map (\<lambda>q. ClientMessage_Packet (marshal (cl_bufs cl) q)) (cl_queue cl) @
      [ClientMessage_Packet \<lparr>ConnectionId = h_connID h, Data = [9], ConnTuple = Some (handler_tuple h),
        PktProtocol = Protocol_PROTOCOL_TCP, Direction = Direction_DIRECTION_FORWARD, Timestamp = unix_time 2\<rparr>]"
    using full_channel_loses_bytes [OF _ _ h(2) _ _ cl(6,2,7), of no_services "[8]" "[9]" 1 2] by auto
  moreover have "cl_run no_services (Accept 2 sample_conn2 0 # replicate 100 (ReadData 1 0 [7])) (sample_client no_services) = Some cl"
    using e cl(1) by (simp only: cl_run.simps option.case)
  ultimately show ?thesis using cl(2) by (intro exI [of _ cl] exI [of _ cl']) (simp add: packetChan_cap_def del: cl_run.simps)
qed

end
