(* ===== verification/Forwarder.thy ===== *)
theory Forwarder
  imports IdleTable Proto
begin

text \<open>
  \<open>internal/proxy/forwarder.go\<close>: the proxy's table of connections to targets. As in the client, a
  \<open>ConnectionState\<close> is an object that its reader and \<open>Forward\<close> hold while the lock is released,
  so states live in a heap and the table maps identifiers to pointers. A target connection is
  named by a number; dialling is an event of the environment that gives a fresh number or fails.
\<close>

record target_state =
  ts_ConnectionID :: string
  ts_TargetAddr :: string
  ts_TargetConn :: nat
  ts_CreatedAt :: int
  ts_LastActivity :: int

record forwarder =
  pf_connections :: "string \<rightharpoonup> nat"
  pf_states :: "target_state list"
  pf_closed :: "nat list"
  pf_cancelled :: bool

definition NewPacketForwarder :: forwarder where
  "NewPacketForwarder = \<lparr>pf_connections = Map.empty, pf_states = [], pf_closed = [], pf_cancelled = False\<rparr>"

definition close_target :: "nat \<Rightarrow> forwarder \<Rightarrow> forwarder" where
  "close_target c pf = pf\<lparr>pf_closed := c # pf_closed pf\<rparr>"

definition touch_target :: "int \<Rightarrow> nat \<Rightarrow> forwarder \<Rightarrow> forwarder" where
  "touch_target now ref pf = pf\<lparr>pf_states := (pf_states pf)[ref := (pf_states pf ! ref)\<lparr>ts_LastActivity := now\<rparr>]\<rparr>"

datatype forward_error =
    DialFailed string
  | TargetWriteFailed

section \<open>Forward\<close>

text \<open>
  The part under the lock: it gives the pointer of the state to write to. \<open>dialed\<close> is the result of
  \<open>DialTimeout\<close>. A packet that needs a new connection and has no tuple is a nil dereference.
  The other two parts are the write, outside the lock, and the removal when it fails.
\<close>

definition target_addr :: "pb_tuple \<Rightarrow> string" where
  "target_addr t = join_host_port (DstIp t) (dec (unat (DstPortN t)))"

definition Forward_enter ::
  "int \<Rightarrow> nat option \<Rightarrow> packet \<Rightarrow> forwarder \<Rightarrow> (forward_error, forwarder \<times> nat) outcome" where
  "Forward_enter now dialed pkt pf =
     (case pf_connections pf (ConnectionId pkt) of
        None \<Rightarrow>
          (case ConnTuple pkt of
             None \<Rightarrow> Panic
           | Some t \<Rightarrow>
               let targetAddr = target_addr t in
               case dialed of
                 None \<Rightarrow> Err (DialFailed targetAddr)
               | Some conn \<Rightarrow>
                   let state = \<lparr>ts_ConnectionID = ConnectionId pkt, ts_TargetAddr = targetAddr,
                         ts_TargetConn = conn, ts_CreatedAt = now, ts_LastActivity = now\<rparr>;
                       ref = length (pf_states pf)
                   in Ok (pf\<lparr>pf_connections := (pf_connections pf)(ConnectionId pkt \<mapsto> ref),
                             pf_states := pf_states pf @ [state]\<rparr>, ref))
      | Some ref \<Rightarrow> Ok (touch_target now ref pf, ref))"

text \<open>The operating system decides whether a write succeeds, except on a closed connection. The result is the target that
  received the data whole; a \<open>Write\<close> that fails after some of the bytes is a failed write, as it is for the source.\<close>

definition Forward_write :: "bool \<Rightarrow> nat \<Rightarrow> forwarder \<Rightarrow> nat option" where
  "Forward_write os_ok ref pf =
     (let c = ts_TargetConn (pf_states pf ! ref) in
      if os_ok \<and> c \<notin> set (pf_closed pf) then Some c else None)"

definition removeConnection :: "string \<Rightarrow> forwarder \<Rightarrow> forwarder" where
  "removeConnection connID pf =
     (case pf_connections pf connID of
        None \<Rightarrow> pf
      | Some ref \<Rightarrow>
          let pf = close_target (ts_TargetConn (pf_states pf ! ref)) pf
          in pf\<lparr>pf_connections := (pf_connections pf)(connID := None)\<rparr>)"

text \<open>The whole of \<open>Forward\<close>, when nothing runs between its parts: the new table, and the target
  connection that received the data.\<close>

definition Forward ::
  "int \<Rightarrow> nat option \<Rightarrow> bool \<Rightarrow> packet \<Rightarrow> forwarder \<Rightarrow> forwarder \<times> (forward_error, nat \<times> byte list) outcome" where
  "Forward now dialed os_ok pkt pf =
     (case Forward_enter now dialed pkt pf of
        Err e \<Rightarrow> (pf, Err e)
      | Panic \<Rightarrow> (pf, Panic)
      | Ok (pf, ref) \<Rightarrow>
          (case Forward_write os_ok ref pf of
             None \<Rightarrow> (removeConnection (ConnectionId pkt) pf, Err TargetWriteFailed)
           | Some c \<Rightarrow> (pf, Ok (c, Data pkt))))"

section \<open>Cleanup\<close>

fun target_cleanup_loop :: "int \<Rightarrow> int \<Rightarrow> string list \<Rightarrow> nat \<Rightarrow> forwarder \<Rightarrow> forwarder \<times> nat" where
  "target_cleanup_loop now maxIdleTime [] removed pf = (pf, removed)"
| "target_cleanup_loop now maxIdleTime (connID # rest) removed pf =
     (case pf_connections pf connID of
        None \<Rightarrow> target_cleanup_loop now maxIdleTime rest removed pf
      | Some ref \<Rightarrow>
          if time_sub now (ts_LastActivity (pf_states pf ! ref)) > maxIdleTime
          then let pf = close_target (ts_TargetConn (pf_states pf ! ref)) pf;
                   pf = pf\<lparr>pf_connections := (pf_connections pf)(connID := None)\<rparr>
               in target_cleanup_loop now maxIdleTime rest (removed + 1) pf
          else target_cleanup_loop now maxIdleTime rest removed pf)"

definition Forwarder_Cleanup :: "int \<Rightarrow> int \<Rightarrow> string list \<Rightarrow> forwarder \<Rightarrow> forwarder \<times> nat" where
  "Forwarder_Cleanup now maxIdleTime order pf = target_cleanup_loop now maxIdleTime order 0 pf"

definition Forwarder_Count :: "forwarder \<Rightarrow> nat" where
  "Forwarder_Count pf = map_len (pf_connections pf)"

section \<open>Reading from a target\<close>

text \<open>
  The places of a reader's loop: before the check of the context, in \<open>Read\<close>, after a read that
  gave data, before the channel, and returned. The bytes are copied out of the buffer before
  the packet is queued, so a packet owns its data.
\<close>

datatype target_reader = RTop | RBlocked | RGot "byte list" | RSending packet | RDone

definition responsePkt :: "target_state \<Rightarrow> int \<Rightarrow> byte list \<Rightarrow> packet" where
  "responsePkt s now data =
     \<lparr>ConnectionId = ts_ConnectionID s, Data = data, ConnTuple = None,
      PktProtocol = Protocol_PROTOCOL_TCP, Direction = Direction_DIRECTION_REVERSE, Timestamp = unix_time now\<rparr>"

section \<open>Invariant\<close>

text \<open>
  The table points to states that carry their identifier, and every connection ever dialled is
  in the table or has been closed.
\<close>

definition forwarder_ok :: "forwarder \<Rightarrow> bool" where
  "forwarder_ok pf \<longleftrightarrow> finite (dom (pf_connections pf)) \<and>
     (\<forall>i ref. pf_connections pf i = Some ref \<longrightarrow>
        ref < length (pf_states pf) \<and> ts_ConnectionID (pf_states pf ! ref) = i) \<and>
     (\<forall>ref < length (pf_states pf).
        pf_connections pf (ts_ConnectionID (pf_states pf ! ref)) = Some ref \<or>
        ts_TargetConn (pf_states pf ! ref) \<in> set (pf_closed pf))"

lemma forwarder_okD:
  assumes "forwarder_ok pf" "pf_connections pf i = Some ref"
  shows "ref < length (pf_states pf)" "ts_ConnectionID (pf_states pf ! ref) = i"
  using assms by (simp_all add: forwarder_ok_def)

lemma forwarder_ok_no_leak:
  "forwarder_ok pf \<Longrightarrow> ref < length (pf_states pf) \<Longrightarrow>
   pf_connections pf (ts_ConnectionID (pf_states pf ! ref)) = Some ref \<or>
   ts_TargetConn (pf_states pf ! ref) \<in> set (pf_closed pf)"
  by (simp add: forwarder_ok_def)

lemma forwarder_ok_new: "forwarder_ok NewPacketForwarder"
  by (simp add: forwarder_ok_def NewPacketForwarder_def)

lemma touch_target_sel [simp]:
  "pf_connections (touch_target now ref pf) = pf_connections pf"
  "pf_closed (touch_target now ref pf) = pf_closed pf"
  "pf_cancelled (touch_target now ref pf) = pf_cancelled pf"
  "length (pf_states (touch_target now ref pf)) = length (pf_states pf)"
  by (simp_all add: touch_target_def)

lemma touch_target_field:
  "(\<And>s. f (s\<lparr>ts_LastActivity := now\<rparr>) = f s) \<Longrightarrow>
   f (pf_states (touch_target now ref pf) ! k) = f (pf_states pf ! k)"
  unfolding touch_target_def by (simp add: nth_update_field)

lemma close_target_sel [simp]:
  "pf_connections (close_target c pf) = pf_connections pf"
  "pf_states (close_target c pf) = pf_states pf"
  "pf_closed (close_target c pf) = c # pf_closed pf"
  "pf_cancelled (close_target c pf) = pf_cancelled pf"
  by (simp_all add: close_target_def)

lemma forwarder_ok_touch: "forwarder_ok pf \<Longrightarrow> forwarder_ok (touch_target now ref pf)"
  by (simp add: forwarder_ok_def touch_target_field [of ts_ConnectionID] touch_target_field [of ts_TargetConn])

text \<open>Closing and deleting one entry.\<close>

lemma forwarder_ok_drop:
  assumes "forwarder_ok pf" "pf_connections pf i = Some ref"
  shows "forwarder_ok ((close_target (ts_TargetConn (pf_states pf ! ref)) pf)
    \<lparr>pf_connections := (pf_connections pf)(i := None)\<rparr>)"
  unfolding forwarder_ok_def
proof (intro conjI allI impI)
  fix k
  assume k: "k < length (pf_states ((close_target (ts_TargetConn (pf_states pf ! ref)) pf)
    \<lparr>pf_connections := (pf_connections pf)(i := None)\<rparr>))"
  then have "pf_connections pf (ts_ConnectionID (pf_states pf ! k)) = Some k \<or>
      ts_TargetConn (pf_states pf ! k) \<in> set (pf_closed pf)"
    using forwarder_ok_no_leak [OF assms(1)] by simp
  then show "pf_connections ((close_target (ts_TargetConn (pf_states pf ! ref)) pf)
        \<lparr>pf_connections := (pf_connections pf)(i := None)\<rparr>)
        (ts_ConnectionID (pf_states ((close_target (ts_TargetConn (pf_states pf ! ref)) pf)
          \<lparr>pf_connections := (pf_connections pf)(i := None)\<rparr>) ! k)) = Some k \<or>
      ts_TargetConn (pf_states ((close_target (ts_TargetConn (pf_states pf ! ref)) pf)
          \<lparr>pf_connections := (pf_connections pf)(i := None)\<rparr>) ! k)
        \<in> set (pf_closed ((close_target (ts_TargetConn (pf_states pf ! ref)) pf)
          \<lparr>pf_connections := (pf_connections pf)(i := None)\<rparr>))"
    using assms(2) by auto
qed (use assms in \<open>auto simp: forwarder_ok_def split: if_splits\<close>)

lemma forwarder_ok_remove: "forwarder_ok pf \<Longrightarrow> forwarder_ok (removeConnection i pf)"
  using forwarder_ok_drop [of pf i]
  by (cases "pf_connections pf i") (simp_all add: removeConnection_def Let_def)

lemma forwarder_ok_enter:
  assumes ok: "forwarder_ok pf" and e: "Forward_enter now dialed pkt pf = Ok (pf', ref)"
  shows "forwarder_ok pf'" "pf_connections pf' (ConnectionId pkt) = Some ref"
proof -
  have "forwarder_ok pf' \<and> pf_connections pf' (ConnectionId pkt) = Some ref"
  proof (cases "pf_connections pf (ConnectionId pkt)")
    case None
    then obtain t c where t: "ConnTuple pkt = Some t" "dialed = Some c"
      using e by (auto simp: Forward_enter_def Let_def split: option.splits)
    have pf': "pf' = pf\<lparr>pf_connections := (pf_connections pf)(ConnectionId pkt \<mapsto> length (pf_states pf)),
        pf_states := pf_states pf @ [\<lparr>ts_ConnectionID = ConnectionId pkt, ts_TargetAddr = target_addr t,
          ts_TargetConn = c, ts_CreatedAt = now, ts_LastActivity = now\<rparr>]\<rparr>" and ref: "ref = length (pf_states pf)"
      using e None t by (auto simp: Forward_enter_def Let_def)
    show ?thesis
    proof
      show "forwarder_ok pf'" unfolding forwarder_ok_def
      proof (intro conjI allI impI)
        fix k assume k: "k < length (pf_states pf')"
        show "pf_connections pf' (ts_ConnectionID (pf_states pf' ! k)) = Some k \<or>
            ts_TargetConn (pf_states pf' ! k) \<in> set (pf_closed pf')"
        proof (cases "k < length (pf_states pf)")
          case True
          then show ?thesis
            using forwarder_ok_no_leak [OF ok True] None by (auto simp: pf' nth_append)
        next
          case False
          then show ?thesis using k by (simp add: pf' nth_append less_Suc_eq)
        qed
      next
        fix i r assume i: "pf_connections pf' i = Some r"
        show "r < length (pf_states pf')"
          using i forwarder_okD [OF ok, of i r] by (cases "i = ConnectionId pkt") (simp_all add: pf')
        show "ts_ConnectionID (pf_states pf' ! r) = i"
          using i forwarder_okD [OF ok, of i r] by (cases "i = ConnectionId pkt") (auto simp: pf' nth_append)
      next
        show "finite (dom (pf_connections pf'))" using ok by (simp add: pf' forwarder_ok_def)
      qed
      show "pf_connections pf' (ConnectionId pkt) = Some ref" by (simp add: pf' ref)
    qed
  next
    case (Some r)
    then show ?thesis using e ok by (auto simp: Forward_enter_def forwarder_ok_touch)
  qed
  then show "forwarder_ok pf'" "pf_connections pf' (ConnectionId pkt) = Some ref" by auto
qed

section \<open>Cleanup laws\<close>

definition target_stale :: "int \<Rightarrow> int \<Rightarrow> forwarder \<Rightarrow> string \<Rightarrow> bool" where
  "target_stale now m pf i \<longleftrightarrow> (case pf_connections pf i of
     None \<Rightarrow> False | Some ref \<Rightarrow> time_sub now (ts_LastActivity (pf_states pf ! ref)) > m)"

definition drop_target :: "string \<Rightarrow> forwarder \<Rightarrow> forwarder" where
  "drop_target i pf = (close_target (ts_TargetConn (pf_states pf ! the (pf_connections pf i))) pf)
     \<lparr>pf_connections := (pf_connections pf)(i := None)\<rparr>"

lemma drop_target_sel [simp]:
  "pf_connections (drop_target i pf) = (pf_connections pf)(i := None)"
  "pf_states (drop_target i pf) = pf_states pf"
  "pf_closed (drop_target i pf) = ts_TargetConn (pf_states pf ! the (pf_connections pf i)) # pf_closed pf"
  "pf_cancelled (drop_target i pf) = pf_cancelled pf"
  by (simp_all add: drop_target_def)

lemma removeConnection_drop:
  "removeConnection i pf = (if pf_connections pf i = None then pf else drop_target i pf)"
  by (auto simp: removeConnection_def drop_target_def Let_def split: option.split)

lemma target_cleanup_step:
  "target_cleanup_loop now m (i # rest) n pf =
    (if target_stale now m pf i then target_cleanup_loop now m rest (n + 1) (drop_target i pf)
     else target_cleanup_loop now m rest n pf)"
  by (simp add: target_stale_def drop_target_def Let_def split: option.split)

lemma target_stale_drop: "target_stale now m (drop_target i pf) j \<longleftrightarrow> j \<noteq> i \<and> target_stale now m pf j"
  by (simp add: target_stale_def split: option.split)

lemma target_cleanup_effects:
  "distinct order \<Longrightarrow>
   pf_connections (fst (target_cleanup_loop now m order n pf)) =
     (\<lambda>i. if i \<in> set order \<and> target_stale now m pf i then None else pf_connections pf i) \<and>
   pf_states (fst (target_cleanup_loop now m order n pf)) = pf_states pf \<and>
   set (pf_closed (fst (target_cleanup_loop now m order n pf))) = set (pf_closed pf) \<union>
     {ts_TargetConn (pf_states pf ! ref) | i ref. i \<in> set order \<and> target_stale now m pf i \<and>
       pf_connections pf i = Some ref} \<and>
   snd (target_cleanup_loop now m order n pf) = n + length (filter (target_stale now m pf) order)"
proof (induction order arbitrary: n pf)
  case (Cons i order)
  show ?case
  proof (cases "target_stale now m pf i")
    case False
    then show ?thesis using Cons by (auto simp: target_cleanup_step simp del: target_cleanup_loop.simps)
  next
    case True
    have ne: "j \<noteq> i" if "j \<in> set order" for j using Cons.prems that by auto
    have f: "filter (target_stale now m (drop_target i pf)) order = filter (target_stale now m pf) order"
      by (rule filter_cong [OF refl]) (simp add: target_stale_drop ne)
    obtain ref where ref: "pf_connections pf i = Some ref" using True by (auto simp: target_stale_def split: option.splits)
    have IH: "distinct order" using Cons.prems by simp
    note IH = Cons.IH [OF IH, of "n + 1" "drop_target i pf"]
    have c: "{ts_TargetConn (pf_states pf ! ref) | j ref. j \<in> set order \<and> j \<noteq> i \<and> target_stale now m pf j \<and>
        pf_connections pf j = Some ref} =
      {ts_TargetConn (pf_states pf ! ref) | j ref. j \<in> set order \<and> target_stale now m pf j \<and>
        pf_connections pf j = Some ref}" (is "?A = ?B")
      using ne by blast
    have d: "{ts_TargetConn (pf_states pf ! ref) | j ref. j \<in> set (i # order) \<and> target_stale now m pf j \<and>
        pf_connections pf j = Some ref} = insert (ts_TargetConn (pf_states pf ! ref)) ?B"
      using True ref by auto
    have e: "{ts_TargetConn (pf_states (drop_target i pf) ! ref) | j ref. j \<in> set order \<and>
        target_stale now m (drop_target i pf) j \<and> pf_connections (drop_target i pf) j = Some ref} = ?A"
      by (auto simp: target_stale_drop)
    have "(\<lambda>j. if j \<in> set order \<and> target_stale now m (drop_target i pf) j then None
          else pf_connections (drop_target i pf) j) =
        (\<lambda>j. if j \<in> set (i # order) \<and> target_stale now m pf j then None else pf_connections pf j)"
      using True by (auto simp: target_stale_drop)
    then show ?thesis
      using IH True ref f unfolding e c d by (simp add: target_cleanup_step del: target_cleanup_loop.simps)
  qed
qed simp

lemma forwarder_ok_drop_target: "forwarder_ok pf \<Longrightarrow> pf_connections pf i \<noteq> None \<Longrightarrow> forwarder_ok (drop_target i pf)"
  using forwarder_ok_drop [of pf i] by (auto simp: drop_target_def)

lemma forwarder_ok_cleanup_loop: "forwarder_ok pf \<Longrightarrow> forwarder_ok (fst (target_cleanup_loop now m order n pf))"
proof (induction order arbitrary: n pf)
  case (Cons i order)
  have "target_stale now m pf i \<Longrightarrow> forwarder_ok (drop_target i pf)"
    using forwarder_ok_drop_target [OF Cons.prems] by (auto simp: target_stale_def split: option.splits)
  then show ?case using Cons by (simp add: target_cleanup_step del: target_cleanup_loop.simps)
qed simp

lemma Forwarder_Cleanup_entry:
  assumes "range_order (pf_connections pf) order"
  shows "pf_connections (fst (Forwarder_Cleanup now m order pf)) i =
    (case pf_connections pf i of
       None \<Rightarrow> None
     | Some ref \<Rightarrow> if time_sub now (ts_LastActivity (pf_states pf ! ref)) > m then None else Some ref)"
  using assms target_cleanup_effects [of order now m 0 pf]
  by (auto simp: Forwarder_Cleanup_def range_order_def target_stale_def split: option.split)

interpretation forwarder_table: idle_table pf_connections
  "\<lambda>pf ref. ts_LastActivity (pf_states pf ! ref)" "\<lambda>now order pf. fst (Forwarder_Cleanup now m order pf)" m
  for m
proof
  show "ts_LastActivity (pf_states (fst (Forwarder_Cleanup now m order pf)) ! ref) = ts_LastActivity (pf_states pf ! ref)"
    for now order pf ref
  proof -
    have "pf_states (fst (target_cleanup_loop now m order n pf)) = pf_states pf" for n
      by (induction order arbitrary: n pf) (simp_all add: target_cleanup_step del: target_cleanup_loop.simps(2))
    then show ?thesis by (simp add: Forwarder_Cleanup_def)
  qed
qed (rule Forwarder_Cleanup_entry)

section \<open>Lookup laws\<close>

definition targets :: "forwarder \<Rightarrow> string \<Rightarrow> target_state option" where
  "targets pf i = map_option (\<lambda>ref. pf_states pf ! ref) (pf_connections pf i)"

lemma targets_drop [simp]: "targets (drop_target i pf) j = (if j = i then None else targets pf j)"
  by (simp add: targets_def)

lemma targets_remove: "targets (removeConnection i pf) j = (if j = i then None else targets pf j)"
  by (auto simp: removeConnection_drop) (simp add: targets_def)

lemma targets_touch:
  assumes "forwarder_ok pf" "pf_connections pf i = Some ref"
  shows "targets (touch_target now ref pf) j =
    (if j = i then Some ((pf_states pf ! ref)\<lparr>ts_LastActivity := now\<rparr>) else targets pf j)"
proof (cases "j = i")
  case True
  then show ?thesis
    using assms(2) forwarder_okD(1) [OF assms] by (simp add: targets_def touch_target_def)
next
  case False
  then have "k \<noteq> ref" if "pf_connections pf j = Some k" for k
    using forwarder_okD(2) [OF assms] forwarder_okD(2) [OF assms(1) that] by auto
  with False show ?thesis by (cases "pf_connections pf j") (simp_all add: targets_def touch_target_def)
qed

lemma targets_insert:
  assumes "forwarder_ok pf"
  shows "targets (pf\<lparr>pf_connections := (pf_connections pf)(i \<mapsto> length (pf_states pf)),
      pf_states := pf_states pf @ [s]\<rparr>) j = (if j = i then Some s else targets pf j)"
  using forwarder_okD(1) [OF assms, of j]
  by (cases "pf_connections pf j") (auto simp: targets_def nth_append)

text \<open>What the part of \<open>Forward\<close> under the lock does to the table.\<close>

lemma Forward_enter_cases:
  assumes ok: "forwarder_ok pf"
  obtains (known) s pf' ref where "targets pf (ConnectionId pkt) = Some s"
      "Forward_enter now dialed pkt pf = Ok (pf', ref)" "pf_states pf' ! ref = s\<lparr>ts_LastActivity := now\<rparr>"
      "\<And>j. targets pf' j = (if j = ConnectionId pkt then Some (s\<lparr>ts_LastActivity := now\<rparr>) else targets pf j)"
      "pf_closed pf' = pf_closed pf"
    | (no_tuple) "targets pf (ConnectionId pkt) = None" "ConnTuple pkt = None"
      "Forward_enter now dialed pkt pf = Panic"
    | (dial_failed) t where "targets pf (ConnectionId pkt) = None" "ConnTuple pkt = Some t" "dialed = None"
      "Forward_enter now dialed pkt pf = Err (DialFailed (target_addr t))"
    | (dialled) t c s pf' ref where "targets pf (ConnectionId pkt) = None" "ConnTuple pkt = Some t" "dialed = Some c"
      "Forward_enter now dialed pkt pf = Ok (pf', ref)" "pf_states pf' ! ref = s"
      "s = \<lparr>ts_ConnectionID = ConnectionId pkt, ts_TargetAddr = target_addr t, ts_TargetConn = c,
        ts_CreatedAt = now, ts_LastActivity = now\<rparr>"
      "\<And>j. targets pf' j = (if j = ConnectionId pkt then Some s else targets pf j)"
      "pf_closed pf' = pf_closed pf"
proof (cases "pf_connections pf (ConnectionId pkt)")
  case (Some ref)
  then show ?thesis
    using targets_touch [OF ok Some, of now] forwarder_okD(1) [OF ok Some]
    by (intro known [of "pf_states pf ! ref" "touch_target now ref pf" ref])
      (simp_all add: Forward_enter_def targets_def [of pf "ConnectionId pkt"], simp add: touch_target_def)
next
  case None
  then have n: "targets pf (ConnectionId pkt) = None" by (simp add: targets_def)
  show ?thesis
  proof (cases "ConnTuple pkt")
    case None
    then show ?thesis using no_tuple n \<open>pf_connections pf (ConnectionId pkt) = None\<close> by (simp add: Forward_enter_def)
  next
    case (Some t)
    show ?thesis
    proof (cases dialed)
      case None
      then show ?thesis
        using dial_failed n Some \<open>pf_connections pf (ConnectionId pkt) = None\<close> by (simp add: Forward_enter_def)
    next
      case c: (Some c)
      show ?thesis
        by (rule dialled [where t = t and c = c and pf' = "pf\<lparr>pf_connections := (pf_connections pf)(ConnectionId pkt \<mapsto> length (pf_states pf)),
            pf_states := pf_states pf @ [\<lparr>ts_ConnectionID = ConnectionId pkt, ts_TargetAddr = target_addr t,
              ts_TargetConn = c, ts_CreatedAt = now, ts_LastActivity = now\<rparr>]\<rparr>" and ref = "length (pf_states pf)",
            OF n Some c _ _ refl])
          (simp_all add: Forward_enter_def \<open>pf_connections pf (ConnectionId pkt) = None\<close> Some c Let_def
            targets_insert [OF ok])
    qed
  qed
qed

section \<open>Properties\<close>

text \<open>C24: What \<open>Forward\<close> does to the table of targets, for every packet and every behaviour of the
  network. It panics exactly for a packet of an unknown connection that has no tuple. After
  success the data went to the connection of the identifier, which is the one that was there
  before or one newly dialled to the destination in the packet, and is now active. After a
  failed write the connection is closed and forgotten, after a failed dial or a panic nothing
  has changed, and in no case is any other connection affected or a connection leaked.\<close>

theorem forward_outcomes:
  assumes "forwarder_ok pf" "Forward now dialed os_ok pkt pf = (pf', res)"
  shows "forwarder_ok pf' \<and> (\<forall>j. j \<noteq> ConnectionId pkt \<longrightarrow> targets pf' j = targets pf j) \<and>
    (res = Panic \<longleftrightarrow> targets pf (ConnectionId pkt) = None \<and> ConnTuple pkt = None) \<and>
    (case res of
       Ok (c, data) \<Rightarrow> data = Data pkt \<and> c \<notin> set (pf_closed pf') \<and> os_ok \<and>
         (\<exists>s. targets pf' (ConnectionId pkt) = Some s \<and> ts_TargetConn s = c \<and> ts_LastActivity s = now \<and>
           (case targets pf (ConnectionId pkt) of
              Some s0 \<Rightarrow> s = s0\<lparr>ts_LastActivity := now\<rparr>
            | None \<Rightarrow> dialed = Some c \<and> (\<exists>t. ConnTuple pkt = Some t \<and> ts_TargetAddr s = target_addr t)))
     | Err (DialFailed a) \<Rightarrow> pf' = pf \<and> dialed = None \<and> targets pf (ConnectionId pkt) = None \<and>
         (\<exists>t. ConnTuple pkt = Some t \<and> a = target_addr t)
     | Err TargetWriteFailed \<Rightarrow> targets pf' (ConnectionId pkt) = None \<and>
         (case targets pf (ConnectionId pkt) of
            Some s0 \<Rightarrow> ts_TargetConn s0 \<in> set (pf_closed pf')
          | None \<Rightarrow> (\<exists>c. dialed = Some c \<and> c \<in> set (pf_closed pf')))
     | Panic \<Rightarrow> pf' = pf)"
  using assms(1)
proof (cases rule: Forward_enter_cases [of pf pkt now dialed])
  case (known s pf1 ref)
  note ok = forwarder_ok_enter [OF assms(1) known(2)]
  show ?thesis
  proof (cases "os_ok \<and> ts_TargetConn s \<notin> set (pf_closed pf1)")
    case True
    then have "pf' = pf1" "res = Ok (ts_TargetConn s, Data pkt)"
      using assms(2) known(2,3) by (simp_all add: Forward_def Forward_write_def Let_def)
    then show ?thesis using True ok known by simp
  next
    case False
    then have "pf' = removeConnection (ConnectionId pkt) pf1" "res = Err TargetWriteFailed"
      using assms(2) known(2,3) by (auto simp: Forward_def Forward_write_def Let_def)
    then show ?thesis using ok known forwarder_ok_remove [OF ok(1)]
      by (simp add: targets_remove) (simp add: removeConnection_drop)
  qed
next
  case no_tuple
  then show ?thesis using assms by (auto simp: Forward_def)
next
  case (dial_failed t)
  then show ?thesis using assms by (auto simp: Forward_def)
next
  case (dialled t c s pf1 ref)
  note ok = forwarder_ok_enter [OF assms(1) dialled(4)]
  have c: "ts_TargetConn s = c" by (simp add: dialled(6))
  show ?thesis
  proof (cases "os_ok \<and> c \<notin> set (pf_closed pf1)")
    case True
    then have "pf' = pf1" "res = Ok (c, Data pkt)"
      using assms(2) dialled(4,5) c by (simp_all add: Forward_def Forward_write_def Let_def)
    then show ?thesis using True ok dialled by simp
  next
    case False
    then have "pf' = removeConnection (ConnectionId pkt) pf1" "res = Err TargetWriteFailed"
      using assms(2) dialled(4,5) c by (auto simp: Forward_def Forward_write_def Let_def)
    then show ?thesis using ok dialled forwarder_ok_remove [OF ok(1)]
      by (simp add: targets_remove) (simp add: removeConnection_drop)
  qed
qed

definition sample_fwd_packet :: packet where
  "sample_fwd_packet = \<lparr>ConnectionId = ''x'', Data = [1, 2], ConnTuple = Some \<lparr>SrcIp = ''10.0.0.5'', SrcPortN = 40000,
     DstIp = ''192.168.1.10'', DstPortN = 443\<rparr>, PktProtocol = Protocol_PROTOCOL_TCP,
     Direction = Direction_DIRECTION_FORWARD, Timestamp = 0\<rparr>"

theorem forward_outcomes_witness:
  "\<exists>pf. Forward 5 (Some 3) True sample_fwd_packet NewPacketForwarder = (pf, Ok (3, [1, 2])) \<and> forwarder_ok pf"
proof -
  obtain pf where f: "Forward 5 (Some 3) True sample_fwd_packet NewPacketForwarder = (pf, Ok (3, [1, 2]))"
    by (simp add: Forward_def Forward_enter_def Forward_write_def NewPacketForwarder_def sample_fwd_packet_def Let_def)
  then show ?thesis using forward_outcomes [OF forwarder_ok_new f] by blast
qed

text \<open>The forwarder's cleanup, in whatever order the runtime ranges over the table: it removes
  exactly the connections idle for longer than the limit, closes exactly those, leaks none, and
  returns by how many the table shrank.\<close>

theorem forwarder_cleanup:
  assumes "forwarder_ok pf" "range_order (pf_connections pf) order"
    and "Forwarder_Cleanup now m order pf = (pf', removed)"
  shows "(\<forall>i. targets pf' i = (case targets pf i of
        None \<Rightarrow> None | Some s \<Rightarrow> if time_sub now (ts_LastActivity s) > m then None else Some s)) \<and>
    set (pf_closed pf') = set (pf_closed pf) \<union>
      {ts_TargetConn s | s i. targets pf i = Some s \<and> time_sub now (ts_LastActivity s) > m} \<and>
    forwarder_ok pf' \<and> Forwarder_Count pf' + removed = Forwarder_Count pf"
proof (intro conjI)
  have o: "distinct order" "set order = dom (pf_connections pf)" using assms(2) by (simp_all add: range_order_def)
  note eff = target_cleanup_effects [OF o(1), of now m 0 pf]
  have pf': "pf' = fst (target_cleanup_loop now m order 0 pf)" "removed = snd (target_cleanup_loop now m order 0 pf)"
    using assms(3) by (simp_all add: Forwarder_Cleanup_def)
  have st: "target_stale now m pf i \<longleftrightarrow> (\<exists>s. targets pf i = Some s \<and> time_sub now (ts_LastActivity s) > m)" for i
    by (auto simp: target_stale_def targets_def split: option.split)
  have in_o: "i \<in> set order" if "target_stale now m pf i" for i
    using that o(2) by (auto simp: target_stale_def split: option.splits)
  show "\<forall>i. targets pf' i = (case targets pf i of
        None \<Rightarrow> None | Some s \<Rightarrow> if time_sub now (ts_LastActivity s) > m then None else Some s)"
    using eff Forwarder_Cleanup_entry [OF assms(2), of now m] unfolding assms(3)
    by (simp add: targets_def pf' split: option.split)
  show "set (pf_closed pf') = set (pf_closed pf) \<union>
      {ts_TargetConn s | s i. targets pf i = Some s \<and> time_sub now (ts_LastActivity s) > m}"
  proof -
    have "{ts_TargetConn (pf_states pf ! ref) | i ref. i \<in> set order \<and> target_stale now m pf i \<and>
        pf_connections pf i = Some ref} =
      {ts_TargetConn s | s i. targets pf i = Some s \<and> time_sub now (ts_LastActivity s) > m}"
      (is "?A = ?B")
    proof (intro set_eqI iffI)
      fix c assume "c \<in> ?A"
      then obtain i ref where r: "c = ts_TargetConn (pf_states pf ! ref)" "pf_connections pf i = Some ref"
          "target_stale now m pf i"
        by blast
      then have "targets pf i = Some (pf_states pf ! ref)" "time_sub now (ts_LastActivity (pf_states pf ! ref)) > m"
        by (simp_all add: targets_def target_stale_def)
      with r(1) show "c \<in> ?B" by blast
    next
      fix c assume "c \<in> ?B"
      then obtain i ref where "c = ts_TargetConn (pf_states pf ! ref)" "pf_connections pf i = Some ref"
          "target_stale now m pf i"
        unfolding st by (auto simp: targets_def)
      then show "c \<in> ?A" using in_o by blast
    qed
    with eff show ?thesis by (simp add: pf')
  qed
  show "forwarder_ok pf'" using forwarder_ok_cleanup_loop [OF assms(1)] by (simp add: pf')
  have "Forwarder_Count pf' = length (filter (\<lambda>i. \<not> target_stale now m pf i) order)"
  proof -
    have "length (filter (\<lambda>i. \<exists>e. pf_connections pf i = Some e \<and> time_sub now (ts_LastActivity (pf_states pf ! e)) \<le> m) order) =
        length (filter (\<lambda>i. \<not> target_stale now m pf i) order)"
      using o(2) by (intro arg_cong [of _ _ length] filter_cong)
        (auto simp: target_stale_def not_less split: option.split)
    then show ?thesis
      using forwarder_table.cleanup_count [OF assms(2), of now m] assms(3) by (simp add: Forwarder_Count_def)
  qed
  moreover have "Forwarder_Count pf = length order"
    using map_len_range_order [OF assms(2)] by (simp add: Forwarder_Count_def)
  moreover have "removed = length (filter (target_stale now m pf) order)" using eff by (simp add: pf')
  ultimately show "Forwarder_Count pf' + removed = Forwarder_Count pf"
    using sum_length_filter_compl [of "target_stale now m pf" order] by simp
qed

theorem forwarder_cleanup_witness:
  "\<exists>pf pf'. forwarder_ok pf \<and> Forwarder_Count pf = 1 \<and> Forwarder_Cleanup 100 12 [''x''] pf = (pf', 1) \<and>
     Forwarder_Count pf' = 0"
proof -
  obtain pf where f: "Forward_enter 5 (Some 3) sample_fwd_packet NewPacketForwarder = Ok (pf, 0)"
      and pf: "pf_connections pf = [''x'' \<mapsto> 0]" "ts_LastActivity (pf_states pf ! 0) = 5"
    by (simp add: Forward_enter_def NewPacketForwarder_def sample_fwd_packet_def Let_def)
  have ok: "forwarder_ok pf" by (rule forwarder_ok_enter [OF forwarder_ok_new f])
  have o: "range_order (pf_connections pf) [''x'']" by (auto simp: range_order_def pf)
  obtain pf' where c: "Forwarder_Cleanup 100 12 [''x''] pf = (pf', 1)"
    using pf by (simp add: Forwarder_Cleanup_def Let_def time_sub_def max_duration_def min_duration_def)
  have "Forwarder_Count pf = 1" by (simp add: Forwarder_Count_def pf map_len_def)
  with ok c forwarder_cleanup [OF ok o c] show ?thesis by auto
qed

end
