(* ===== verification/Proxy.thy ===== *)
theory Proxy
  imports Forwarder "HOL-Library.Sublist"
begin

text \<open>
  \<open>internal/proxy/server_conn.go\<close> and \<open>proxy.go\<close>: the proxy's stream to the server, around the
  forwarder. A run is a sequence of events that interleaves the read loop, the write loop, the
  heartbeat loop and one reader per target connection; the response channel holds 100 packets.
\<close>

section \<open>Registration\<close>

datatype proxy_register_error =
    SendFailed
  | AckFailed
  | NotAnAck
  | RegistrationRejected string

text \<open>The messages sent, and the error if any. The reply is \<open>None\<close> when receiving it fails.\<close>

definition proxy_register_with ::
  "string \<Rightarrow> string \<Rightarrow> bool \<Rightarrow> proxy_message option \<Rightarrow> proxy_message list \<times> proxy_register_error option" where
  "proxy_register_with proxyID managedCIDR send_ok reply =
     (let regMsg = ProxyMessage_Register \<lparr>ProxyId = proxyID, ManagedCidr = managedCIDR\<rparr>
      in if \<not> send_ok then ([], Some SendFailed)
         else ([regMsg],
           case reply of
             None \<Rightarrow> Some AckFailed
           | Some (ProxyMessage_Ack ack) \<Rightarrow>
               if \<not> Success ack then Some (RegistrationRejected (Message ack)) else None
           | Some _ \<Rightarrow> Some NotAnAck))"

section \<open>The proxy\<close>

definition channelBuffer :: nat where "channelBuffer = 100"

text \<open>The read loop waits for a message, is between two parts of \<open>Forward\<close>, or has returned.\<close>

datatype forward_pc = PIdle | PWriting nat packet | PRemoving string | PStopped

text \<open>\<open>px_read\<close> and \<open>px_queued\<close> are history: what was read from each target and what its reader put
  into the channel. \<open>px_written\<close> lists the packets whose data was written whole to a target: a
  \<open>Write\<close> that fails part of the way is a failed write here, and the bytes it left are not listed.\<close>

record proxy =
  px_fwd :: forwarder
  px_readers :: "target_reader list"
  px_responses :: "packet list"
  px_pc :: forward_pc
  px_writer :: bool
  px_stopChan :: bool
  px_sent :: "proxy_message list"
  px_written :: "(nat \<times> packet) list"
  px_crashed :: bool
  px_read :: "(nat \<times> byte list) list"
  px_queued :: "(nat \<times> packet) list"

definition proxy_init :: proxy where
  "proxy_init = \<lparr>px_fwd = NewPacketForwarder, px_readers = [], px_responses = [], px_pc = PIdle,
     px_writer = True, px_stopChan = False, px_sent = [], px_written = [], px_crashed = False,
     px_read = [], px_queued = []\<rparr>"

datatype proxy_event =
    PRecv proxy_message int "nat option"
  | PRecvFails
  | PWrite bool
  | PRemove
  | PSend bool
  | PWriterStops
  | PHeartbeat int bool
  | FCheck nat
  | FRead nat "byte list"
  | FReadFails nat
  | FTouch nat int int
  | FSend nat
  | FSendCancelled nat
  | PClose
  | PStop

definition fresh_conn :: "nat \<Rightarrow> forwarder \<Rightarrow> bool" where
  "fresh_conn c pf \<longleftrightarrow> c \<notin> ts_TargetConn ` set (pf_states pf) \<and> c \<notin> set (pf_closed pf)"

text \<open>A packet from the server. A new state starts its reader.\<close>

definition recv_packet :: "packet \<Rightarrow> int \<Rightarrow> nat option \<Rightarrow> proxy \<Rightarrow> proxy" where
  "recv_packet pkt now dialed px =
     (case Forward_enter now dialed pkt (px_fwd px) of
        Err e \<Rightarrow> px
      | Panic \<Rightarrow> px\<lparr>px_crashed := True\<rparr>
      | Ok (pf, ref) \<Rightarrow> px\<lparr>px_fwd := pf, px_pc := PWriting ref pkt,
          px_readers := px_readers px @ replicate (length (pf_states pf) - length (pf_states (px_fwd px))) RTop\<rparr>)"

fun recv_server :: "proxy_message \<Rightarrow> int \<Rightarrow> nat option \<Rightarrow> proxy \<Rightarrow> proxy" where
  "recv_server (ProxyMessage_Packet pkt) now dialed px = recv_packet pkt now dialed px"
| "recv_server (ProxyMessage_Register m) now dialed px = px"
| "recv_server (ProxyMessage_Heartbeat h) now dialed px = px"
| "recv_server (ProxyMessage_Ack a) now dialed px = px"
| "recv_server ProxyMessage_Unset now dialed px = px"

definition write_target :: "bool \<Rightarrow> nat \<Rightarrow> packet \<Rightarrow> proxy \<Rightarrow> proxy" where
  "write_target os_ok ref pkt px =
     (case Forward_write os_ok ref (px_fwd px) of
        None \<Rightarrow> px\<lparr>px_pc := PRemoving (ConnectionId pkt)\<rparr>
      | Some c \<Rightarrow> px\<lparr>px_pc := PIdle, px_written := px_written px @ [(c, pkt)]\<rparr>)"

text \<open>A reader returns: its deferred call removes whatever connection its identifier has.\<close>

definition reader_id :: "nat \<Rightarrow> proxy \<Rightarrow> string" where
  "reader_id k px = ts_ConnectionID (pf_states (px_fwd px) ! k)"

definition reader_returns :: "nat \<Rightarrow> proxy \<Rightarrow> proxy" where
  "reader_returns k px = px\<lparr>px_fwd := removeConnection (reader_id k px) (px_fwd px),
     px_readers := (px_readers px)[k := RDone]\<rparr>"

definition set_reader :: "nat \<Rightarrow> target_reader \<Rightarrow> proxy \<Rightarrow> proxy" where
  "set_reader k r px = px\<lparr>px_readers := (px_readers px)[k := r]\<rparr>"

definition reader_at :: "nat \<Rightarrow> proxy \<Rightarrow> target_reader" where
  "reader_at k px = (if k < length (px_readers px) then px_readers px ! k else RDone)"

definition target_conn :: "nat \<Rightarrow> proxy \<Rightarrow> nat" where
  "target_conn k px = ts_TargetConn (pf_states (px_fwd px) ! k)"

text \<open>What the reader of state \<open>k\<close> does at each of its places.\<close>

fun reader_step :: "proxy \<Rightarrow> proxy_event \<Rightarrow> proxy option" where
  "reader_step px (FCheck k) =
     (case reader_at k px of
        RTop \<Rightarrow> Some (if pf_cancelled (px_fwd px) then reader_returns k px else set_reader k RBlocked px)
      | _ \<Rightarrow> None)"
| "reader_step px (FRead k data) =
     (case reader_at k px of
        RBlocked \<Rightarrow>
          if target_conn k px \<in> set (pf_closed (px_fwd px)) \<or> length data > 65535 then None
          else if data = [] then Some (set_reader k RTop px)
          else Some (set_reader k (RGot data) (px\<lparr>px_read := px_read px @ [(k, data)]\<rparr>))
      | _ \<Rightarrow> None)"
| "reader_step px (FReadFails k) =
     (case reader_at k px of RBlocked \<Rightarrow> Some (reader_returns k px) | _ \<Rightarrow> None)"
| "reader_step px (FTouch k now stamp) =
     (case reader_at k px of
        RGot data \<Rightarrow>
          let pf = touch_target now k (px_fwd px)
          in Some (set_reader k (RSending (responsePkt (pf_states pf ! k) stamp data)) (px\<lparr>px_fwd := pf\<rparr>))
      | _ \<Rightarrow> None)"
| "reader_step px (FSend k) =
     (case reader_at k px of
        RSending pkt \<Rightarrow>
          if length (px_responses px) < channelBuffer
          then Some (set_reader k RTop (px\<lparr>px_responses := px_responses px @ [pkt],
                 px_queued := px_queued px @ [(k, pkt)]\<rparr>))
          else None
      | _ \<Rightarrow> None)"
| "reader_step px (FSendCancelled k) =
     (case reader_at k px of
        RSending pkt \<Rightarrow> if pf_cancelled (px_fwd px) then Some (reader_returns k px) else None
      | _ \<Rightarrow> None)"
| "reader_step px _ = None"

text \<open>The write loop, the heartbeat, and the two parts of \<open>stop\<close>.\<close>

definition proxy_writeLoop :: "bool \<Rightarrow> proxy \<Rightarrow> proxy option" where
  [simp]: "proxy_writeLoop ok px =
     (case px_responses px of
        [] \<Rightarrow> None
      | pkt # rest \<Rightarrow>
          if px_writer px then Some (px\<lparr>px_responses := rest,
            px_sent := px_sent px @ (if ok then [ProxyMessage_Packet pkt] else [])\<rparr>) else None)"

definition SendHeartbeat :: "int \<Rightarrow> bool \<Rightarrow> proxy \<Rightarrow> proxy" where
  [simp]: "SendHeartbeat now ok px = px\<lparr>px_sent := px_sent px @ (if ok
     then [ProxyMessage_Heartbeat \<lparr>SenderId = '''', HbTimestamp = unix_time now\<rparr>] else [])\<rparr>"

definition Close_stream :: "proxy \<Rightarrow> proxy" where
  [simp]: "Close_stream px = px\<lparr>px_stopChan := True\<rparr>"

definition Stop_cancel :: "proxy \<Rightarrow> proxy" where
  [simp]: "Stop_cancel px = px\<lparr>px_fwd := (px_fwd px)\<lparr>pf_cancelled := True\<rparr>\<rparr>"

text \<open>The events of the server connection and of \<open>stop\<close>. A dialled connection is new.\<close>

fun server_step :: "proxy \<Rightarrow> proxy_event \<Rightarrow> proxy option" where
  "server_step px (PRecv msg now dialed) =
     (if px_pc px = PIdle \<and> (\<forall>c \<in> set_option dialed. fresh_conn c (px_fwd px))
      then Some (recv_server msg now dialed px) else None)"
| "server_step px PRecvFails =
     (if px_pc px = PIdle then Some (px\<lparr>px_pc := PStopped, px_stopChan := True\<rparr>) else None)"
| "server_step px (PWrite os_ok) =
     (case px_pc px of PWriting ref pkt \<Rightarrow> Some (write_target os_ok ref pkt px) | _ \<Rightarrow> None)"
| "server_step px PRemove =
     (case px_pc px of
        PRemoving i \<Rightarrow> Some (px\<lparr>px_fwd := removeConnection i (px_fwd px), px_pc := PIdle\<rparr>)
      | _ \<Rightarrow> None)"
| "server_step px (PSend ok) =
     proxy_writeLoop ok px"
| "server_step px PWriterStops =
     (if px_writer px \<and> px_stopChan px then Some (px\<lparr>px_writer := False\<rparr>) else None)"
| "server_step px (PHeartbeat now ok) =
     Some (SendHeartbeat now ok px)"
| "server_step px PClose = Some (Close_stream px)"
| "server_step px PStop =
     (if px_stopChan px \<and> px_pc px = PStopped \<and> \<not> px_writer px
      then Some (Stop_cancel px) else None)"
| "server_step px _ = None"

definition px_exec :: "proxy \<Rightarrow> proxy_event \<Rightarrow> proxy option" where
  "px_exec px e =
     (if px_crashed px then None
      else case server_step px e of Some px' \<Rightarrow> Some px' | None \<Rightarrow> reader_step px e)"

inductive px_reachable :: "proxy \<Rightarrow> bool" where
  px_init: "px_reachable proxy_init"
| px_step: "px_reachable px \<Longrightarrow> px_exec px e = Some px' \<Longrightarrow> px_reachable px'"

fun px_run :: "proxy_event list \<Rightarrow> proxy \<Rightarrow> proxy option" where
  "px_run [] px = Some px"
| "px_run (e # es) px = (case px_exec px e of None \<Rightarrow> None | Some px' \<Rightarrow> px_run es px')"

lemma px_run_append: "px_run (es @ es') px = (case px_run es px of None \<Rightarrow> None | Some px' \<Rightarrow> px_run es' px')"
  by (induction es arbitrary: px) (auto split: option.split)

lemma px_reachable_run: "px_reachable px \<Longrightarrow> px_run es px = Some px' \<Longrightarrow> px_reachable px'"
  by (induction es arbitrary: px) (auto split: option.splits intro: px_step)

text \<open>\<open>Stop\<close> returns once every reader has returned.\<close>

definition forwarder_stopped :: "proxy \<Rightarrow> bool" where
  "forwarder_stopped px \<longleftrightarrow> pf_cancelled (px_fwd px) \<and> (\<forall>r \<in> set (px_readers px). r = RDone)"

section \<open>The table and its readers\<close>

text \<open>
  The table is well formed, every state has a reader, a connection in the table has a reader that
  has not returned, and what was written went to a connection of the packet's identifier.
\<close>

definition live_readers :: "forwarder \<Rightarrow> target_reader list \<Rightarrow> bool" where
  "live_readers pf rs \<longleftrightarrow> length rs = length (pf_states pf) \<and>
     (\<forall>i k. pf_connections pf i = Some k \<longrightarrow> rs ! k \<noteq> RDone)"

definition pc_ok :: "forwarder \<Rightarrow> forward_pc \<Rightarrow> bool" where
  "pc_ok pf pc \<longleftrightarrow> (case pc of
     PWriting k pkt \<Rightarrow> k < length (pf_states pf) \<and> ts_ConnectionID (pf_states pf ! k) = ConnectionId pkt
   | _ \<Rightarrow> True)"

definition writes_ok :: "forwarder \<Rightarrow> (nat \<times> packet) list \<Rightarrow> bool" where
  "writes_ok pf ws \<longleftrightarrow> (\<forall>(c, pkt) \<in> set ws. \<exists>k < length (pf_states pf).
     ts_TargetConn (pf_states pf ! k) = c \<and> ts_ConnectionID (pf_states pf ! k) = ConnectionId pkt)"

definition table_inv :: "proxy \<Rightarrow> bool" where
  "table_inv px \<longleftrightarrow> forwarder_ok (px_fwd px) \<and> live_readers (px_fwd px) (px_readers px) \<and>
     pc_ok (px_fwd px) (px_pc px) \<and> writes_ok (px_fwd px) (px_written px)"

lemma table_invD:
  assumes "table_inv px"
  shows "forwarder_ok (px_fwd px)" "live_readers (px_fwd px) (px_readers px)" "pc_ok (px_fwd px) (px_pc px)"
    "writes_ok (px_fwd px) (px_written px)" "length (px_readers px) = length (pf_states (px_fwd px))"
  using assms by (simp_all add: table_inv_def live_readers_def)

text \<open>States are only added, and keep their identifiers and connections.\<close>

definition targets_extend :: "forwarder \<Rightarrow> forwarder \<Rightarrow> bool" where
  "targets_extend pf pf' \<longleftrightarrow> length (pf_states pf) \<le> length (pf_states pf') \<and>
     (\<forall>k < length (pf_states pf). ts_ConnectionID (pf_states pf' ! k) = ts_ConnectionID (pf_states pf ! k) \<and>
        ts_TargetConn (pf_states pf' ! k) = ts_TargetConn (pf_states pf ! k))"

lemma targets_extend_refl: "pf_states pf' = pf_states pf \<Longrightarrow> targets_extend pf pf'"
  by (simp add: targets_extend_def)

lemma removeConnection_sel [simp]:
  "pf_states (removeConnection i pf) = pf_states pf"
  "pf_connections (removeConnection i pf) = (pf_connections pf)(i := None)"
  "pf_cancelled (removeConnection i pf) = pf_cancelled pf"
  by (auto simp: removeConnection_drop)

lemma targets_extend_touch: "targets_extend pf (touch_target now k pf)"
  by (simp add: targets_extend_def touch_target_field [of ts_ConnectionID] touch_target_field [of ts_TargetConn])

lemma pc_ok_extend: "pc_ok pf pc \<Longrightarrow> targets_extend pf pf' \<Longrightarrow> pc_ok pf' pc"
  by (auto simp: pc_ok_def targets_extend_def split: forward_pc.splits)

lemma writes_ok_extend: "writes_ok pf ws \<Longrightarrow> targets_extend pf pf' \<Longrightarrow> writes_ok pf' ws"
  unfolding writes_ok_def
proof clarify
  fix c pkt assume ws: "\<forall>(c, pkt) \<in> set ws. \<exists>k < length (pf_states pf).
     ts_TargetConn (pf_states pf ! k) = c \<and> ts_ConnectionID (pf_states pf ! k) = ConnectionId pkt"
    and ext: "targets_extend pf pf'" and "(c, pkt) \<in> set ws"
  then obtain k where k: "k < length (pf_states pf)" "ts_TargetConn (pf_states pf ! k) = c"
      "ts_ConnectionID (pf_states pf ! k) = ConnectionId pkt" by blast
  with ext have "k < length (pf_states pf')" "ts_TargetConn (pf_states pf' ! k) = c"
      "ts_ConnectionID (pf_states pf' ! k) = ConnectionId pkt"
    by (simp_all add: targets_extend_def)
  then show "\<exists>k < length (pf_states pf'). ts_TargetConn (pf_states pf' ! k) = c \<and>
      ts_ConnectionID (pf_states pf' ! k) = ConnectionId pkt" by blast
qed

lemma table_invI:
  assumes inv: "table_inv px" and ok: "forwarder_ok (px_fwd px')" "live_readers (px_fwd px') (px_readers px')"
    and ext: "targets_extend (px_fwd px) (px_fwd px')" and same: "px_written px' = px_written px"
    and pc: "pc_ok (px_fwd px') (px_pc px')"
  shows "table_inv px'"
  using ok pc writes_ok_extend [OF table_invD(4) [OF inv] ext] by (simp add: table_inv_def same)

lemma live_readers_remove: "live_readers pf rs \<Longrightarrow> live_readers (removeConnection i pf) rs"
  by (simp add: live_readers_def)

lemma live_readers_set:
  assumes "live_readers pf rs" "r \<noteq> RDone \<or> k \<notin> ran (pf_connections pf)"
  shows "live_readers pf (rs[k := r])"
  unfolding live_readers_def
proof (intro conjI allI impI)
  fix i m assume m: "pf_connections pf i = Some m"
  then have "rs ! m \<noteq> RDone" "m = k \<Longrightarrow> r \<noteq> RDone" using assms by (auto simp: live_readers_def ran_def)
  then show "rs[k := r] ! m \<noteq> RDone" by (cases "k < length rs") (auto simp: nth_list_update list_update_beyond not_less)
qed (use assms(1) in \<open>simp add: live_readers_def\<close>)

lemma live_readers_same:
  "live_readers pf rs \<Longrightarrow> pf_connections pf' = pf_connections pf \<Longrightarrow>
   length (pf_states pf') = length (pf_states pf) \<Longrightarrow> live_readers pf' rs"
  by (simp add: live_readers_def)

lemma pc_ok_same: "pc_ok pf pc \<Longrightarrow> pf_states pf' = pf_states pf \<Longrightarrow> pc_ok pf' pc"
  by (cases pc) (simp_all add: pc_ok_def)

text \<open>The part of \<open>Forward\<close> under the lock gives a known state or adds one.\<close>

lemma Forward_enter_Ok:
  assumes "Forward_enter now dialed pkt pf = Ok (pf', ref)"
  obtains (old) "pf_connections pf (ConnectionId pkt) = Some ref" "pf' = touch_target now ref pf"
    | (new) t c where "pf_connections pf (ConnectionId pkt) = None" "ConnTuple pkt = Some t" "dialed = Some c"
      "ref = length (pf_states pf)"
      "pf' = pf\<lparr>pf_connections := (pf_connections pf)(ConnectionId pkt \<mapsto> length (pf_states pf)),
         pf_states := pf_states pf @ [\<lparr>ts_ConnectionID = ConnectionId pkt, ts_TargetAddr = target_addr t,
           ts_TargetConn = c, ts_CreatedAt = now, ts_LastActivity = now\<rparr>]\<rparr>"
  using assms by (auto simp: Forward_enter_def Let_def split: option.splits)

lemma Forward_enter_effects:
  assumes ok: "forwarder_ok pf" and e: "Forward_enter now dialed pkt pf = Ok (pf', ref)"
  shows "targets_extend pf pf'" "pc_ok pf' (PWriting ref pkt)"
    "live_readers pf rs \<Longrightarrow> live_readers pf' (rs @ replicate (length (pf_states pf') - length (pf_states pf)) RTop)"
proof -
  note ok' = forwarder_ok_enter [OF ok e]
  show "pc_ok pf' (PWriting ref pkt)" using forwarder_okD [OF ok'] by (simp add: pc_ok_def)
  show "targets_extend pf pf'"
    using e by (cases rule: Forward_enter_Ok) (simp_all add: targets_extend_touch, simp add: targets_extend_def nth_append)
  assume live: "live_readers pf rs"
  show "live_readers pf' (rs @ replicate (length (pf_states pf') - length (pf_states pf)) RTop)"
    using e
  proof (cases rule: Forward_enter_Ok)
    case old
    then show ?thesis using live_readers_same [OF live, of pf'] by simp
  next
    case (new t c)
    have "(rs @ [RTop]) ! k \<noteq> RDone" if "pf_connections pf' i = Some k" for i k
    proof (cases "k < length rs")
      case True
      then have "i \<noteq> ConnectionId pkt" using that new live by (auto simp: live_readers_def)
      then show ?thesis using that new live True by (simp add: live_readers_def nth_append)
    next
      case False
      then have "k = length rs"
        using that new live forwarder_okD(1) [OF ok, of i k] by (auto simp: live_readers_def split: if_splits)
      then show ?thesis by simp
    qed
    then show ?thesis using new(5) live by (simp add: live_readers_def)
  qed
qed

lemma recv_packet_table:
  assumes inv: "table_inv px"
  shows "table_inv (recv_packet pkt now dialed px)"
proof (cases "Forward_enter now dialed pkt (px_fwd px)")
  case (Ok r)
  obtain pf ref where r: "r = (pf, ref)" by (cases r)
  note e = Forward_enter_effects [OF table_invD(1) [OF inv] Ok [unfolded r]]
  show ?thesis
    using forwarder_ok_enter(1) [OF table_invD(1) [OF inv] Ok [unfolded r]] e(1,2) e(3) [OF table_invD(2) [OF inv]]
    by (intro table_invI [OF inv]) (simp_all add: recv_packet_def Ok r)
qed (use inv in \<open>simp_all add: recv_packet_def table_inv_def\<close>)

lemma write_target_table:
  assumes inv: "table_inv px" and pc: "px_pc px = PWriting k pkt"
  shows "table_inv (write_target os_ok k pkt px)"
proof -
  have "k < length (pf_states (px_fwd px))" "ts_ConnectionID (pf_states (px_fwd px) ! k) = ConnectionId pkt"
    using table_invD(3) [OF inv] pc by (simp_all add: pc_ok_def)
  then show ?thesis
    using inv by (auto simp: write_target_def Forward_write_def Let_def table_inv_def pc_ok_def writes_ok_def)
qed

lemma remove_table:
  assumes inv: "table_inv px"
  shows "table_inv (px\<lparr>px_fwd := removeConnection i (px_fwd px), px_pc := PIdle\<rparr>)"
  using table_invD [OF inv] by (intro table_invI [OF inv])
    (simp_all add: forwarder_ok_remove live_readers_remove targets_extend_refl pc_ok_def)

lemma reader_returns_table:
  assumes inv: "table_inv px" and k: "k < length (px_readers px)"
  shows "table_inv (reader_returns k px)"
proof -
  let ?pf = "removeConnection (reader_id k px) (px_fwd px)"
  have "k \<notin> ran (pf_connections ?pf)"
    using forwarder_okD(2) [OF table_invD(1) [OF inv]]
    by (auto simp: ran_def reader_id_def split: if_splits)
  then show ?thesis
    using table_invD(1) [OF inv] live_readers_set [OF live_readers_remove [OF table_invD(2) [OF inv]]]
      pc_ok_same [OF table_invD(3) [OF inv], of ?pf]
    by (intro table_invI [OF inv]) (simp_all add: reader_returns_def forwarder_ok_remove targets_extend_refl)
qed

lemma set_reader_table:
  assumes inv: "table_inv px" and r: "r \<noteq> RDone"
  shows "table_inv (set_reader k r px)"
  using table_invD [OF inv] live_readers_set [OF table_invD(2) [OF inv]] r
  by (intro table_invI [OF inv]) (simp_all add: set_reader_def targets_extend_refl)

lemma frame_table:
  "table_inv px \<Longrightarrow> px_fwd px' = px_fwd px \<Longrightarrow> px_readers px' = px_readers px \<Longrightarrow>
   px_pc px' = px_pc px \<or> px_pc px' = PStopped \<Longrightarrow> px_written px' = px_written px \<Longrightarrow> table_inv px'"
  by (auto simp: table_inv_def pc_ok_def)

lemma touch_table:
  assumes inv: "table_inv px"
  shows "table_inv (px\<lparr>px_fwd := touch_target now k (px_fwd px)\<rparr>)"
  using table_invD [OF inv] live_readers_same [OF table_invD(2) [OF inv], of "touch_target now k (px_fwd px)"]
    pc_ok_extend [OF table_invD(3) [OF inv] targets_extend_touch]
  by (intro table_invI [OF inv]) (simp_all add: forwarder_ok_touch targets_extend_touch)

lemma forwarder_ok_cancel [simp]: "forwarder_ok (pf\<lparr>pf_cancelled := b\<rparr>) = forwarder_ok pf"
  by (simp add: forwarder_ok_def)

lemma cancel_table:
  assumes inv: "table_inv px"
  shows "table_inv (px\<lparr>px_fwd := (px_fwd px)\<lparr>pf_cancelled := True\<rparr>\<rparr>)"
  using table_invD(1) [OF inv] live_readers_same [OF table_invD(2) [OF inv], of "(px_fwd px)\<lparr>pf_cancelled := True\<rparr>"]
    pc_ok_same [OF table_invD(3) [OF inv], of "(px_fwd px)\<lparr>pf_cancelled := True\<rparr>"]
  by (intro table_invI [OF inv]) (simp_all add: targets_extend_refl)

lemma reader_at_not_done: "reader_at k px \<noteq> RDone \<Longrightarrow> k < length (px_readers px) \<and> px_readers px ! k = reader_at k px"
  by (simp add: reader_at_def split: if_splits)

lemma recv_server_table: "table_inv px \<Longrightarrow> table_inv (recv_server msg now dialed px)"
  by (cases msg) (simp_all add: recv_packet_table)

lemma server_step_table:
  assumes inv: "table_inv px" and e: "server_step px e = Some px'"
  shows "table_inv px'"
proof (cases e)
  case (PRecv msg now dialed)
  then show ?thesis using e recv_server_table [OF inv] by (auto split: if_splits)
next
  case (PWrite os_ok)
  then show ?thesis using e write_target_table [OF inv] by (auto split: forward_pc.splits)
next
  case PRemove
  then show ?thesis using e remove_table [OF inv] by (auto split: forward_pc.splits)
next
  case PStop
  then show ?thesis using e cancel_table [OF inv] by (auto split: if_splits)
next
  case (PSend ok)
  then show ?thesis using e by (auto split: list.splits if_splits intro!: frame_table [OF inv])
qed (use e in \<open>auto split: if_splits intro!: frame_table [OF inv]\<close>)

lemma set_reader_frame_table:
  "table_inv px \<Longrightarrow> r \<noteq> RDone \<Longrightarrow> px_fwd px' = px_fwd px \<Longrightarrow> px_readers px' = px_readers px \<Longrightarrow>
   px_pc px' = px_pc px \<Longrightarrow> px_written px' = px_written px \<Longrightarrow> table_inv (set_reader k r px')"
  using set_reader_table [of px' r k] frame_table [of px px'] by blast

lemma reader_step_table:
  assumes inv: "table_inv px" and e: "reader_step px e = Some px'"
  shows "table_inv px'"
proof (cases e)
  case (FCheck k)
  then have "reader_at k px = RTop" using e by (auto split: target_reader.splits)
  then show ?thesis
    using FCheck e reader_at_not_done [of k px] reader_returns_table [OF inv, of k] set_reader_table [OF inv]
    by (auto split: if_splits)
next
  case (FRead k data)
  then show ?thesis
    using e by (auto split: target_reader.splits if_splits intro!: set_reader_frame_table [OF inv])
next
  case (FReadFails k)
  then have "reader_at k px = RBlocked" using e by (auto split: target_reader.splits)
  then show ?thesis
    using FReadFails e reader_at_not_done [of k px] reader_returns_table [OF inv, of k] by auto
next
  case (FTouch k now stamp)
  then show ?thesis
    using e set_reader_table [OF touch_table [OF inv]] by (auto simp: Let_def split: target_reader.splits)
next
  case (FSend k)
  then show ?thesis
    using e by (auto split: target_reader.splits if_splits intro!: set_reader_frame_table [OF inv])
next
  case (FSendCancelled k)
  then obtain p where "reader_at k px = RSending p" using e by (auto split: target_reader.splits)
  then show ?thesis
    using FSendCancelled e reader_at_not_done [of k px] reader_returns_table [OF inv, of k] by (auto split: if_splits)
qed (use e in simp_all)

lemma px_exec_cases:
  assumes "px_exec px e = Some px'"
  obtains (server) "\<not> px_crashed px" "server_step px e = Some px'"
    | (reader) "\<not> px_crashed px" "reader_step px e = Some px'"
  using assms by (auto simp: px_exec_def split: if_splits option.splits)

lemma table_inv_init: "table_inv proxy_init"
  by (simp add: table_inv_def proxy_init_def forwarder_ok_new live_readers_def pc_ok_def writes_ok_def
    NewPacketForwarder_def)
    (simp add: forwarder_ok_def)

lemma px_reachable_table: "px_reachable px \<Longrightarrow> table_inv px"
proof (induction rule: px_reachable.induct)
  case (px_step px e px')
  from px_step.hyps(2) show ?case
    by (cases rule: px_exec_cases) (auto intro: server_step_table reader_step_table px_step.IH)
qed (rule table_inv_init)

section \<open>The streams of bytes\<close>

text \<open>
  Every byte read from a target is, in order, in a packet its reader put into the channel or in
  the packet it is about to put there. Only a reader that has returned may have lost its last read.
\<close>

definition bytes_of :: "nat \<Rightarrow> (nat \<times> byte list) list \<Rightarrow> byte list" where
  "bytes_of k xs = concat (map snd (filter (\<lambda>x. fst x = k) xs))"

lemma bytes_of_simps [simp]:
  "bytes_of k [] = []"
  "bytes_of k (xs @ [(j, d)]) = bytes_of k xs @ (if j = k then d else [])"
  by (simp_all add: bytes_of_def)

definition queued_data :: "proxy \<Rightarrow> (nat \<times> byte list) list" where
  "queued_data px = map (apsnd Data) (px_queued px)"

fun pending :: "target_reader \<Rightarrow> byte list" where
  "pending (RGot d) = d"
| "pending (RSending p) = Data p"
| "pending _ = []"

definition stream_ok :: "nat \<Rightarrow> (nat \<times> byte list) list \<Rightarrow> (nat \<times> byte list) list \<Rightarrow> target_reader \<Rightarrow> bool" where
  "stream_ok k rd qd r \<longleftrightarrow> prefix (bytes_of k qd) (bytes_of k rd) \<and>
     (r \<noteq> RDone \<longrightarrow> bytes_of k rd = bytes_of k qd @ pending r)"

definition streams_ok :: "(nat \<times> byte list) list \<Rightarrow> (nat \<times> byte list) list \<Rightarrow> target_reader list \<Rightarrow> bool" where
  "streams_ok rd qd rs \<longleftrightarrow> (\<forall>k. if k < length rs then stream_ok k rd qd (rs ! k)
     else bytes_of k rd = [] \<and> bytes_of k qd = [])"

lemma streams_okD: "streams_ok rd qd rs \<Longrightarrow> k < length rs \<Longrightarrow> stream_ok k rd qd (rs ! k)"
  unfolding streams_ok_def by presburger

lemma streams_ok_set:
  assumes "streams_ok rd qd rs" "k < length rs" "stream_ok k rd' qd' r"
    and "\<And>j. j \<noteq> k \<Longrightarrow> bytes_of j rd' = bytes_of j rd \<and> bytes_of j qd' = bytes_of j qd"
  shows "streams_ok rd' qd' (rs[k := r])"
  unfolding streams_ok_def
proof
  fix j
  show "if j < length (rs[k := r]) then stream_ok j rd' qd' (rs[k := r] ! j)
      else bytes_of j rd' = [] \<and> bytes_of j qd' = []"
  proof (cases "j = k")
    case True
    then show ?thesis using assms(2,3) by simp
  next
    case False
    have "if j < length rs then stream_ok j rd qd (rs ! j) else bytes_of j rd = [] \<and> bytes_of j qd = []"
      using assms(1) unfolding streams_ok_def by blast
    then show ?thesis using False assms(4) [OF False] by (simp add: stream_ok_def split: if_splits)
  qed
qed

lemma streams_ok_add:
  assumes "streams_ok rd qd rs"
  shows "streams_ok rd qd (rs @ replicate n RTop)"
  unfolding streams_ok_def
proof
  fix j
  have "if j < length rs then stream_ok j rd qd (rs ! j) else bytes_of j rd = [] \<and> bytes_of j qd = []"
    using assms unfolding streams_ok_def by blast
  then show "if j < length (rs @ replicate n RTop) then stream_ok j rd qd ((rs @ replicate n RTop) ! j)
      else bytes_of j rd = [] \<and> bytes_of j qd = []"
    by (auto simp: nth_append stream_ok_def split: if_splits)
qed

text \<open>A response packet of an identifier.\<close>

definition resp_ok :: "string \<Rightarrow> packet \<Rightarrow> bool" where
  "resp_ok i p \<longleftrightarrow> ConnectionId p = i \<and> Data p \<noteq> [] \<and> ConnTuple p = None \<and>
     PktProtocol p = Protocol_PROTOCOL_TCP \<and> Direction p = Direction_DIRECTION_REVERSE"

definition rd_ok :: "forwarder \<Rightarrow> nat \<Rightarrow> target_reader \<Rightarrow> bool" where
  "rd_ok pf k r \<longleftrightarrow> (case r of
     RGot d \<Rightarrow> d \<noteq> []
   | RSending p \<Rightarrow> resp_ok (ts_ConnectionID (pf_states pf ! k)) p
   | _ \<Rightarrow> True)"

definition readers_ok :: "forwarder \<Rightarrow> target_reader list \<Rightarrow> bool" where
  "readers_ok pf rs \<longleftrightarrow> (\<forall>k < length rs. rd_ok pf k (rs ! k))"

definition queued_ok :: "forwarder \<Rightarrow> (nat \<times> packet) list \<Rightarrow> bool" where
  "queued_ok pf qs \<longleftrightarrow> (\<forall>(k, p) \<in> set qs. k < length (pf_states pf) \<and> resp_ok (ts_ConnectionID (pf_states pf ! k)) p)"

text \<open>The channel is first in first out: what waits is the end of what was queued, and the packets
  sent to the server are some of the others, in order.\<close>

fun sent_packets :: "proxy_message list \<Rightarrow> packet list" where
  "sent_packets [] = []"
| "sent_packets (ProxyMessage_Packet p # ms) = p # sent_packets ms"
| "sent_packets (_ # ms) = sent_packets ms"

lemma sent_packets_append [simp]: "sent_packets (xs @ ys) = sent_packets xs @ sent_packets ys"
  by (induction xs rule: sent_packets.induct) simp_all

definition channel_ok :: "packet list \<Rightarrow> packet list \<Rightarrow> packet list \<Rightarrow> bool" where
  "channel_ok queued waiting sent \<longleftrightarrow> length waiting \<le> channelBuffer \<and>
     (\<exists>gone. queued = gone @ waiting \<and> subseq sent gone)"

lemma channel_ok_put:
  "channel_ok queued waiting sent \<Longrightarrow> length waiting < channelBuffer \<Longrightarrow>
   channel_ok (queued @ [p]) (waiting @ [p]) sent"
  by (auto simp: channel_ok_def)

lemma channel_ok_get:
  assumes "channel_ok queued (p # rest) sent"
  shows "channel_ok queued rest (sent @ (if b then [p] else []))"
proof -
  obtain gone where gone: "queued = gone @ p # rest" "subseq sent gone" "length (p # rest) \<le> channelBuffer"
    using assms by (auto simp: channel_ok_def)
  then have "subseq (sent @ (if b then [p] else [])) (gone @ [p])"
    by (auto intro: list_emb_append_mono list_emb_append2)
  then show ?thesis
    using gone unfolding channel_ok_def by (intro conjI exI [of _ "gone @ [p]"]) simp_all
qed

definition stream_inv :: "proxy \<Rightarrow> bool" where
  "stream_inv px \<longleftrightarrow> streams_ok (px_read px) (queued_data px) (px_readers px) \<and>
     readers_ok (px_fwd px) (px_readers px) \<and> queued_ok (px_fwd px) (px_queued px) \<and>
     channel_ok (map snd (px_queued px)) (px_responses px) (sent_packets (px_sent px))"

lemma stream_invD:
  assumes "stream_inv px"
  shows "streams_ok (px_read px) (queued_data px) (px_readers px)" "readers_ok (px_fwd px) (px_readers px)"
    "queued_ok (px_fwd px) (px_queued px)"
    "channel_ok (map snd (px_queued px)) (px_responses px) (sent_packets (px_sent px))"
  using assms by (simp_all add: stream_inv_def)

lemma readers_ok_extend:
  assumes "readers_ok pf rs" "targets_extend pf pf'" "length rs = length (pf_states pf)"
  shows "readers_ok pf' rs"
  unfolding readers_ok_def
proof (intro allI impI)
  fix k assume k: "k < length rs"
  then have "rd_ok pf k (rs ! k)" "ts_ConnectionID (pf_states pf' ! k) = ts_ConnectionID (pf_states pf ! k)"
    using assms by (simp_all add: readers_ok_def targets_extend_def)
  then show "rd_ok pf' k (rs ! k)" by (cases "rs ! k") (simp_all add: rd_ok_def)
qed

lemma readers_ok_set:
  assumes "readers_ok pf rs" "rd_ok pf k r"
  shows "readers_ok pf (rs[k := r])"
  unfolding readers_ok_def
proof (intro allI impI)
  fix j assume "j < length (rs[k := r])"
  then show "rd_ok pf j (rs[k := r] ! j)"
    using assms by (cases "j = k") (simp_all add: readers_ok_def)
qed

lemma readers_ok_add: "readers_ok pf rs \<Longrightarrow> readers_ok pf (rs @ replicate n RTop)"
  by (auto simp: readers_ok_def rd_ok_def nth_append)

lemma queued_ok_extend:
  assumes "queued_ok pf qs" "targets_extend pf pf'"
  shows "queued_ok pf' qs"
  unfolding queued_ok_def
proof clarify
  fix k p assume "(k, p) \<in> set qs"
  then have "k < length (pf_states pf)" "resp_ok (ts_ConnectionID (pf_states pf ! k)) p"
    using assms(1) by (auto simp: queued_ok_def)
  then show "k < length (pf_states pf') \<and> resp_ok (ts_ConnectionID (pf_states pf' ! k)) p"
    using assms(2) by (simp add: targets_extend_def)
qed

text \<open>An event that leaves the channel and the histories alone, and extends the states.\<close>

lemma stream_inv_frame:
  assumes inv: "stream_inv px" and ext: "targets_extend (px_fwd px) (px_fwd px')"
    and len: "length (px_readers px) = length (pf_states (px_fwd px))"
    and same: "px_readers px' = px_readers px" "px_read px' = px_read px" "px_queued px' = px_queued px"
      "px_responses px' = px_responses px" "sent_packets (px_sent px') = sent_packets (px_sent px)"
  shows "stream_inv px'"
  using stream_invD [OF inv] readers_ok_extend [OF stream_invD(2) [OF inv] ext len]
    queued_ok_extend [OF stream_invD(3) [OF inv] ext]
  unfolding stream_inv_def by (simp add: same queued_data_def)

text \<open>A reader moves: the bytes it holds, has read and has queued stay in balance.\<close>

lemma stream_inv_reader:
  assumes inv: "stream_inv px" and k: "k < length (px_readers px)"
    and ext: "targets_extend (px_fwd px) (px_fwd px')" and len: "length (px_readers px) = length (pf_states (px_fwd px))"
    and st: "stream_ok k (px_read px') (queued_data px') r"
    and other: "\<And>j. j \<noteq> k \<Longrightarrow> bytes_of j (px_read px') = bytes_of j (px_read px) \<and>
        bytes_of j (queued_data px') = bytes_of j (queued_data px)"
    and r: "rd_ok (px_fwd px') k r" and rs: "px_readers px' = (px_readers px)[k := r]"
    and q: "queued_ok (px_fwd px') (px_queued px')"
    and ch: "channel_ok (map snd (px_queued px')) (px_responses px') (sent_packets (px_sent px'))"
  shows "stream_inv px'"
  using streams_ok_set [OF stream_invD(1) [OF inv] k st other] q ch
    readers_ok_set [OF readers_ok_extend [OF stream_invD(2) [OF inv] ext len] r]
  by (simp add: stream_inv_def rs)

lemma reader_at_stream:
  assumes inv: "stream_inv px" and r: "reader_at k px = r" "r \<noteq> RDone"
  shows "k < length (px_readers px)" "stream_ok k (px_read px) (queued_data px) r" "rd_ok (px_fwd px) k r"
proof -
  have k: "k < length (px_readers px)" "px_readers px ! k = r"
    using r by (simp_all add: reader_at_def split: if_splits)
  show "k < length (px_readers px)" by (rule k(1))
  show "stream_ok k (px_read px) (queued_data px) r" using streams_okD [OF stream_invD(1) [OF inv] k(1)] k(2) by simp
  show "rd_ok (px_fwd px) k r" using stream_invD(2) [OF inv] k by (auto simp: readers_ok_def)
qed

lemma stream_ok_returned: "stream_ok k rd qd r \<Longrightarrow> stream_ok k rd qd RDone"
  by (simp add: stream_ok_def)

lemma stream_ok_pending:
  "stream_ok k rd qd r \<Longrightarrow> r \<noteq> RDone \<Longrightarrow> pending r' = pending r \<Longrightarrow> stream_ok k rd qd r'"
  by (simp add: stream_ok_def)

lemma reader_returns_stream:
  assumes inv: "stream_inv px" and len: "length (px_readers px) = length (pf_states (px_fwd px))"
    and r: "reader_at k px \<noteq> RDone"
  shows "stream_inv (reader_returns k px)"
proof -
  note at = reader_at_stream [OF inv refl r]
  have ext: "targets_extend (px_fwd px) (removeConnection i (px_fwd px))" for i by (simp add: targets_extend_refl)
  show ?thesis
    using stream_invD [OF inv] stream_ok_returned [OF at(2)]
    by (intro stream_inv_reader [OF inv at(1) _ len, where r = RDone])
      (simp_all add: reader_returns_def ext queued_data_def rd_ok_def queued_ok_extend [OF _ ext])
qed

lemma set_reader_stream:
  assumes inv: "stream_inv px" and len: "length (px_readers px) = length (pf_states (px_fwd px))"
    and at: "reader_at k px \<noteq> RDone" and r: "pending r = pending (reader_at k px)" "rd_ok (px_fwd px) k r"
  shows "stream_inv (set_reader k r px)"
proof -
  note at' = reader_at_stream [OF inv refl at]
  show ?thesis
    using stream_invD [OF inv] stream_ok_pending [OF at'(2) at r(1)] r(2)
    by (intro stream_inv_reader [OF inv at'(1) _ len, where r = r])
      (simp_all add: set_reader_def targets_extend_refl queued_data_def)
qed

lemma read_stream:
  assumes inv: "stream_inv px" and len: "length (px_readers px) = length (pf_states (px_fwd px))"
    and at: "reader_at k px = RBlocked" and data: "data \<noteq> []"
  shows "stream_inv (set_reader k (RGot data) (px\<lparr>px_read := px_read px @ [(k, data)]\<rparr>))"
proof -
  note at' = reader_at_stream [OF inv at]
  have "stream_ok k (px_read px @ [(k, data)]) (queued_data px) (RGot data)"
    using at'(2) by (auto simp: stream_ok_def)
  then show ?thesis
    using stream_invD [OF inv] data at'(1)
    by (intro stream_inv_reader [OF inv _ _ len, where r = "RGot data" and k = k])
      (simp_all add: set_reader_def targets_extend_refl queued_data_def rd_ok_def)
qed

lemma touch_stream:
  assumes inv: "stream_inv px" and len: "length (px_readers px) = length (pf_states (px_fwd px))"
    and at: "reader_at k px = RGot data"
  shows "stream_inv (set_reader k (RSending (responsePkt (pf_states (touch_target now k (px_fwd px)) ! k) stamp data))
    (px\<lparr>px_fwd := touch_target now k (px_fwd px)\<rparr>))"
proof -
  note at' = reader_at_stream [OF inv at]
  let ?r = "RSending (responsePkt (pf_states (touch_target now k (px_fwd px)) ! k) stamp data)"
  have "stream_ok k (px_read px) (queued_data px) ?r"
    using at'(2) by (auto simp: stream_ok_def responsePkt_def)
  moreover have "data \<noteq> []" using at'(3) by (simp add: rd_ok_def)
  ultimately show ?thesis
    using stream_invD [OF inv] at'(1) queued_ok_extend [OF stream_invD(3) [OF inv] targets_extend_touch]
    by (intro stream_inv_reader [OF inv _ _ len, where r = ?r and k = k])
      (simp_all add: set_reader_def targets_extend_touch queued_data_def rd_ok_def resp_ok_def responsePkt_def)
qed

lemma put_stream:
  assumes inv: "stream_inv px" and len: "length (px_readers px) = length (pf_states (px_fwd px))"
    and at: "reader_at k px = RSending p" and room: "length (px_responses px) < channelBuffer"
  shows "stream_inv (set_reader k RTop (px\<lparr>px_responses := px_responses px @ [p],
    px_queued := px_queued px @ [(k, p)]\<rparr>))"
proof -
  note at' = reader_at_stream [OF inv at]
  have "stream_ok k (px_read px) (queued_data px @ [(k, Data p)]) RTop"
    using at'(2) by (auto simp: stream_ok_def)
  moreover have "queued_ok (px_fwd px) (px_queued px @ [(k, p)])"
    using at' stream_invD(3) [OF inv] len by (auto simp: queued_ok_def rd_ok_def)
  ultimately show ?thesis
    using at'(1) channel_ok_put [OF stream_invD(4) [OF inv] room]
    by (intro stream_inv_reader [OF inv _ _ len, where r = RTop and k = k])
      (simp_all add: set_reader_def targets_extend_refl queued_data_def rd_ok_def)
qed

lemma reader_step_stream:
  assumes inv: "stream_inv px" and len: "length (px_readers px) = length (pf_states (px_fwd px))"
    and e: "reader_step px e = Some px'"
  shows "stream_inv px'"
proof (cases e)
  case (FCheck k)
  then have "reader_at k px = RTop" using e by (auto split: target_reader.splits)
  then show ?thesis
    using FCheck e reader_returns_stream [OF inv len, of k] set_reader_stream [OF inv len, of k RBlocked]
    by (auto simp: rd_ok_def split: if_splits)
next
  case (FRead k data)
  then have "reader_at k px = RBlocked" using e by (auto split: target_reader.splits)
  then show ?thesis
    using FRead e read_stream [OF inv len] set_reader_stream [OF inv len, of k RTop]
    by (auto simp: rd_ok_def split: if_splits)
next
  case (FReadFails k)
  then have "reader_at k px = RBlocked" using e by (auto split: target_reader.splits)
  then show ?thesis using FReadFails e reader_returns_stream [OF inv len, of k] by auto
next
  case (FTouch k now stamp)
  then obtain data where "reader_at k px = RGot data" using e by (auto split: target_reader.splits)
  then show ?thesis using FTouch e touch_stream [OF inv len] by (auto simp: Let_def)
next
  case (FSend k)
  then obtain p where "reader_at k px = RSending p" using e by (auto split: target_reader.splits)
  then show ?thesis using FSend e put_stream [OF inv len] by (auto split: if_splits)
next
  case (FSendCancelled k)
  then obtain p where "reader_at k px = RSending p" using e by (auto split: target_reader.splits)
  then show ?thesis
    using FSendCancelled e reader_returns_stream [OF inv len, of k] by (auto split: if_splits)
qed (use e in simp_all)

lemma recv_packet_stream:
  assumes inv: "stream_inv px" and tab: "table_inv px"
  shows "stream_inv (recv_packet pkt now dialed px)"
proof (cases "Forward_enter now dialed pkt (px_fwd px)")
  case (Ok r)
  obtain pf ref where r: "r = (pf, ref)" by (cases r)
  note ext = Forward_enter_effects(1) [OF table_invD(1) [OF tab] Ok [unfolded r]]
  show ?thesis
    using stream_invD [OF inv] streams_ok_add [OF stream_invD(1) [OF inv]] queued_ok_extend [OF stream_invD(3) [OF inv] ext]
      readers_ok_add [OF readers_ok_extend [OF stream_invD(2) [OF inv] ext table_invD(5) [OF tab]]]
    unfolding stream_inv_def by (simp add: recv_packet_def Ok r queued_data_def)
next
  case (Err e)
  then show ?thesis using inv by (simp add: recv_packet_def)
next
  case Panic
  then show ?thesis
    using inv stream_inv_frame [OF inv _ table_invD(5) [OF tab], of "px\<lparr>px_crashed := True\<rparr>"]
    by (simp add: recv_packet_def targets_extend_refl)
qed

lemma server_step_stream:
  assumes inv: "stream_inv px" and tab: "table_inv px" and e: "server_step px e = Some px'"
  shows "stream_inv px'"
proof -
  note frame = stream_inv_frame [OF inv _ table_invD(5) [OF tab]]
  show ?thesis
  proof (cases e)
    case (PRecv msg now dialed)
    then show ?thesis
      using e recv_packet_stream [OF inv tab] inv by (cases msg) (auto split: if_splits)
  next
    case (PWrite os_ok)
    then show ?thesis
      using e by (auto simp: write_target_def targets_extend_refl split: forward_pc.splits option.splits intro!: frame)
  next
    case PRemove
    then show ?thesis
      using e by (auto simp: targets_extend_refl split: forward_pc.splits intro!: frame)
  next
    case PStop
    then show ?thesis using e by (auto simp: targets_extend_refl split: if_splits intro!: frame)
  next
    case (PSend ok)
    then obtain p rest where p: "px_responses px = p # rest" and px': "px' = px\<lparr>px_responses := rest,
        px_sent := px_sent px @ (if ok then [ProxyMessage_Packet p] else [])\<rparr>"
      using e by (auto split: list.splits if_splits)
    have "channel_ok (map snd (px_queued px)) rest (sent_packets (px_sent px) @ (if ok then [p] else []))"
      using channel_ok_get [of "map snd (px_queued px)" p rest] stream_invD(4) [OF inv] p by simp
    then show ?thesis using stream_invD [OF inv] by (cases ok) (simp_all add: px' stream_inv_def queued_data_def)
  qed (use e in \<open>auto simp: targets_extend_refl split: if_splits intro!: frame\<close>)
qed

lemma stream_inv_init: "stream_inv proxy_init"
  by (simp add: stream_inv_def proxy_init_def streams_ok_def queued_data_def readers_ok_def queued_ok_def channel_ok_def)

lemma px_reachable_stream: "px_reachable px \<Longrightarrow> stream_inv px"
proof (induction rule: px_reachable.induct)
  case (px_step px e px')
  note tab = px_reachable_table [OF px_step.hyps(1)]
  from px_step.hyps(2) show ?case
    by (cases rule: px_exec_cases)
      (auto intro: server_step_stream [OF px_step.IH tab] reader_step_stream [OF px_step.IH table_invD(5) [OF tab]])
qed (rule stream_inv_init)

section \<open>Where a packet's data comes from\<close>

text \<open>A packet in the channel, and the data a reader holds, is the result of one read of that reader.\<close>

definition provenance :: "proxy \<Rightarrow> bool" where
  "provenance px \<longleftrightarrow> (\<forall>(k, p) \<in> set (px_queued px). (k, Data p) \<in> set (px_read px)) \<and>
     (\<forall>k. pending (reader_at k px) \<noteq> [] \<longrightarrow> (k, pending (reader_at k px)) \<in> set (px_read px))"

lemma reader_at_set:
  "reader_at j (set_reader k r px) = (if j = k \<and> k < length (px_readers px) then r else reader_at j px)"
  by (simp add: reader_at_def set_reader_def)

lemma reader_at_returns:
  "reader_at j (reader_returns k px) = (if j = k then RDone else reader_at j px)"
  by (auto simp: reader_at_def reader_returns_def)

lemma reader_at_update [simp]:
  "reader_at k (px\<lparr>px_fwd := pf\<rparr>) = reader_at k px" "reader_at k (px\<lparr>px_read := rd\<rparr>) = reader_at k px"
  "reader_at k (px\<lparr>px_responses := ps, px_queued := qs\<rparr>) = reader_at k px"
  by (simp_all add: reader_at_def)

lemma set_reader_hist [simp]:
  "px_read (set_reader k r px) = px_read px" "px_queued (set_reader k r px) = px_queued px"
  "px_read (reader_returns k px) = px_read px" "px_queued (reader_returns k px) = px_queued px"
  by (simp_all add: set_reader_def reader_returns_def)

lemma provenance_frame:
  assumes "provenance px" "px_queued px' = px_queued px" "px_read px' = px_read px"
    and "\<And>k. pending (reader_at k px') = [] \<or> pending (reader_at k px') = pending (reader_at k px)"
  shows "provenance px'"
proof -
  have "(k, pending (reader_at k px')) \<in> set (px_read px')" if "pending (reader_at k px') \<noteq> []" for k
    using assms(1,3) assms(4) [of k] that by (simp add: provenance_def)
  then show ?thesis using assms(1,2,3) by (simp add: provenance_def)
qed

lemma reader_step_provenance:
  assumes prov: "provenance px" and rd: "readers_ok (px_fwd px) (px_readers px)" and e: "reader_step px e = Some px'"
  shows "provenance px'"
proof (cases e)
  case (FCheck k)
  then show ?thesis
    using e by (auto split: target_reader.splits if_splits intro!: provenance_frame [OF prov]
      simp: reader_at_set reader_at_returns)
next
  case (FRead k data)
  then have at: "reader_at k px = RBlocked" using e by (auto split: target_reader.splits)
  show ?thesis
  proof (cases "data = []")
    case True
    then show ?thesis using FRead e at by (auto split: if_splits intro!: provenance_frame [OF prov] simp: reader_at_set)
  next
    case False
    then have px': "px' = set_reader k (RGot data) (px\<lparr>px_read := px_read px @ [(k, data)]\<rparr>)"
      using FRead e at by (auto split: if_splits)
    have "reader_at j px' = (if j = k then RGot data else reader_at j px)" for j
      using at by (auto simp: px' reader_at_def set_reader_def split: if_splits)
    then show ?thesis using prov by (auto simp: provenance_def px')
  qed
next
  case (FReadFails k)
  then show ?thesis
    using e by (auto split: target_reader.splits intro!: provenance_frame [OF prov] simp: reader_at_returns)
next
  case (FTouch k now stamp)
  then obtain data where at: "reader_at k px = RGot data" using e by (auto split: target_reader.splits)
  then show ?thesis
    using FTouch e by (auto simp: Let_def reader_at_def set_reader_def nth_list_update responsePkt_def split: if_splits
      intro!: provenance_frame [OF prov])
next
  case (FSend k)
  then obtain p where at: "reader_at k px = RSending p" using e by (auto split: target_reader.splits)
  then have px': "px' = set_reader k RTop (px\<lparr>px_responses := px_responses px @ [p], px_queued := px_queued px @ [(k, p)]\<rparr>)"
    using FSend e by (auto split: if_splits)
  have "Data p \<noteq> []"
    using rd reader_at_not_done [of k px] at by (auto simp: readers_ok_def rd_ok_def resp_ok_def)
  then have "(k, Data p) \<in> set (px_read px)" using prov at unfolding provenance_def by (metis pending.simps(2))
  moreover have "reader_at j px' = (if j = k then RTop else reader_at j px)" for j
    using at by (auto simp: px' reader_at_def set_reader_def split: if_splits)
  ultimately show ?thesis using prov by (auto simp: provenance_def px')
next
  case (FSendCancelled k)
  then show ?thesis
    using e by (auto split: target_reader.splits if_splits intro!: provenance_frame [OF prov] simp: reader_at_returns)
qed (use e in simp_all)

lemma server_step_provenance:
  assumes prov: "provenance px" and e: "server_step px e = Some px'"
  shows "provenance px'"
proof (cases e)
  case (PRecv msg now dialed)
  then have "px' = recv_server msg now dialed px" using e by (auto split: if_splits)
  then show ?thesis
    by (cases msg) (auto simp: recv_packet_def reader_at_def nth_append split: outcome.splits
      intro!: provenance_frame [OF prov])
qed (use e in \<open>auto simp: write_target_def reader_at_def split: if_splits forward_pc.splits list.splits option.splits
  intro!: provenance_frame [OF prov]\<close>)

lemma px_reachable_provenance: "px_reachable px \<Longrightarrow> provenance px"
proof (induction rule: px_reachable.induct)
  case (px_step px e px')
  from px_step.hyps(2) show ?case
    by (cases rule: px_exec_cases) (auto intro: server_step_provenance [OF px_step.IH]
      reader_step_provenance [OF px_step.IH stream_invD(2) [OF px_reachable_stream [OF px_step.hyps(1)]]])
qed (simp add: provenance_def proxy_init_def reader_at_def)

lemma queued_was_read:
  assumes "px_reachable px" "(k, p) \<in> set (px_queued px)"
  shows "k < length (pf_states (px_fwd px))" "reader_id k px = ConnectionId p" "(k, Data p) \<in> set (px_read px)"
  using px_reachable_provenance [OF assms(1)] stream_invD(3) [OF px_reachable_stream [OF assms(1)]] assms(2)
  by (auto simp: provenance_def queued_ok_def resp_ok_def reader_id_def)

section \<open>The channel over a run\<close>

text \<open>The results of the calls of \<open>Send\<close> with a packet, in order.\<close>

definition send_results :: "proxy_event list \<Rightarrow> bool list" where
  "send_results es = concat (map (\<lambda>e. case e of PSend ok \<Rightarrow> [ok] | _ \<Rightarrow> []) es)"

text \<open>The packets whose \<open>Send\<close> succeeded, when the packets \<open>gone\<close> have left the channel.\<close>

definition delivered :: "packet list \<Rightarrow> bool list \<Rightarrow> packet list" where
  "delivered gone oks = map fst (filter snd (zip gone oks))"

lemma delivered_simps [simp]:
  "delivered [] [] = []"
  "length gone = length oks \<Longrightarrow> delivered (gone @ [p]) (oks @ [ok]) = delivered gone oks @ (if ok then [p] else [])"
  by (simp_all add: delivered_def)

lemma delivered_all: "length gone = length oks \<Longrightarrow> False \<notin> set oks \<Longrightarrow> delivered gone oks = gone"
  by (induction gone oks rule: list_induct2) (auto simp: delivered_def)

lemma delivered_subseq: "length gone = length oks \<Longrightarrow> subseq (delivered gone oks) gone"
  by (induction gone oks rule: list_induct2) (auto simp: delivered_def)

text \<open>Only \<open>PSend\<close> takes a packet out of the channel, and it takes the oldest.\<close>

lemma px_exec_channel:
  assumes "px_exec px e = Some px'"
  shows "if (\<exists>ok. e = PSend ok)
    then \<exists>p. px_responses px = p # px_responses px' \<and> px_queued px' = px_queued px \<and>
      sent_packets (px_sent px') = sent_packets (px_sent px) @ (if e = PSend True then [p] else [])
    else \<exists>ps. px_responses px' = px_responses px @ ps \<and> map snd (px_queued px') = map snd (px_queued px) @ ps \<and>
      sent_packets (px_sent px') = sent_packets (px_sent px)"
  using assms
proof (cases rule: px_exec_cases)
  case server
  show ?thesis
  proof (cases e)
    case (PRecv msg now dialed)
    then have "px' = recv_server msg now dialed px" using server(2) by (auto split: if_splits)
    then show ?thesis using PRecv by (cases msg) (auto simp: recv_packet_def split: outcome.splits)
  qed (use server(2) in \<open>auto simp: write_target_def split: if_splits forward_pc.splits list.splits option.splits\<close>)
next
  case reader
  then show ?thesis
    by (cases e) (auto simp: Let_def set_reader_def reader_returns_def split: target_reader.splits if_splits)
qed

lemma px_run_channel:
  "px_run es proxy_init = Some px \<Longrightarrow> \<exists>gone. map snd (px_queued px) = gone @ px_responses px \<and>
     length gone = length (send_results es) \<and> sent_packets (px_sent px) = delivered gone (send_results es)"
proof (induction es arbitrary: px rule: rev_induct)
  case Nil
  then show ?case by (auto simp: proxy_init_def send_results_def)
next
  case (snoc e es)
  then obtain px0 where px0: "px_run es proxy_init = Some px0" "px_exec px0 e = Some px"
    by (auto simp: px_run_append split: option.splits)
  obtain gone where gone: "map snd (px_queued px0) = gone @ px_responses px0"
      "length gone = length (send_results es)" "sent_packets (px_sent px0) = delivered gone (send_results es)"
    using snoc.IH [OF px0(1)] by blast
  note ch = px_exec_channel [OF px0(2)]
  show ?case
  proof (cases "\<exists>ok. e = PSend ok")
    case True
    then obtain ok p where e: "e = PSend ok" and p: "px_responses px0 = p # px_responses px" "px_queued px = px_queued px0"
        "sent_packets (px_sent px) = sent_packets (px_sent px0) @ (if ok then [p] else [])"
      using ch by auto
    then show ?thesis using gone by (intro exI [of _ "gone @ [p]"]) (simp add: send_results_def)
  next
    case False
    then have "send_results (es @ [e]) = send_results es" by (cases e) (auto simp: send_results_def)
    then show ?thesis using ch False gone by (intro exI [of _ gone]) auto
  qed
qed

section \<open>Properties\<close>

text \<open>C7: The proxy's response path over a whole run. The bytes a reader put into the channel are a
  prefix of the bytes it read from its target, and all of them but the read in progress while
  the reader runs. The packets that have left the channel are, in the order they were queued, those
  ahead of the at most 100 that wait, one for each call of \<open>Send\<close>, and the packets sent to the
  server are exactly those whose \<open>Send\<close> succeeded: a packet is lost only when its \<open>Send\<close> fails, and
  none is when no \<open>Send\<close> fails. Each carries the identifier of the connection it was read from,
  the data of one read and the reverse direction.\<close>

theorem proxy_streams_intact:
  assumes "px_run es proxy_init = Some px"
  shows "(\<forall>k. prefix (bytes_of k (queued_data px)) (bytes_of k (px_read px))) \<and>
    (\<forall>k < length (px_readers px). px_readers px ! k \<noteq> RDone \<longrightarrow>
       bytes_of k (px_read px) = bytes_of k (queued_data px) @ pending (px_readers px ! k)) \<and>
    (\<exists>gone. map snd (px_queued px) = gone @ px_responses px \<and> length gone = length (send_results es) \<and>
       sent_packets (px_sent px) = delivered gone (send_results es) \<and>
       (False \<notin> set (send_results es) \<longrightarrow> map snd (px_queued px) = sent_packets (px_sent px) @ px_responses px)) \<and>
    length (px_responses px) \<le> 100 \<and>
    (\<forall>(k, p) \<in> set (px_queued px). ConnectionId p = reader_id k px \<and> Data p \<noteq> [] \<and>
       (k, Data p) \<in> set (px_read px) \<and> Direction p = Direction_DIRECTION_REVERSE)"
proof -
  note reach = px_reachable_run [OF px_init assms]
  note inv = px_reachable_stream [OF reach]
  have s: "if k < length (px_readers px) then stream_ok k (px_read px) (queued_data px) (px_readers px ! k)
      else bytes_of k (px_read px) = [] \<and> bytes_of k (queued_data px) = []" for k
    using stream_invD(1) [OF inv] unfolding streams_ok_def by blast
  have "prefix (bytes_of k (queued_data px)) (bytes_of k (px_read px))" for k
    using s [of k] by (simp add: stream_ok_def split: if_splits)
  moreover have "bytes_of k (px_read px) = bytes_of k (queued_data px) @ pending (px_readers px ! k)"
    if "k < length (px_readers px)" "px_readers px ! k \<noteq> RDone" for k
    using s [of k] that by (simp add: stream_ok_def)
  moreover have "ConnectionId p = reader_id k px \<and> Data p \<noteq> [] \<and> (k, Data p) \<in> set (px_read px) \<and>
      Direction p = Direction_DIRECTION_REVERSE" if "(k, p) \<in> set (px_queued px)" for k p
    using stream_invD(3) [OF inv] queued_was_read [OF reach that] that by (auto simp: queued_ok_def resp_ok_def)
  moreover have "length (px_responses px) \<le> 100"
    using stream_invD(4) [OF inv] by (simp add: channel_ok_def channelBuffer_def)
  ultimately show ?thesis using px_run_channel [OF assms] delivered_all by fastforce
qed

text \<open>C10: The proxy leaks no target connection. In every reachable state, a connection that was ever
  dialled is closed, or is in the table under its identifier and has a running reader; and data
  was only written to connections of the packet's identifier. Once the forwarder has stopped,
  the table is empty and every connection is closed.\<close>

theorem proxy_leaks_no_connection:
  assumes "px_reachable px"
  shows "(\<forall>k < length (pf_states (px_fwd px)). target_conn k px \<in> set (pf_closed (px_fwd px)) \<or>
       pf_connections (px_fwd px) (reader_id k px) = Some k \<and> px_readers px ! k \<noteq> RDone) \<and>
    (\<forall>(c, pkt) \<in> set (px_written px). \<exists>k < length (pf_states (px_fwd px)).
       target_conn k px = c \<and> reader_id k px = ConnectionId pkt) \<and>
    (forwarder_stopped px \<longrightarrow> pf_connections (px_fwd px) = Map.empty \<and>
       (\<forall>k < length (pf_states (px_fwd px)). target_conn k px \<in> set (pf_closed (px_fwd px))))"
proof -
  note inv = px_reachable_table [OF assms]
  have a: "target_conn k px \<in> set (pf_closed (px_fwd px)) \<or>
      pf_connections (px_fwd px) (reader_id k px) = Some k \<and> px_readers px ! k \<noteq> RDone"
    if "k < length (pf_states (px_fwd px))" for k
    using forwarder_ok_no_leak [OF table_invD(1) [OF inv] that] table_invD(2) [OF inv]
    unfolding target_conn_def reader_id_def live_readers_def by blast
  have w: "\<forall>(c, pkt) \<in> set (px_written px). \<exists>k < length (pf_states (px_fwd px)).
       target_conn k px = c \<and> reader_id k px = ConnectionId pkt"
    using table_invD(4) [OF inv] by (simp add: writes_ok_def target_conn_def reader_id_def)
  have "pf_connections (px_fwd px) i = None" if "forwarder_stopped px" for i
  proof (rule ccontr)
    assume "pf_connections (px_fwd px) i \<noteq> None"
    then obtain k where k: "pf_connections (px_fwd px) i = Some k" by blast
    then have "px_readers px ! k \<noteq> RDone" "k < length (px_readers px)"
      using table_invD(2,5) [OF inv] forwarder_okD(1) [OF table_invD(1) [OF inv] k] by (auto simp: live_readers_def)
    with that show False by (simp add: forwarder_stopped_def)
  qed
  then have e: "pf_connections (px_fwd px) = Map.empty" if "forwarder_stopped px" using that by blast
  have "target_conn k px \<in> set (pf_closed (px_fwd px))"
    if "forwarder_stopped px" "k < length (pf_states (px_fwd px))" for k
    using a [OF that(2)] e [OF that(1)] by simp
  then show ?thesis using a w e by blast
qed

definition sample_target_packet :: packet where
  "sample_target_packet = \<lparr>ConnectionId = ''x'', Data = [1, 2], ConnTuple = Some \<lparr>SrcIp = ''10.0.0.5'',
     SrcPortN = 40000, DstIp = ''192.168.1.10'', DstPortN = 443\<rparr>, PktProtocol = Protocol_PROTOCOL_TCP,
     Direction = Direction_DIRECTION_FORWARD, Timestamp = 0\<rparr>"

lemmas px_run_simps = px_exec_def proxy_init_def NewPacketForwarder_def recv_packet_def Forward_enter_def
  write_target_def Forward_write_def fresh_conn_def reader_returns_def set_reader_def reader_at_def reader_id_def
  target_conn_def removeConnection_def close_target_def touch_target_def channelBuffer_def Let_def
  sample_target_packet_def

text \<open>One packet opens a connection, the target answers with five bytes in two reads.\<close>

definition sample_events :: "proxy_event list" where
  "sample_events = [PRecv (ProxyMessage_Packet sample_target_packet) 0 (Some 3), PWrite True, FCheck 0,
     FRead 0 [7, 8, 9], FTouch 0 1 1, FSend 0, FCheck 0, FRead 0 [4, 5], PSend True]"

lemma sample_events_run:
  obtains px where "px_run sample_events proxy_init = Some px" "px_reachable px"
    "px_read px = [(0, [7, 8, 9]), (0, [4, 5])]" "px_readers px = [RGot [4, 5]]" "px_written px = [(3, sample_target_packet)]"
    "length (pf_states (px_fwd px)) = 1" "target_conn 0 px = 3" "pf_closed (px_fwd px) = []"
proof -
  obtain px where px: "px_run sample_events proxy_init = Some px"
    "px_read px = [(0, [7, 8, 9]), (0, [4, 5])]" "px_readers px = [RGot [4, 5]]" "px_written px = [(3, sample_target_packet)]"
    "length (pf_states (px_fwd px)) = 1" "target_conn 0 px = 3" "pf_closed (px_fwd px) = []"
    by (simp add: sample_events_def px_run_simps)
  with px_reachable_run [OF px_init px(1)] that show thesis by blast
qed

theorem proxy_streams_intact_witness:
  "\<exists>px. px_run sample_events proxy_init = Some px \<and> bytes_of 0 (queued_data px) = [7, 8, 9] \<and>
     map snd (px_queued px) = sent_packets (px_sent px) @ px_responses px"
proof -
  obtain px where px: "px_run sample_events proxy_init = Some px" "px_reachable px"
    "px_read px = [(0, [7, 8, 9]), (0, [4, 5])]" "px_readers px = [RGot [4, 5]]"
    by (rule sample_events_run)
  note intact = proxy_streams_intact [OF px(1)]
  have "bytes_of 0 (px_read px) = bytes_of 0 (queued_data px) @ pending (px_readers px ! 0)"
    using intact px(4) by simp
  then have "bytes_of 0 (queued_data px) = [7, 8, 9]" by (simp add: px(3,4)) (simp add: bytes_of_def)
  moreover have "False \<notin> set (send_results sample_events)" by (simp add: send_results_def sample_events_def)
  then have "map snd (px_queued px) = sent_packets (px_sent px) @ px_responses px" using intact by blast
  ultimately show ?thesis using px(1) by blast
qed

theorem proxy_leaks_no_connection_witness:
  "\<exists>px. px_run sample_events proxy_init = Some px \<and> pf_connections (px_fwd px) (reader_id 0 px) = Some 0"
proof -
  obtain px where px: "px_run sample_events proxy_init = Some px" "px_reachable px"
    "length (pf_states (px_fwd px)) = 1" "pf_closed (px_fwd px) = []"
    by (rule sample_events_run)
  then show ?thesis using proxy_leaks_no_connection [OF px(2)] by auto
qed

text \<open>C30: A failed write removes a target connection before its reader has returned. Whenever a tracked
  connection's write fails while its reader waits in \<open>Read\<close>, and the next packet of the
  identifier dials again, the end of the old read makes the old reader's deferred removal close and
  forget the new connection, which carries the new packet and whose own reader still runs.\<close>

theorem stale_reader_closes_new:
  assumes "px_reachable px" "\<not> px_crashed px" "\<not> pf_cancelled (px_fwd px)" "px_pc px = PWriting k pkt"
    and "pf_connections (px_fwd px) (ConnectionId pkt) = Some k" "reader_at k px = RBlocked"
    and "ConnectionId pkt' = ConnectionId pkt" "ConnTuple pkt' = Some t" "fresh_conn c (px_fwd px)"
  shows "\<exists>px1 px2 n. n = length (pf_states (px_fwd px)) \<and>
    px_run [PWrite False, PRemove, PRecv (ProxyMessage_Packet pkt') now (Some c), PWrite True] px = Some px1 \<and>
    pf_connections (px_fwd px1) (ConnectionId pkt) = Some n \<and> target_conn n px1 = c \<and>
    c \<notin> set (pf_closed (px_fwd px1)) \<and> px_written px1 = px_written px @ [(c, pkt')] \<and>
    px_run [FCheck n, FReadFails k] px1 = Some px2 \<and> c \<in> set (pf_closed (px_fwd px2)) \<and>
    pf_connections (px_fwd px2) (ConnectionId pkt) = None \<and> reader_at n px2 = RBlocked"
proof -
  note tab = px_reachable_table [OF assms(1)]
  let ?pf = "px_fwd px" and ?id = "ConnectionId pkt"
  let ?n = "length (pf_states ?pf)"
  have k: "k < ?n" "ts_ConnectionID (pf_states ?pf ! k) = ?id"
    using forwarder_okD [OF table_invD(1) [OF tab] assms(5)] by simp_all
  have c: "ts_TargetConn (pf_states ?pf ! k) \<noteq> c" "c \<notin> set (pf_closed ?pf)"
    using assms(9) k(1) by (auto simp: fresh_conn_def)
  have at: "k < length (px_readers px)" "px_readers px ! k = RBlocked"
    using assms(6) reader_at_not_done [of k px] by simp_all
  note run = px_exec_def write_target_def Forward_write_def removeConnection_def close_target_def
    fresh_conn_def recv_packet_def Forward_enter_def target_conn_def nth_append
  obtain px1 where px1:
    "px_run [PWrite False, PRemove, PRecv (ProxyMessage_Packet pkt') now (Some c), PWrite True] px = Some px1"
    "px_fwd px1 = \<lparr>pf_connections = (pf_connections ?pf)(?id \<mapsto> ?n), pf_states = pf_states ?pf @
       [\<lparr>ts_ConnectionID = ?id, ts_TargetAddr = target_addr t, ts_TargetConn = c, ts_CreatedAt = now, ts_LastActivity = now\<rparr>],
       pf_closed = ts_TargetConn (pf_states ?pf ! k) # pf_closed ?pf, pf_cancelled = False\<rparr>"
    "px_readers px1 = px_readers px @ [RTop]" "\<not> px_crashed px1" "px_written px1 = px_written px @ [(c, pkt')]"
    using assms(2-9) c by (cases ?pf) (auto simp: run Let_def)
  have len: "length (px_readers px) = ?n" by (rule table_invD(5) [OF tab])
  then obtain px2 where "px_run [FCheck ?n, FReadFails k] px1 = Some px2" "c \<in> set (pf_closed (px_fwd px2))"
    "pf_connections (px_fwd px2) ?id = None" "reader_at ?n px2 = RBlocked"
    using px1(2-4) k at
    by (auto simp: px_exec_def reader_at_def reader_returns_def reader_id_def set_reader_def nth_append
      removeConnection_def close_target_def Let_def)
  then show ?thesis using px1 c by (intro exI [of _ px1] exI [of _ px2] exI [of _ ?n])
    (simp add: target_conn_def nth_append)
qed

theorem stale_reader_closes_new_witness:
  "\<exists>px px2. px_run [PRecv (ProxyMessage_Packet sample_target_packet) 0 (Some 3), FCheck 0] proxy_init = Some px \<and>
    px_run [PWrite False, PRemove, PRecv (ProxyMessage_Packet sample_target_packet) 5 (Some 4), PWrite True,
      FCheck 1, FReadFails 0] px = Some px2 \<and> 4 \<in> set (pf_closed (px_fwd px2)) \<and> reader_at 1 px2 = RBlocked"
proof -
  obtain px where px: "px_run [PRecv (ProxyMessage_Packet sample_target_packet) 0 (Some 3), FCheck 0] proxy_init = Some px"
    "\<not> px_crashed px" "\<not> pf_cancelled (px_fwd px)" "px_pc px = PWriting 0 sample_target_packet"
    "pf_connections (px_fwd px) (ConnectionId sample_target_packet) = Some 0" "reader_at 0 px = RBlocked"
    "fresh_conn 4 (px_fwd px)" "length (pf_states (px_fwd px)) = 1"
    by (simp add: px_run_simps)
  obtain t where t: "ConnTuple sample_target_packet = Some t" by (simp add: sample_target_packet_def)
  obtain px1 px2 where r: "px_run [PWrite False, PRemove, PRecv (ProxyMessage_Packet sample_target_packet) 5 (Some 4),
      PWrite True] px = Some px1" "px_run [FCheck 1, FReadFails 0] px1 = Some px2" "4 \<in> set (pf_closed (px_fwd px2))"
      "reader_at 1 px2 = RBlocked"
    using stale_reader_closes_new [OF px_reachable_run [OF px_init px(1)] px(2-6) refl t px(7), of 5] px(8) by auto
  then have "px_run ([PWrite False, PRemove, PRecv (ProxyMessage_Packet sample_target_packet) 5 (Some 4),
      PWrite True] @ [FCheck 1, FReadFails 0]) px = Some px2" unfolding px_run_append by simp
  with px(1) r(3,4) show ?thesis by auto
qed



text \<open>Registration of the proxy. It succeeds exactly when the message, with the configured
  identifier and network, is sent and the answer is a positive acknowledgement; a rejection
  carries the server's reason.\<close>

theorem proxy_registration:
  "snd (proxy_register_with proxyID cidr send_ok reply) = None \<longleftrightarrow>
     send_ok \<and> (\<exists>ack. reply = Some (ProxyMessage_Ack ack) \<and> Success ack)"
  by (auto simp: proxy_register_with_def Let_def split: option.split proxy_message.split)

section \<open>Stopping\<close>

text \<open>After \<open>Stop\<close> has cancelled the context, the read loop and the write loop have returned, and
  every step of a reader brings it nearer to its return.\<close>

definition halting :: "proxy \<Rightarrow> bool" where
  "halting px \<longleftrightarrow> \<not> px_crashed px \<and> pf_cancelled (px_fwd px) \<and> px_pc px = PStopped \<and> \<not> px_writer px"

fun event_reader :: "proxy_event \<Rightarrow> nat option" where
  "event_reader (FCheck k) = Some k"
| "event_reader (FRead k data) = Some k"
| "event_reader (FReadFails k) = Some k"
| "event_reader (FTouch k now stamp) = Some k"
| "event_reader (FSend k) = Some k"
| "event_reader (FSendCancelled k) = Some k"
| "event_reader _ = None"

definition reader_event :: "proxy_event \<Rightarrow> bool" where
  [simp]: "reader_event e \<longleftrightarrow> event_reader e \<noteq> None"

fun reader_distance :: "target_reader \<Rightarrow> nat" where
  "reader_distance RDone = 0"
| "reader_distance RTop = 1"
| "reader_distance (RSending p) = 2"
| "reader_distance (RGot d) = 3"
| "reader_distance RBlocked = 4"

definition readers_distance :: "proxy \<Rightarrow> nat" where
  "readers_distance px = sum_list (map reader_distance (px_readers px))"

lemma reader_distance_le: "reader_distance r \<le> 4"
  by (cases r) simp_all

lemma reader_distance_0: "reader_distance r = 0 \<longleftrightarrow> r = RDone"
  by (cases r) simp_all

lemma readers_distance_le: "readers_distance px \<le> 4 * length (px_readers px)"
  using sum_list_mono [of "px_readers px" reader_distance "\<lambda>r. 4"] reader_distance_le
  by (simp add: readers_distance_def sum_list_triv)

lemma sum_list_update_less:
  "k < length xs \<Longrightarrow> (f y :: nat) < f (xs ! k) \<Longrightarrow> sum_list (map f (xs[k := y])) < sum_list (map f xs)"
  by (induction xs arbitrary: k) (auto split: nat.split)

text \<open>What a step of a reader does in a stopping proxy.\<close>

lemma set_reader_nearer:
  assumes "px_readers px' = (px_readers px)[k := r]" "reader_distance r < reader_distance (reader_at k px)"
    and "reader_at k px \<noteq> RDone"
  shows "readers_distance px' < readers_distance px"
  using reader_at_not_done [OF assms(3)] assms(1,2) sum_list_update_less [of k "px_readers px" reader_distance r]
  by (simp add: readers_distance_def)

lemma reader_step_halting:
  assumes h: "halting px" and e: "reader_step px e = Some px'"
  shows "halting px' \<and> readers_distance px' < readers_distance px \<and> reader_event e"
proof -
  have "halting px'"
    using e h by (cases e) (auto simp: halting_def set_reader_def reader_returns_def Let_def
      split: target_reader.splits if_splits)
  moreover have "readers_distance px' < readers_distance px"
    using e h by (cases e) (auto simp: halting_def set_reader_def reader_returns_def Let_def
      split: target_reader.splits if_splits intro: set_reader_nearer [OF proxy.select_convs(2)]
        set_reader_nearer [where k = k and px' = "px''\<lparr>px_readers := (px_readers px)[k := r]\<rparr>" for k r px''])
  moreover have "reader_event e" using e by (cases e) simp_all
  ultimately show ?thesis by blast
qed

lemma server_step_halting:
  assumes "halting px" "server_step px e = Some px'"
  shows "halting px' \<and> px_readers px' = px_readers px \<and> \<not> reader_event e"
  using assms by (cases e) (auto simp: halting_def split: if_splits list.splits)

lemma halting_run:
  "halting px \<Longrightarrow> px_run es px = Some px' \<Longrightarrow>
   halting px' \<and> length (filter reader_event es) + readers_distance px' \<le> readers_distance px"
proof (induction es arbitrary: px)
  case (Cons e es)
  then obtain px1 where px1: "px_exec px e = Some px1" "px_run es px1 = Some px'" by (auto split: option.splits)
  have "halting px1 \<and> (if reader_event e then 1 else 0) + readers_distance px1 \<le> readers_distance px"
    using px1(1)
  proof (cases rule: px_exec_cases)
    case server
    then show ?thesis using server_step_halting [OF Cons.prems(1)] by (simp add: readers_distance_def)
  next
    case reader
    then show ?thesis using reader_step_halting [OF Cons.prems(1)] by fastforce
  qed
  then show ?case using Cons.IH [OF _ px1(2)] by auto
qed simp

text \<open>Reader by reader: the steps it has taken and those it is still away from its return.\<close>

lemma reader_step_distance:
  assumes h: "halting px" and e: "reader_step px e = Some px'"
  shows "(if event_reader e = Some k then 1 else 0) + reader_distance (reader_at k px') \<le> reader_distance (reader_at k px)"
proof -
  have "j < length (px_readers px)" if "reader_at j px \<noteq> RDone" for j using reader_at_not_done [OF that] by blast
  then show ?thesis
    using e h by (cases e) (auto simp: halting_def reader_at_set reader_at_returns Let_def
      split: target_reader.splits if_splits)
qed

lemma halting_reader_run:
  "halting px \<Longrightarrow> px_run es px = Some px' \<Longrightarrow>
   length (filter (\<lambda>e. event_reader e = Some k) es) + reader_distance (reader_at k px') \<le> reader_distance (reader_at k px)"
proof (induction es arbitrary: px)
  case (Cons e es)
  then obtain px1 where px1: "px_exec px e = Some px1" "px_run es px1 = Some px'" by (auto split: option.splits)
  have "halting px1 \<and>
      (if event_reader e = Some k then 1 else 0) + reader_distance (reader_at k px1) \<le> reader_distance (reader_at k px)"
    using px1(1)
  proof (cases rule: px_exec_cases)
    case server
    then show ?thesis using server_step_halting [OF Cons.prems(1)] by (simp add: reader_at_def)
  next
    case reader
    then show ?thesis using reader_step_halting [OF Cons.prems(1)] reader_step_distance [OF Cons.prems(1)] by blast
  qed
  then show ?case using Cons.IH [OF _ px1(2)] by (auto split: if_splits)
qed simp

lemma reader_progress:
  assumes h: "halting px" and k: "reader_at k px \<noteq> RDone"
  obtains e px' where "event_reader e = Some k" "px_exec px e = Some px'"
proof (cases "reader_at k px")
  case RTop
  then show thesis using that [of "FCheck k"] h by (simp add: px_exec_def halting_def)
next
  case RBlocked
  then show thesis using that [of "FReadFails k"] h by (simp add: px_exec_def halting_def)
next
  case (RGot d)
  then show thesis using that [of "FTouch k 0 0"] h by (simp add: px_exec_def halting_def Let_def)
next
  case (RSending p)
  then show thesis using that [of "FSendCancelled k"] h by (simp add: px_exec_def halting_def)
qed (use k in simp)

lemma halting_progress:
  assumes "halting px" "\<not> forwarder_stopped px"
  obtains e px' where "reader_event e" "px_exec px e = Some px'"
proof -
  obtain k where "k < length (px_readers px)" "px_readers px ! k \<noteq> RDone"
    using assms by (auto simp: forwarder_stopped_def halting_def in_set_conv_nth)
  then have "reader_at k px \<noteq> RDone" by (simp add: reader_at_def)
  then show thesis using reader_progress [OF assms(1)] that by (metis option.distinct(1) reader_event_def)
qed

lemma halting_completes: "halting px \<Longrightarrow> \<exists>es px'. px_run es px = Some px' \<and> forwarder_stopped px'"
proof (induction "readers_distance px" arbitrary: px rule: less_induct)
  case less
  show ?case
  proof (cases "forwarder_stopped px")
    case True
    then show ?thesis by (intro exI [of _ "[]"] exI [of _ px]) simp
  next
    case False
    obtain e px1 where e: "reader_event e" "px_exec px e = Some px1"
      using halting_progress [OF less.prems False] by blast
    then have "halting px1" "readers_distance px1 < readers_distance px"
      using halting_run [OF less.prems, of "[e]" px1] by simp_all
    then obtain es px2 where "px_run es px1 = Some px2" "forwarder_stopped px2" using less.hyps by blast
    with e show ?thesis by (intro exI [of _ "e # es"] exI [of _ px2]) simp
  qed
qed

text \<open>C12: Stopping the proxy ends. Once \<open>Stop\<close> has cancelled the context, whatever happens next, each
  reader takes at most four more steps, and none once it has returned; a reader that has not
  returned has a step to take even when nobody drains the full channel any more; and the forwarder
  can stop from every state. (That step may be the end of a \<open>Read\<close>, for which the network is needed.)\<close>

theorem stop_completes:
  assumes "px_exec px0 PStop = Some px" "px_run es px = Some px1"
  shows "(\<forall>k. length (filter (\<lambda>e. event_reader e = Some k) es) \<le> (if reader_at k px = RDone then 0 else 4)) \<and>
    (\<forall>k. reader_at k px1 \<noteq> RDone \<longrightarrow> (\<exists>e px2. event_reader e = Some k \<and> px_exec px1 e = Some px2)) \<and>
    (\<exists>es' px2. px_run es' px1 = Some px2 \<and> forwarder_stopped px2)"
proof -
  have h: "halting px" using assms(1) by (auto simp: px_exec_def halting_def split: if_splits option.splits)
  note h1 = conjunct1 [OF halting_run [OF h assms(2)]]
  have "length (filter (\<lambda>e. event_reader e = Some k) es) \<le> (if reader_at k px = RDone then 0 else 4)" for k
    using halting_reader_run [OF h assms(2), of k] reader_distance_le [of "reader_at k px"] by auto
  moreover have "\<exists>e px2. event_reader e = Some k \<and> px_exec px1 e = Some px2" if "reader_at k px1 \<noteq> RDone" for k
    using reader_progress [OF h1 that] by blast
  moreover have "\<exists>es' px2. px_run es' px1 = Some px2 \<and> forwarder_stopped px2" by (rule halting_completes [OF h1])
  ultimately show ?thesis by blast
qed

theorem stop_completes_witness:
  "\<exists>px. px_run [PRecv (ProxyMessage_Packet sample_target_packet) 0 (Some 3), PWrite True, FCheck 0, PRecvFails,
      PWriterStops, PStop] proxy_init = Some px \<and> px_readers px = [RBlocked] \<and>
    (\<exists>es px2. px_run es px = Some px2 \<and> forwarder_stopped px2)"
proof -
  obtain px0 px where px: "px_run [PRecv (ProxyMessage_Packet sample_target_packet) 0 (Some 3), PWrite True, FCheck 0,
      PRecvFails, PWriterStops] proxy_init = Some px0" "px_exec px0 PStop = Some px" "px_readers px = [RBlocked]"
    by (simp add: px_run_simps)
  have "\<exists>es px2. px_run es px = Some px2 \<and> forwarder_stopped px2"
    using stop_completes [OF px(2), of "[]" px] by simp
  moreover have "px_run ([PRecv (ProxyMessage_Packet sample_target_packet) 0 (Some 3), PWrite True, FCheck 0, PRecvFails,
      PWriterStops] @ [PStop]) proxy_init = Some px"
    unfolding px_run_append px(1) by (simp add: px(2))
  ultimately show ?thesis using px(3) by auto
qed

end
