(* ===== verification/Lifecycle.thy ===== *)
theory Lifecycle
  imports Registry Netfilter Config Client Proxy
begin

text \<open>
  How the programs start and stop: \<open>Connect\<close> and \<open>Close\<close> of the server connections, \<open>start\<close> and \<open>stop\<close> of
  \<open>internal/client/client.go\<close> and \<open>internal/proxy/proxy.go\<close>, and \<open>internal/server/grpc_server.go\<close> with
  \<open>server.go\<close>. What gRPC and the network answer are arguments.
\<close>

section \<open>The link to the server\<close>

record link =
  lk_conn :: bool
  lk_stream :: bool
  lk_loops :: bool
  lk_stopped :: bool

definition new_link :: link where
  "new_link = \<lparr>lk_conn = False, lk_stream = False, lk_loops = False, lk_stopped = False\<rparr>"

datatype 'e connect_error =
    NewClientFailed
  | StreamFailed
  | RegisterFailed 'e

text \<open>\<open>Close\<close> closes the stop channel and the sending side, waits for the loops, and closes the connection.\<close>

definition Close_link :: "link \<Rightarrow> link" where
  "Close_link lk = lk\<lparr>lk_stopped := True, lk_stream := False, lk_loops := False, lk_conn := False\<rparr>"

text \<open>The proxy's is the same.\<close>

definition proxy_Close_link :: "link \<Rightarrow> link" where
  [simp]: "proxy_Close_link lk = lk\<lparr>lk_stopped := True, lk_stream := False, lk_loops := False, lk_conn := False\<rparr>"

definition client_Connect ::
  "bool \<Rightarrow> bool \<Rightarrow> register_error option \<Rightarrow> link \<Rightarrow> link \<times> register_error connect_error option" where
  "client_Connect newClient_ok newStream_ok registered lk =
     (if \<not> newClient_ok then (lk, Some NewClientFailed)
      else
        let lk = lk\<lparr>lk_conn := True\<rparr> in
        if \<not> newStream_ok then (lk\<lparr>lk_conn := False\<rparr>, Some StreamFailed)
        else
          let lk = lk\<lparr>lk_stream := True\<rparr> in
          case registered of
            Some e \<Rightarrow> (Close_link lk, Some (RegisterFailed e))
          | None \<Rightarrow> (lk\<lparr>lk_loops := True\<rparr>, None))"

text \<open>The proxy closes the connection only, which ends the stream.\<close>

definition proxy_Connect ::
  "bool \<Rightarrow> bool \<Rightarrow> proxy_register_error option \<Rightarrow> link \<Rightarrow> link \<times> proxy_register_error connect_error option" where
  "proxy_Connect newClient_ok newStream_ok registered lk =
     (if \<not> newClient_ok then (lk, Some NewClientFailed)
      else
        let lk = lk\<lparr>lk_conn := True\<rparr> in
        if \<not> newStream_ok then (lk\<lparr>lk_conn := False\<rparr>, Some StreamFailed)
        else
          let lk = lk\<lparr>lk_stream := True\<rparr> in
          case registered of
            Some e \<Rightarrow> (lk\<lparr>lk_conn := False, lk_stream := False\<rparr>, Some (RegisterFailed e))
          | None \<Rightarrow> (lk\<lparr>lk_loops := True\<rparr>, None))"

section \<open>The client\<close>

record 's client_app =
  ca_link :: link
  ca_nf :: nf_manager
  ca_host :: 's
  ca_listener :: bool
  ca_loops :: bool
  ca_cancelled :: bool

definition new_client_app :: "client_config \<Rightarrow> 's \<Rightarrow> 's client_app" where
  "new_client_app cfg s = \<lparr>ca_link = new_link, ca_nf = NewNetfilterManager (cc_TargetCIDR cfg) (cc_ListenPort cfg),
     ca_host = s, ca_listener = False, ca_loops = False, ca_cancelled = False\<rparr>"

datatype client_start_error =
    ConnectFailed "register_error connect_error"
  | SetupFailed manager_error
  | ListenFailed string

definition client_start ::
  "'s iptables \<Rightarrow> bool \<Rightarrow> bool \<Rightarrow> register_error option \<Rightarrow> (string \<Rightarrow> bool) \<Rightarrow> client_config \<Rightarrow> 's client_app \<Rightarrow>
   's client_app \<times> (client_start_error, unit) outcome" where
  "client_start ipt newClient_ok newStream_ok registered listen_ok cfg a =
     (case client_Connect newClient_ok newStream_ok registered (ca_link a) of
        (lk, Some e) \<Rightarrow> (a\<lparr>ca_link := lk\<rparr>, Err (ConnectFailed e))
      | (lk, None) \<Rightarrow>
          let a = a\<lparr>ca_link := lk\<rparr> in
          (case Setup ipt (ca_nf a) (ca_host a) of
             (nf, s, Panic) \<Rightarrow> (a\<lparr>ca_nf := nf, ca_host := s\<rparr>, Panic)
           | (nf, s, Err e) \<Rightarrow> (a\<lparr>ca_nf := nf, ca_host := s\<rparr>, Err (SetupFailed e))
           | (nf, s, Ok _) \<Rightarrow>
               let a = a\<lparr>ca_nf := nf, ca_host := s\<rparr>;
                   listenAddr = CHR '':'' # fmt_d (cc_ListenPort cfg)
               in if listen_ok listenAddr then (a\<lparr>ca_listener := True, ca_loops := True\<rparr>, Ok ())
                  else let (nf, s, e) = Nf_Cleanup ipt (ca_nf a) (ca_host a)
                       in (a\<lparr>ca_nf := nf, ca_host := s\<rparr>, Err (ListenFailed listenAddr))))"

text \<open>\<open>stop\<close> always succeeds; an error of the cleanup is only logged.\<close>

definition client_stop :: "'s iptables \<Rightarrow> 's client_app \<Rightarrow> 's client_app" where
  "client_stop ipt a =
     (let a = a\<lparr>ca_cancelled := True, ca_listener := False, ca_link := Close_link (ca_link a), ca_loops := False\<rparr>;
          (nf, s, e) = Nf_Cleanup ipt (ca_nf a) (ca_host a)
      in a\<lparr>ca_nf := nf, ca_host := s\<rparr>)"

text \<open>The accept loop. An iteration is decided by whether the context is done, by what \<open>Accept\<close> returns and, when
  that is an error, by whether the context is done by then. The text of an error is known when it is a
  \<open>net.OpError\<close>. The loop starts a handler for each connection.\<close>

datatype accept_result =
    Accepted net_conn
  | AcceptError "string option"

type_synonym accept_input = "bool \<times> accept_result \<times> bool"

fun acceptLoop :: "accept_input list \<Rightarrow> net_conn list \<times> bool" where
  "acceptLoop [] = ([], False)"
| "acceptLoop ((cancelled, result, cancelled_then) # rest) =
     (if cancelled then ([], True)
      else case result of
        Accepted conn \<Rightarrow> (let (handled, returned) = acceptLoop rest in (conn # handled, returned))
      | AcceptError opErr \<Rightarrow>
          if cancelled_then then ([], True)
          else if opErr = Some ''use of closed network connection'' then ([], True)
          else acceptLoop rest)"

section \<open>The proxy\<close>

record proxy_app =
  xa_link :: link
  xa_heartbeat :: bool
  xa_forwarding :: bool

definition proxy_start ::
  "bool \<Rightarrow> bool \<Rightarrow> proxy_register_error option \<Rightarrow> proxy_app \<Rightarrow> proxy_app \<times> proxy_register_error connect_error option" where
  "proxy_start newClient_ok newStream_ok registered a =
     (case proxy_Connect newClient_ok newStream_ok registered (xa_link a) of
        (lk, Some e) \<Rightarrow> (a\<lparr>xa_link := lk\<rparr>, Some e)
      | (lk, None) \<Rightarrow> (a\<lparr>xa_link := lk, xa_heartbeat := True\<rparr>, None))"

text \<open>Closing the link closes the channel that ends the heartbeat loop.\<close>

definition proxy_stop :: "proxy_app \<Rightarrow> proxy_app" where
  "proxy_stop a = a\<lparr>xa_link := proxy_Close_link (xa_link a), xa_heartbeat := False, xa_forwarding := False\<rparr>"

section \<open>The server\<close>

text \<open>The addresses that are listened on, and whether the two servers serve.\<close>

record grpc_state =
  gs_listening :: "string list"
  gs_clientServing :: bool
  gs_proxyServing :: bool

definition new_grpc_state :: grpc_state where
  "new_grpc_state = \<lparr>gs_listening = [], gs_clientServing = False, gs_proxyServing = False\<rparr>"

datatype listen_error =
    ClientListenFailed string
  | ProxyListenFailed string

definition grpc_Start :: "(string \<Rightarrow> bool) \<Rightarrow> server_config \<Rightarrow> grpc_state \<Rightarrow> grpc_state \<times> listen_error option" where
  "grpc_Start listen_ok cfg g =
     (if \<not> listen_ok (sc_ClientListenAddr cfg) then (g, Some (ClientListenFailed (sc_ClientListenAddr cfg)))
      else
        let g = g\<lparr>gs_listening := sc_ClientListenAddr cfg # gs_listening g\<rparr> in
        if \<not> listen_ok (sc_ProxyListenAddr cfg)
        then (g\<lparr>gs_listening := remove1 (sc_ClientListenAddr cfg) (gs_listening g)\<rparr>,
              Some (ProxyListenFailed (sc_ProxyListenAddr cfg)))
        else (g\<lparr>gs_listening := sc_ProxyListenAddr cfg # gs_listening g, gs_clientServing := True,
                gs_proxyServing := True\<rparr>, None))"

text \<open>Stopping a gRPC server closes its listener, gracefully or when the context ends.\<close>

definition grpc_Stop :: "server_config \<Rightarrow> grpc_state \<Rightarrow> grpc_state" where
  "grpc_Stop cfg g =
     (let g = (if gs_clientServing g
               then g\<lparr>gs_listening := remove1 (sc_ClientListenAddr cfg) (gs_listening g), gs_clientServing := False\<rparr> else g)
      in if gs_proxyServing g
         then g\<lparr>gs_listening := remove1 (sc_ProxyListenAddr cfg) (gs_listening g), gs_proxyServing := False\<rparr> else g)"

record server_app =
  ss_grpc :: grpc_state
  ss_registry :: registry

definition new_server_app :: server_app where
  "new_server_app = \<lparr>ss_grpc = new_grpc_state, ss_registry = NewRegistry\<rparr>"

definition server_start :: "(string \<Rightarrow> bool) \<Rightarrow> server_config \<Rightarrow> server_app \<Rightarrow> server_app \<times> listen_error option" where
  "server_start listen_ok cfg a =
     (case grpc_Start listen_ok cfg (ss_grpc a) of
        (g, Some err) \<Rightarrow> (a\<lparr>ss_grpc := g\<rparr>, Some err)
      | (g, None) \<Rightarrow> (a\<lparr>ss_grpc := g\<rparr>, None))"

text \<open>\<open>stop\<close> stops the gRPC servers first and then empties the registry, and always succeeds.\<close>

definition server_stop :: "server_config \<Rightarrow> server_app \<Rightarrow> server_app" where
  "server_stop cfg a =
     (let a = a\<lparr>ss_grpc := grpc_Stop cfg (ss_grpc a)\<rparr>
      in a\<lparr>ss_registry := Registry_Cleanup (ss_registry a)\<rparr>)"

section \<open>Lemmas\<close>

lemma client_Connect_failed:
  "client_Connect n st reg new_link = (lk, Some e) \<Longrightarrow> \<not> lk_conn lk \<and> \<not> lk_stream lk \<and> \<not> lk_loops lk"
  by (auto simp: client_Connect_def new_link_def Close_link_def Let_def split: if_splits option.splits)

lemma client_Connect_ok:
  "client_Connect n st reg lk = (lk', None) \<longleftrightarrow> n \<and> st \<and> reg = None \<and>
     lk' = lk\<lparr>lk_conn := True, lk_stream := True, lk_loops := True\<rparr>"
  by (auto simp: client_Connect_def Let_def split: if_splits option.splits)

lemma proxy_Connect_failed:
  "proxy_Connect n st reg new_link = (lk, Some e) \<Longrightarrow> \<not> lk_conn lk \<and> \<not> lk_stream lk \<and> \<not> lk_loops lk"
  by (auto simp: proxy_Connect_def new_link_def Let_def split: if_splits option.splits)

section \<open>Properties\<close>

text \<open>Applying or removing nothing but an own rule.\<close>

lemma Setup_cases:
  assumes beh: "iptables_behaves ipt view accepts" and acc: "accepted accepts (redirect_rule nf)"
    and nf: "nf_rules nf = []" "\<not> nf_active nf" and abs: "\<not> installed view s (redirect_rule nf)"
  obtains (panic) "Setup ipt nf s = (nf, s, Panic)"
    | (ok) s' where "Setup ipt nf s = (nf\<lparr>nf_rules := [redirect_rule nf], nf_active := True\<rparr>, s', Ok ())"
        "view s' = push_rule (redirect_rule nf) (view s)"
proof (cases "Validate_rule (redirect_rule nf)")
  case None
  then show thesis using Setup_valid [OF beh acc None nf, of s] abs ok by auto
next
  case (Some e)
  then have "Setup ipt nf s = (nf, s, Panic)" using nf by (simp add: Setup_def MustBuild_def Build_def)
  then show thesis by (rule panic)
qed

lemma client_start_stop:
  assumes "iptables_behaves ipt view accepts"
    and "accepted accepts (redirect_rule (NewNetfilterManager (cc_TargetCIDR cfg) (cc_ListenPort cfg)))"
    and "\<not> installed view s (redirect_rule (NewNetfilterManager (cc_TargetCIDR cfg) (cc_ListenPort cfg)))"
    and "client_start ipt n st reg listen_ok cfg (new_client_app cfg s) = (a, res)"
  shows "(res \<noteq> Ok () \<longrightarrow> view (ca_host a) = view s \<and> \<not> ca_listener a) \<and>
    (res = Ok () \<longrightarrow> installed view (ca_host a) (redirect_rule (ca_nf a)) \<and> lk_loops (ca_link a) \<and> ca_listener a) \<and>
    view (ca_host (client_stop ipt a)) = view s \<and> \<not> ca_listener (client_stop ipt a) \<and>
    \<not> lk_conn (ca_link (client_stop ipt a))"
proof -
  let ?nf = "NewNetfilterManager (cc_TargetCIDR cfg) (cc_ListenPort cfg)"
  let ?nf1 = "?nf\<lparr>nf_rules := [redirect_rule ?nf], nf_active := True\<rparr>"
  have nf: "nf_rules ?nf = []" "\<not> nf_active ?nf" by (simp_all add: NewNetfilterManager_def)
  have idle: "Nf_Cleanup ipt ?nf s' = (?nf, s', None)" for s' using nf(2) by (simp add: Nf_Cleanup_def)
  have undo: "\<exists>s2. Nf_Cleanup ipt ?nf1 s1 = (?nf1\<lparr>nf_active := False\<rparr>, s2, None) \<and> view s2 = view s"
    if "view s1 = push_rule (redirect_rule ?nf) (view s)" for s1
    using Cleanup_one [OF assms(1,2), of ?nf1 s1] that by auto
  have rr: "redirect_rule ?nf1 = redirect_rule ?nf" by (simp add: redirect_rule_eq)
  show ?thesis
  proof (cases "client_Connect n st reg new_link")
    case (Pair lk e)
    show ?thesis
    proof (cases e)
      case (Some err)
      then have "a = (new_client_app cfg s)\<lparr>ca_link := lk\<rparr>" "res = Err (ConnectFailed err)"
        using assms(4) Pair by (auto simp: client_start_def new_client_app_def)
      then show ?thesis by (simp add: client_stop_def new_client_app_def idle Close_link_def)
    next
      case None
      then have lk: "lk_loops lk" using Pair by (auto simp: client_Connect_ok)
      from assms(1,2) nf assms(3) show ?thesis
      proof (cases rule: Setup_cases [of ipt view accepts ?nf s])
        case panic
        then have "a = (new_client_app cfg s)\<lparr>ca_link := lk\<rparr>" "res = Panic"
          using assms(4) Pair None by (auto simp: client_start_def new_client_app_def Let_def)
        then show ?thesis by (simp add: client_stop_def new_client_app_def idle Close_link_def)
      next
        case (ok s1)
        obtain s2 where s2: "Nf_Cleanup ipt ?nf1 s1 = (?nf1\<lparr>nf_active := False\<rparr>, s2, None)" "view s2 = view s"
          using undo [OF ok(2)] by blast
        have inst: "installed view s1 (redirect_rule ?nf)" by (rule installed_push_same [OF ok(2)])
        show ?thesis
        proof (cases "listen_ok (CHR '':'' # fmt_d (cc_ListenPort cfg))")
          case True
          then have "a = (new_client_app cfg s)\<lparr>ca_link := lk, ca_nf := ?nf1, ca_host := s1, ca_listener := True, ca_loops := True\<rparr>"
            "res = Ok ()"
            using assms(4) Pair None ok(1) by (auto simp: client_start_def new_client_app_def Let_def)
          then show ?thesis using s2 inst lk rr by (simp add: client_stop_def Close_link_def)
        next
          case False
          then have "a = (new_client_app cfg s)\<lparr>ca_link := lk, ca_nf := ?nf1\<lparr>nf_active := False\<rparr>, ca_host := s2\<rparr>"
            "res = Err (ListenFailed (CHR '':'' # fmt_d (cc_ListenPort cfg)))"
            using assms(4) Pair None ok(1) s2(1) by (auto simp: client_start_def new_client_app_def Let_def)
          then show ?thesis
            using s2(2) by (simp add: client_stop_def Nf_Cleanup_def new_client_app_def Close_link_def)
        qed
      qed
    qed
  qed
qed

text \<open>The stop depends on the rules and the host only.\<close>

lemma client_stop_same:
  "ca_nf a = ca_nf a' \<Longrightarrow> ca_host a = ca_host a' \<Longrightarrow> ca_host (client_stop ipt a) = ca_host (client_stop ipt a')"
  by (simp add: client_stop_def Let_def split: prod.split)

text \<open>The client leaves no rule behind. On a host where iptables works as documented and the
  redirection is not installed, a start that fails, for whatever reason, and a start followed by
  a stop, leave every chain of the host as it was. A start that succeeds has the rule in place
  and an open stream; a stop closes the listener and the link.\<close>

theorem client_leaves_no_rule:
  assumes "iptables_behaves ipt view accepts"
    and "accepted accepts (redirect_rule (NewNetfilterManager (cc_TargetCIDR cfg) (cc_ListenPort cfg)))"
    and "\<not> installed view s (redirect_rule (NewNetfilterManager (cc_TargetCIDR cfg) (cc_ListenPort cfg)))"
    and "client_start ipt n st reg listen_ok cfg (new_client_app cfg s) = (a, res)"
  shows "(res \<noteq> Ok () \<longrightarrow> view (ca_host a) = view s \<and> \<not> ca_listener a) \<and>
    (res = Ok () \<longrightarrow> installed view (ca_host a) (redirect_rule (ca_nf a)) \<and> lk_loops (ca_link a) \<and> ca_listener a) \<and>
    view (ca_host (client_stop ipt a)) = view s \<and> \<not> ca_listener (client_stop ipt a) \<and>
    \<not> lk_conn (ca_link (client_stop ipt a))"
  by (rule client_start_stop [OF assms])

theorem client_leaves_no_rule_witness:
  "ca_host (client_stop host_ipt (fst (client_start host_ipt True True None (\<lambda>a. True) (client_DefaultConfig release_build)
     (new_client_app (client_DefaultConfig release_build) (\<lambda>t c. []))))) = (\<lambda>t c. [])"
  using client_leaves_no_rule [OF host_ipt_behaves, of "client_DefaultConfig release_build" "\<lambda>t c. []" True True None "\<lambda>a. True"]
  by (cases "client_start host_ipt True True None (\<lambda>a. True) (client_DefaultConfig release_build)
     (new_client_app (client_DefaultConfig release_build) (\<lambda>t c. []))") (simp add: accepted_def installed_def)

text \<open>The connections accepted, in their order.\<close>

fun accepted_conns :: "accept_input list \<Rightarrow> net_conn list" where
  "accepted_conns [] = []"
| "accepted_conns ((_, Accepted conn, _) # rest) = conn # accepted_conns rest"
| "accepted_conns (_ # rest) = accepted_conns rest"

text \<open>What ends the loop: the context, or the closed listener.\<close>

fun ends_loop :: "accept_input \<Rightarrow> bool" where
  "ends_loop (cancelled, result, cancelled_then) \<longleftrightarrow> cancelled \<or>
     (case result of Accepted conn \<Rightarrow> False
      | AcceptError opErr \<Rightarrow> cancelled_then \<or> opErr = Some ''use of closed network connection'')"

text \<open>The accept loop handles exactly the connections accepted before the context is done or the listener is
  closed, in their order, whatever other errors \<open>Accept\<close> returns in between; it returns at that point
  and never before.\<close>

theorem accept_loop_handles_all:
  "acceptLoop inputs = (accepted_conns (takeWhile (Not \<circ> ends_loop) inputs), list_ex ends_loop inputs)"
proof (induction inputs)
  case (Cons i rest)
  then show ?case by (cases i; cases "fst (snd i)") simp_all
qed simp

text \<open>The server listens on both addresses or on none. Starting a stopped server succeeds exactly
  when both addresses of the configuration can be listened on; when one cannot, the other is
  released. Whatever clients and proxies have done to the registry since, stopping the server
  releases both addresses and forgets every client, proxy and connection.\<close>

theorem server_listens_on_both_or_none:
  "(snd (server_start listen_ok cfg new_server_app) = None \<longleftrightarrow>
     listen_ok (sc_ClientListenAddr cfg) \<and> listen_ok (sc_ProxyListenAddr cfg)) \<and>
   gs_listening (ss_grpc (fst (server_start listen_ok cfg new_server_app))) =
     (if snd (server_start listen_ok cfg new_server_app) = None
      then [sc_ProxyListenAddr cfg, sc_ClientListenAddr cfg] else []) \<and>
   gs_listening (ss_grpc (server_stop cfg ((fst (server_start listen_ok cfg new_server_app))\<lparr>ss_registry := r\<rparr>))) = [] \<and>
   clients (ss_registry (server_stop cfg ((fst (server_start listen_ok cfg new_server_app))\<lparr>ss_registry := r\<rparr>))) = Map.empty \<and>
   proxys (ss_registry (server_stop cfg ((fst (server_start listen_ok cfg new_server_app))\<lparr>ss_registry := r\<rparr>))) = Map.empty \<and>
   connections (ss_registry (server_stop cfg ((fst (server_start listen_ok cfg new_server_app))\<lparr>ss_registry := r\<rparr>))) = Map.empty"
  by (simp_all add: server_start_def server_stop_def new_server_app_def grpc_Start_def grpc_Stop_def new_grpc_state_def
    Registry_Cleanup_def Let_def)

end
