(* ===== verification/Commands.thy ===== *)
theory Commands
  imports Lifecycle
begin

text \<open>
  The three commands, \<open>cmd/client\<close>, \<open>cmd/proxy\<close> and \<open>cmd/server\<close>: the version command, and \<open>run\<close>, which builds
  the application, starts it, waits for a signal and stops it. The container (\<open>go.uber.org/fx\<close>) is a
  parameter; what it does with the providers and the hooks of a module is a hypothesis.
\<close>

section \<open>The version command\<close>

text \<open>A string as \<open>encoding/json\<close> writes it, escaping HTML. Bytes from 128 stand for valid UTF-8, which is copied.\<close>

definition u00 :: "char \<Rightarrow> string" where
  "u00 c = [CHR 0x5C, CHR ''u'', CHR ''0'', CHR ''0'', hex_char (of_char c div 16), hex_char (of_char c mod 16)]"

definition json_char :: "char \<Rightarrow> string" where
  "json_char c =
     (if c = CHR 0x22 then [CHR 0x5C, CHR 0x22]
      else if c = CHR 0x5C then [CHR 0x5C, CHR 0x5C]
      else if c = CHR 0x08 then [CHR 0x5C, CHR ''b'']
      else if c = CHR 0x0C then [CHR 0x5C, CHR ''f'']
      else if c = CHR 0x0A then [CHR 0x5C, CHR ''n'']
      else if c = CHR 0x0D then [CHR 0x5C, CHR ''r'']
      else if c = CHR 0x09 then [CHR 0x5C, CHR ''t'']
      else if (of_char c :: nat) < 32 \<or> c \<in> {CHR ''<'', CHR ''>'', CHR ''&''} then u00 c
      else [c])"

definition json_string :: "string \<Rightarrow> string" where
  "json_string s = CHR 0x22 # concat (map json_char s) @ [CHR 0x22]"

definition json_field :: "string \<times> string \<Rightarrow> string" where
  "json_field = (\<lambda>(name, val). ''  '' @ json_string name @ '': '' @ val)"

text \<open>\<open>MarshalIndent\<close> of the build information with two spaces.\<close>

definition version_json :: "version_info \<Rightarrow> string" where
  "version_json i =
     ''{'' @ [CHR 0x0A] @ join ('','' @ [CHR 0x0A]) (map json_field
       [(''name'', json_string (info_Name i)), (''version'', json_string (info_Version i)),
        (''commit'', json_string (info_Commit i)), (''build_time'', json_string (info_BuildTime i)),
        (''debug'', if info_Debug i then ''true'' else ''false''), (''go_version'', json_string (info_GoVersion i)),
        (''os'', json_string (info_OS i)), (''arch'', json_string (info_Arch i))])
     @ [CHR 0x0A] @ ''}''"

definition version_command :: "build \<Rightarrow> bool \<Rightarrow> string" where
  "version_command b jsonFlag = (if jsonFlag then version_json (version_Get b) else version_String b) @ [CHR 0x0A]"

section \<open>Running an application\<close>

datatype exit_status = Exit nat | Crashed

datatype 'e log_output = LogErr string 'e | LogInfo string | Stderr string 'e

text \<open>An application of the container, over the state of the process. \<open>populated\<close> says whether the container has
  set the logger of \<open>run\<close>.\<close>

record ('a, 'e) fx_app =
  app_Start :: "'a \<Rightarrow> 'a \<times> ('e, unit) outcome"
  app_Stop :: "'a \<Rightarrow> 'a \<times> 'e option"
  app_populated :: "'a \<Rightarrow> bool"

text \<open>\<open>run\<close>. \<open>serve\<close> is what happens to the process until it receives a signal.\<close>

definition command_run ::
  "string \<Rightarrow> ('a, 'e) fx_app \<Rightarrow> ('a \<Rightarrow> 'a) \<Rightarrow> 'a \<Rightarrow> 'a \<times> exit_status \<times> 'e log_output list" where
  "command_run name app serve a =
     (case app_Start app a of
        (a, Panic) \<Rightarrow> (a, Crashed, [])
      | (a, Err err) \<Rightarrow>
          (a, Exit 1, [if app_populated app a then LogErr (''failed to start '' @ name) err
                       else Stderr (''Failed to start '' @ name) err])
      | (a, Ok _) \<Rightarrow>
          (case app_Stop app (serve a) of
             (a, Some err) \<Rightarrow> (a, Exit 1, [LogErr ''error during shutdown'' err])
           | (a, None) \<Rightarrow> (a, Exit 0, [LogInfo (name @ '' shutdown complete'')])))"

text \<open>The \<open>run\<close> of each command.\<close>

definition client_run :: "('a, 'e) fx_app \<Rightarrow> ('a \<Rightarrow> 'a) \<Rightarrow> 'a \<Rightarrow> 'a \<times> exit_status \<times> 'e log_output list" where
  "client_run = command_run ''client''"

definition server_run :: "('a, 'e) fx_app \<Rightarrow> ('a \<Rightarrow> 'a) \<Rightarrow> 'a \<Rightarrow> 'a \<times> exit_status \<times> 'e log_output list" where
  "server_run = command_run ''server''"

definition proxy_run :: "('a, 'e) fx_app \<Rightarrow> ('a \<Rightarrow> 'a) \<Rightarrow> 'a \<Rightarrow> 'a \<times> exit_status \<times> 'e log_output list" where
  "proxy_run = command_run ''proxy''"

text \<open>What the container does: \<open>Start\<close> calls the providers, and runs the start hook unless one of them fails;
  \<open>Stop\<close>, which is given a deadline, runs the stop hook, and when it returns no error the hook has come to its
  end with none. A hook that fails to start is not stopped, and a panic is not caught.\<close>

definition fx_behaves ::
  "('a, 'e) fx_app \<Rightarrow> ('a \<Rightarrow> 'e + 'a) \<Rightarrow> ('a \<Rightarrow> 'a \<times> ('e, unit) outcome) \<Rightarrow> ('a \<Rightarrow> 'a \<times> 'e option) \<Rightarrow> bool" where
  "fx_behaves app provide onStart onStop \<longleftrightarrow>
     (\<forall>a. app_Start app a = (case provide a of Inl err \<Rightarrow> (a, Err err) | Inr a' \<Rightarrow> onStart a')) \<and>
     (\<forall>a a'. app_Stop app a = (a', None) \<longrightarrow> onStop a = (a', None))"

text \<open>The providers and the start hook succeed.\<close>

definition starts :: "('a \<Rightarrow> 'e + 'a) \<Rightarrow> ('a \<Rightarrow> 'a \<times> ('e, unit) outcome) \<Rightarrow> 'a \<Rightarrow> bool" where
  "starts provide onStart a = (case provide a of Inl err \<Rightarrow> False | Inr a1 \<Rightarrow> (case snd (onStart a1) of Ok _ \<Rightarrow> True | _ \<Rightarrow> False))"

text \<open>The contract of a program: a start that does not succeed leaves behind what was there before, and so
  does a stop after a start and whatever the running program does.\<close>

locale program =
  fixes provide :: "'a \<Rightarrow> 'e + 'a"
    and onStart :: "'a \<Rightarrow> 'a \<times> ('e, unit) outcome"
    and onStop :: "'a \<Rightarrow> 'a \<times> 'e option"
    and ready :: "'a \<Rightarrow> bool"
    and runs :: "'a \<Rightarrow> 'a \<Rightarrow> bool"
    and clean :: "'a \<Rightarrow> 'a \<Rightarrow> bool"
  assumes clean_refl: "clean a a"
    and start_fails: "ready a \<Longrightarrow> provide a = Inr a1 \<Longrightarrow> onStart a1 = (a2, r) \<Longrightarrow> r \<noteq> Ok () \<Longrightarrow> clean a a2"
    and stop_cleans: "ready a \<Longrightarrow> provide a = Inr a1 \<Longrightarrow> onStart a1 = (a2, Ok ()) \<Longrightarrow> runs a2 a3 \<Longrightarrow> clean a (fst (onStop a3))"
begin

lemma run_cleans:
  assumes fx: "fx_behaves app provide onStart onStop" and "ready a" "\<And>a. runs a (serve a)"
    and run: "command_run name app serve a = (a', status, out)" and ended: "status = Exit 0 \<or> \<not> starts provide onStart a"
  shows "clean a a'"
proof -
  have start: "app_Start app a = (case provide a of Inl err \<Rightarrow> (a, Err err) | Inr a' \<Rightarrow> onStart a')"
    and stop: "app_Stop app a = (a', None) \<Longrightarrow> onStop a = (a', None)" for a a'
    using fx by (simp_all add: fx_behaves_def)
  show ?thesis
  proof (cases "provide a")
    case (Inl e)
    then show ?thesis using run by (auto simp: command_run_def start clean_refl)
  next
    case (Inr a1)
    obtain a2 r where r: "onStart a1 = (a2, r)" by (cases "onStart a1")
    show ?thesis
    proof (cases r)
      case (Ok u)
      then have "app_Stop app (serve a2) = (a', None)"
        using run ended by (auto simp: command_run_def start Inr r starts_def split: prod.splits option.splits)
      then show ?thesis using stop_cleans [OF assms(2) Inr, of a2 "serve a2"] stop [of "serve a2" a'] r Ok assms(3) by simp
    qed (use run start_fails [OF assms(2) Inr r] in \<open>auto simp: command_run_def start Inr r\<close>)
  qed
qed

lemma run_exit:
  assumes fx: "fx_behaves app provide onStart onStop" and run: "command_run name app serve a = (a', status, out)"
  shows "status = Exit 0 \<Longrightarrow> starts provide onStart a"
    and "\<not> starts provide onStart a \<Longrightarrow> status = (case provide a of Inl err \<Rightarrow> Exit 1
      | Inr a1 \<Rightarrow> (case snd (onStart a1) of Panic \<Rightarrow> Crashed | _ \<Rightarrow> Exit 1))"
    and "provide a = Inr a1 \<Longrightarrow> onStart a1 = (a2, Ok ()) \<Longrightarrow>
      status = (if snd (app_Stop app (serve a2)) = None then Exit 0 else Exit 1)"
  using run fx [unfolded fx_behaves_def, THEN conjunct1]
  by (auto simp: command_run_def starts_def split: sum.splits outcome.splits prod.splits option.splits)

end

section \<open>The three programs\<close>

text \<open>The client. The providers make the configuration and a new client; \<open>New\<close> appends the hooks.\<close>

record 's client_process =
  cp_cfg :: client_config
  cp_app :: "'s client_app"

definition client_provide ::
  "'ce + client_config \<times> 'tls \<Rightarrow> 's client_process \<Rightarrow> ('ce + client_start_error) + 's client_process" where
  "client_provide settings p =
     (case settings of
        Inl err \<Rightarrow> Inl (Inl err)
      | Inr (cfg, tls) \<Rightarrow> Inr \<lparr>cp_cfg = cfg, cp_app = new_client_app cfg (ca_host (cp_app p))\<rparr>)"

definition client_onStart ::
  "'s iptables \<Rightarrow> bool \<Rightarrow> bool \<Rightarrow> register_error option \<Rightarrow> (string \<Rightarrow> bool) \<Rightarrow> 's client_process \<Rightarrow>
   's client_process \<times> ('ce + client_start_error, unit) outcome" where
  "client_onStart ipt newClient_ok newStream_ok registered listen_ok p =
     (let (a, r) = client_start ipt newClient_ok newStream_ok registered listen_ok (cp_cfg p) (cp_app p)
      in (p\<lparr>cp_app := a\<rparr>, map_outcome Inr id r))"

definition client_onStop :: "'s iptables \<Rightarrow> 's client_process \<Rightarrow> 's client_process \<times> ('ce + client_start_error) option" where
  "client_onStop ipt p = (p\<lparr>cp_app := client_stop ipt (cp_app p)\<rparr>, None)"

text \<open>A running client leaves its rules alone; its link may break.\<close>

definition client_runs :: "'s client_process \<Rightarrow> 's client_process \<Rightarrow> bool" where
  "client_runs p p' \<longleftrightarrow> ca_nf (cp_app p') = ca_nf (cp_app p) \<and> ca_host (cp_app p') = ca_host (cp_app p)"

text \<open>iptables works as documented, and the redirection of the settings is not installed yet.\<close>

definition client_ready ::
  "'s iptables \<Rightarrow> ('s \<Rightarrow> string \<Rightarrow> string \<Rightarrow> string list list) \<Rightarrow> (string \<Rightarrow> string \<Rightarrow> string list \<Rightarrow> bool) \<Rightarrow>
   'ce + client_config \<times> 'tls \<Rightarrow> 's client_process \<Rightarrow> bool" where
  "client_ready ipt view accepts settings p \<longleftrightarrow> iptables_behaves ipt view accepts \<and>
     (\<forall>cfg tls. settings = Inr (cfg, tls) \<longrightarrow>
        accepted accepts (redirect_rule (NewNetfilterManager (cc_TargetCIDR cfg) (cc_ListenPort cfg))) \<and>
        \<not> installed view (ca_host (cp_app p)) (redirect_rule (NewNetfilterManager (cc_TargetCIDR cfg) (cc_ListenPort cfg))))"


interpretation client_program: program "client_provide settings" "client_onStart ipt n st reg lo" "client_onStop ipt"
    "client_ready ipt view accepts settings" client_runs "\<lambda>p p'. view (ca_host (cp_app p')) = view (ca_host (cp_app p))"
  for settings ipt n st reg lo view accepts
proof
  fix a a1 a2 r
  assume ready: "client_ready ipt view accepts settings a" and p: "client_provide settings a = Inr a1"
    and s: "client_onStart ipt n st reg lo a1 = (a2, r)"
  obtain cfg tls where cfg: "settings = Inr (cfg, tls)" "a1 = \<lparr>cp_cfg = cfg, cp_app = new_client_app cfg (ca_host (cp_app a))\<rparr>"
    using p by (auto simp: client_provide_def split: sum.splits)
  obtain c res where c: "client_start ipt n st reg lo cfg (new_client_app cfg (ca_host (cp_app a))) = (c, res)"
      "r = map_outcome Inr id res" "cp_app a2 = c"
    using s by (auto simp: client_onStart_def cfg(2) Let_def split: prod.splits)
  note effects = client_start_stop [OF _ _ _ c(1), of view accepts]
  have e: "(res \<noteq> Ok () \<longrightarrow> view (ca_host c) = view (ca_host (cp_app a))) \<and> view (ca_host (client_stop ipt c)) = view (ca_host (cp_app a))"
    using effects ready cfg(1) by (auto simp: client_ready_def)
  show "view (ca_host (cp_app a2)) = view (ca_host (cp_app a))" if "r \<noteq> Ok ()"
    using e that c(2,3) by (cases res) auto
  show "view (ca_host (cp_app (fst (client_onStop ipt a3)))) = view (ca_host (cp_app a))" if "client_runs a2 a3" for a3
    using e client_stop_same [of "cp_app a3" "cp_app a2" ipt] that c(3) by (simp add: client_onStop_def client_runs_def)
qed simp

text \<open>The server.\<close>

record server_process =
  sp_cfg :: server_config
  sp_app :: server_app

definition server_provide :: "'ce + server_config \<times> 'tls \<Rightarrow> server_process \<Rightarrow> ('ce + listen_error) + server_process" where
  "server_provide settings p =
     (case settings of
        Inl err \<Rightarrow> Inl (Inl err)
      | Inr (cfg, tls) \<Rightarrow> Inr \<lparr>sp_cfg = cfg, sp_app = new_server_app\<rparr>)"

definition server_onStart :: "(string \<Rightarrow> bool) \<Rightarrow> server_process \<Rightarrow> server_process \<times> ('ce + listen_error, unit) outcome" where
  "server_onStart listen_ok p =
     (let (a, err) = server_start listen_ok (sp_cfg p) (sp_app p)
      in (p\<lparr>sp_app := a\<rparr>, case err of None \<Rightarrow> Ok () | Some e \<Rightarrow> Err (Inr e)))"

definition server_onStop :: "server_process \<Rightarrow> server_process \<times> ('ce + listen_error) option" where
  "server_onStop p = (p\<lparr>sp_app := server_stop (sp_cfg p) (sp_app p)\<rparr>, None)"

text \<open>A running server keeps its listeners; its registry changes in any way.\<close>

definition server_runs :: "server_process \<Rightarrow> server_process \<Rightarrow> bool" where
  "server_runs p p' \<longleftrightarrow> sp_cfg p' = sp_cfg p \<and> ss_grpc (sp_app p') = ss_grpc (sp_app p)"

definition listening :: "server_process \<Rightarrow> string list" where
  "listening p = gs_listening (ss_grpc (sp_app p))"

interpretation server_program: program "server_provide settings" "server_onStart lo" server_onStop
    "\<lambda>p. listening p = []" server_runs "\<lambda>p p'. listening p' = listening p" for settings lo
  by unfold_locales (auto simp: server_provide_def server_onStart_def server_onStop_def server_runs_def listening_def
    server_start_def server_stop_def grpc_Start_def grpc_Stop_def new_server_app_def new_grpc_state_def Let_def
    split: sum.splits if_splits)

text \<open>The proxy. Its forwarder is there as soon as it is built, by a container that finds the channels its constructors
  name.\<close>

record proxy_process =
  pp_cfg :: proxy_config
  pp_app :: proxy_app

definition proxy_provide ::
  "'ce + proxy_config \<times> 'tls \<Rightarrow> proxy_process \<Rightarrow> ('ce + proxy_register_error connect_error) + proxy_process" where
  "proxy_provide settings p =
     (case settings of
        Inl err \<Rightarrow> Inl (Inl err)
      | Inr (cfg, tls) \<Rightarrow>
          Inr \<lparr>pp_cfg = cfg, pp_app = \<lparr>xa_link = new_link, xa_heartbeat = False, xa_forwarding = True\<rparr>\<rparr>)"

definition proxy_onStart ::
  "bool \<Rightarrow> bool \<Rightarrow> proxy_register_error option \<Rightarrow> proxy_process \<Rightarrow>
   proxy_process \<times> ('ce + proxy_register_error connect_error, unit) outcome" where
  "proxy_onStart newClient_ok newStream_ok registered p =
     (let (a, err) = proxy_start newClient_ok newStream_ok registered (pp_app p)
      in (p\<lparr>pp_app := a\<rparr>, case err of None \<Rightarrow> Ok () | Some e \<Rightarrow> Err (Inr e)))"

definition proxy_onStop :: "proxy_process \<Rightarrow> proxy_process \<times> ('ce + proxy_register_error connect_error) option" where
  "proxy_onStop p = (p\<lparr>pp_app := proxy_stop (pp_app p)\<rparr>, None)"

definition link_open :: "proxy_process \<Rightarrow> bool" where
  "link_open p \<longleftrightarrow> lk_conn (xa_link (pp_app p)) \<or> lk_stream (xa_link (pp_app p)) \<or> lk_loops (xa_link (pp_app p))"

interpretation proxy_program: program "proxy_provide settings" "proxy_onStart n st reg" proxy_onStop
    "\<lambda>p. \<not> link_open p" "\<lambda>p p'. True" "\<lambda>p p'. link_open p' = link_open p" for settings n st reg
proof
  fix a a1 a2 r
  assume "\<not> link_open a" "proxy_provide settings a = Inr a1" "proxy_onStart n st reg a1 = (a2, r)" "r \<noteq> Ok ()"
  then show "link_open a2 = link_open a"
    using proxy_Connect_failed [of n st reg]
    by (auto simp: proxy_provide_def proxy_onStart_def proxy_start_def link_open_def Let_def
      split: sum.splits prod.splits option.splits)
qed (auto simp: proxy_onStop_def proxy_stop_def link_open_def Close_link_def)

section \<open>Properties\<close>

text \<open>C15: The client command and its rule. Let iptables work as documented, let the redirection of the settings
  not be installed before, and let the running client leave the rules alone. When the command exits with 0, the
  client was started, and every chain of the host is as it was before. When the settings cannot be
  made or the start fails, at whatever step, every chain is as it was before too, and the exit status is 1 after an
  error, while a panic crashes the process. After a successful start the exit status is 1 exactly when the
  container's \<open>Stop\<close> reports an error, as it does at its deadline; only then may a rule be left (Shutdown says which).\<close>

theorem client_command_leaves_no_rule:
  assumes settings: "settings = client_settings b le order te cs f env"
    and ready: "client_ready ipt view accepts settings p"
    and fx: "fx_behaves app (client_provide settings) (client_onStart ipt n st reg lo) (client_onStop ipt)"
    and serve: "\<And>p. client_runs p (serve p)"
    and run: "client_run app serve p = (p', status, out)"
  shows "case settings of
      Inl e \<Rightarrow> view (ca_host (cp_app p')) = view (ca_host (cp_app p)) \<and> status = Exit 1
    | Inr (cfg, tls) \<Rightarrow>
        (case client_start ipt n st reg lo cfg (new_client_app cfg (ca_host (cp_app p))) of
          (a, Ok _) \<Rightarrow>
            status = (if snd (app_Stop app (serve \<lparr>cp_cfg = cfg, cp_app = a\<rparr>)) = None then Exit 0 else Exit 1) \<and>
            (status = Exit 0 \<longrightarrow> view (ca_host (cp_app p')) = view (ca_host (cp_app p)))
        | (a, Err e) \<Rightarrow> view (ca_host (cp_app p')) = view (ca_host (cp_app p)) \<and> status = Exit 1
        | (a, Panic) \<Rightarrow> view (ca_host (cp_app p')) = view (ca_host (cp_app p)) \<and> status = Crashed)"
proof -
  let ?start = "client_onStart ipt n st reg lo" and ?same = "view (ca_host (cp_app p')) = view (ca_host (cp_app p))"
  note exit = client_program.run_exit [OF fx run [unfolded client_run_def]]
  have clean: ?same if "status = Exit 0 \<or> \<not> starts (client_provide settings) ?start p"
    by (rule client_program.run_cleans [OF fx ready serve run [unfolded client_run_def] that])
  show ?thesis
  proof (cases settings)
    case (Inl e)
    then have "\<not> starts (client_provide settings) ?start p" by (simp add: starts_def client_provide_def)
    then show ?thesis using clean exit(2) by (simp add: Inl) (simp add: client_provide_def)
  next
    case (Inr ct)
    obtain cfg tls where ct: "ct = (cfg, tls)" by (cases ct)
    obtain a r where r: "client_start ipt n st reg lo cfg (new_client_app cfg (ca_host (cp_app p))) = (a, r)" by fastforce
    let ?p1 = "\<lparr>cp_cfg = cfg, cp_app = new_client_app cfg (ca_host (cp_app p))\<rparr>"
    have p: "client_provide settings p = Inr ?p1" by (simp add: client_provide_def Inr ct)
    have s: "?start ?p1 = (\<lparr>cp_cfg = cfg, cp_app = a\<rparr>, map_outcome Inr id r)" by (simp add: client_onStart_def r)
    show ?thesis
    proof (cases r)
      case (Ok u)
      then have "status = (if snd (app_Stop app (serve \<lparr>cp_cfg = cfg, cp_app = a\<rparr>)) = None then Exit 0 else Exit 1)"
        using s by (intro exit(3) [OF p]) simp
      then show ?thesis using clean by (auto simp: Inr ct r Ok)
    next
      case (Err e)
      then have "\<not> starts (client_provide settings) ?start p" by (simp add: starts_def p s)
      then show ?thesis using clean exit(2) by (simp add: Inr ct r Err p [unfolded Inr ct] s)
    next
      case Panic
      then have "\<not> starts (client_provide settings) ?start p" by (simp add: starts_def p s)
      then show ?thesis using clean exit(2) by (simp add: Inr ct r Panic p [unfolded Inr ct] s)
    qed
  qed
qed

text \<open>The server and the proxy command release what they have taken when they exit with 0 or fail to start: the
  addresses that are listened on, and the link to the server.\<close>

theorem server_command_releases:
  assumes "fx_behaves app (server_provide settings) (server_onStart lo) server_onStop" "listening p = []"
    and "\<And>p. server_runs p (serve p)" "server_run app serve p = (p', status, out)"
    and "status = Exit 0 \<or> \<not> starts (server_provide settings) (server_onStart lo) p"
  shows "listening p' = []"
  using server_program.run_cleans [OF assms(1-3) assms(4) [unfolded server_run_def] assms(5)] assms(2) by simp

theorem proxy_command_releases:
  assumes "fx_behaves app (proxy_provide settings) (proxy_onStart n st reg) proxy_onStop" "\<not> link_open p"
    and "proxy_run app serve p = (p', status, out)"
    and "status = Exit 0 \<or> \<not> starts (proxy_provide settings) (proxy_onStart n st reg) p"
  shows "\<not> link_open p'"
  using proxy_program.run_cleans [OF assms(1,2) TrueI assms(3) [unfolded proxy_run_def] assms(4)] assms(2) by simp

text \<open>A container that does what its documentation says.\<close>

definition sample_fx ::
  "('a \<Rightarrow> 'e + 'a) \<Rightarrow> ('a \<Rightarrow> 'a \<times> ('e, unit) outcome) \<Rightarrow> ('a \<Rightarrow> 'a \<times> 'e option) \<Rightarrow> ('a, 'e) fx_app" where
  "sample_fx provide onStart onStop =
     \<lparr>app_Start = (\<lambda>a. case provide a of Inl err \<Rightarrow> (a, Err err) | Inr a' \<Rightarrow> onStart a'), app_Stop = onStop,
      app_populated = (\<lambda>a. True)\<rparr>"

lemma sample_fx_behaves: "fx_behaves (sample_fx provide onStart onStop) provide onStart onStop"
  by (simp add: fx_behaves_def sample_fx_def)

definition sample_settings where
  "sample_settings = client_settings release_build sample_load_env [] sample_tls_env sample_certs
     \<lparr>cf_config = '''', cf_server = '''', cf_cidr = '''', cf_port = 0\<rparr> Map.empty"

definition sample_client_process where
  "sample_client_process = \<lparr>cp_cfg = client_DefaultConfig release_build, cp_app = new_client_app (client_DefaultConfig release_build) (\<lambda>t c. [])\<rparr>"

lemma sample_client_host: "ca_host (cp_app sample_client_process) = (\<lambda>t c. [])"
  by (simp add: sample_client_process_def new_client_app_def)

theorem client_command_leaves_no_rule_witness:
  "\<exists>p' status out. client_run (sample_fx (client_provide sample_settings)
     (client_onStart host_ipt True True None (\<lambda>a. True)) (client_onStop host_ipt)) id sample_client_process = (p', status, out) \<and>
     ca_host (cp_app p') = (\<lambda>t c. [])"
proof -
  let ?app = "sample_fx (client_provide sample_settings) (client_onStart host_ipt True True None (\<lambda>a. True)) (client_onStop host_ipt)"
  obtain p' status out where run: "client_run ?app id sample_client_process = (p', status, out)"
    by (metis prod_cases3)
  have "client_ready host_ipt id (\<lambda>t c args. True) sample_settings sample_client_process"
    using host_ipt_behaves by (simp add: client_ready_def accepted_def installed_def sample_client_host)
  note all = client_command_leaves_no_rule [OF sample_settings_def this sample_fx_behaves _ run]
  have "snd (app_Stop ?app p) = None" for p by (simp add: sample_fx_def client_onStop_def)
  then have "ca_host (cp_app p') = (\<lambda>t c. [])"
    using all by (auto simp: client_runs_def sample_client_host split: sum.splits prod.splits outcome.splits)
  then show ?thesis using run by blast
qed

theorem server_command_releases_witness:
  "listening (fst (server_run (sample_fx (server_provide (Inr (server_DefaultConfig release_build, ())))
     (server_onStart (\<lambda>a. a = '':8080'')) server_onStop :: (server_process, unit + listen_error) fx_app) id
     \<lparr>sp_cfg = server_DefaultConfig release_build, sp_app = new_server_app\<rparr>)) = []"
proof -
  obtain p' status out where run: "server_run (sample_fx (server_provide (Inr (server_DefaultConfig release_build, ())))
     (server_onStart (\<lambda>a. a = '':8080'')) server_onStop :: (server_process, unit + listen_error) fx_app) id
     \<lparr>sp_cfg = server_DefaultConfig release_build, sp_app = new_server_app\<rparr> = (p', status, out)"
    by (metis prod_cases3)
  have "status = Exit 0 \<or> \<not> starts (server_provide (Inr (server_DefaultConfig release_build, ())))
      (server_onStart (\<lambda>a. a = '':8080'') :: server_process \<Rightarrow> server_process \<times> (unit + listen_error, unit) outcome)
      \<lparr>sp_cfg = server_DefaultConfig release_build, sp_app = new_server_app\<rparr>"
    using server_program.run_exit(3) [OF sample_fx_behaves run [unfolded server_run_def] _ surjective_pairing [THEN trans]]
    by (fastforce simp: starts_def server_provide_def sample_fx_def server_onStop_def split: outcome.splits)
  then have "listening p' = []"
    using server_command_releases [OF sample_fx_behaves _ _ run]
    by (simp add: listening_def new_server_app_def new_grpc_state_def server_runs_def)
  then show ?thesis by (simp add: run)
qed

end
