(* ===== verification/Certs.thy ===== *)
theory Certs
  imports GoNet
begin

text \<open>
  \<open>pkg/crypto/ca.go\<close>, \<open>pkg/crypto/cert.go\<close> and \<open>cmd/gencerts/main.go\<close>: making certificates, writing
  them to files and reading them back. The certificates and keys of \<open>crypto/x509\<close> and \<open>crypto/ecdsa\<close>,
  the PEM encoding and the file system are parameters.
\<close>

section \<open>Paths\<close>

text \<open>\<open>filepath.Clean\<close> and \<open>filepath.Join\<close> of two elements, on Unix. The elements of the result are
  kept in order; \<open>..\<close> drops the last one, stays at the front of a relative path, and is dropped at the root.\<close>

fun clean_step :: "bool \<Rightarrow> string list \<Rightarrow> string \<Rightarrow> string list" where
  "clean_step rooted out e =
     (if e = '''' \<or> e = ''.'' then out
      else if e = ''..'' then
        (if out = [] then (if rooted then [] else [''..''])
         else if last out = ''..'' then out @ [''..'']
         else butlast out)
      else out @ [e])"

definition path_elements :: "string \<Rightarrow> string list" where
  "path_elements p = foldl (clean_step (take 1 p = ''/'')) [] (split_byte CHR ''/'' p)"

definition Clean :: "string \<Rightarrow> string" where
  "Clean p =
     (if p = '''' then ''.''
      else let out = join ''/'' (path_elements p) in
           if take 1 p = ''/'' then CHR ''/'' # out else if out = '''' then ''.'' else out)"

definition path_join :: "string \<Rightarrow> string \<Rightarrow> string" where
  "path_join dir name =
     (if dir \<noteq> '''' then Clean (dir @ CHR ''/'' # name)
      else if name \<noteq> '''' then Clean name else '''')"

section \<open>The libraries\<close>

datatype ext_key_usage = ExtKeyUsageServerAuth | ExtKeyUsageClientAuth

definition KeyUsageDigitalSignature :: nat where "KeyUsageDigitalSignature = 2 ^ 0"
definition KeyUsageKeyEncipherment :: nat where "KeyUsageKeyEncipherment = 2 ^ 2"
definition KeyUsageCertSign :: nat where "KeyUsageCertSign = 2 ^ 5"
definition KeyUsageCRLSign :: nat where "KeyUsageCRLSign = 2 ^ 6"

record template =
  tp_SerialNumber :: nat
  tp_Organization :: "string list"
  tp_CommonName :: string
  tp_NotBefore :: int
  tp_NotAfter :: int
  tp_KeyUsage :: nat
  tp_ExtKeyUsage :: "ext_key_usage list"
  tp_BasicConstraintsValid :: bool
  tp_IsCA :: bool
  tp_MaxPathLen :: int
  tp_DNSNames :: "string list"
  tp_IPAddresses :: "ip list"

text \<open>A certificate is created for a template, a parent, which is the template itself or a certificate, a
  key and the key that signs.\<close>

record ('cert, 'key) x509_lib =
  x_CreateCertificate :: "template \<Rightarrow> template + 'cert \<Rightarrow> 'key \<Rightarrow> 'key \<Rightarrow> byte list option"
  x_ParseCertificate :: "byte list \<Rightarrow> 'cert option"
  x_Raw :: "'cert \<Rightarrow> byte list"
  x_MarshalECPrivateKey :: "'key \<Rightarrow> byte list option"
  x_ParseECPrivateKey :: "byte list \<Rightarrow> 'key option"
  x_EncodeToMemory :: "string \<Rightarrow> byte list \<Rightarrow> byte list"
  x_Decode :: "byte list \<Rightarrow> (string \<times> byte list) option"

text \<open>Writing a file with a mode (0644 is 420, 0600 is 384 and 0755 is 493) gives the new state of the file system and whether it succeeded.\<close>

record 's file_system =
  f_WriteFile :: "string \<Rightarrow> byte list \<Rightarrow> nat \<Rightarrow> 's \<Rightarrow> 's \<times> bool"
  f_ReadFile :: "string \<Rightarrow> 's \<Rightarrow> byte list option"
  f_MkdirAll :: "string \<Rightarrow> nat \<Rightarrow> 's \<Rightarrow> 's \<times> bool"

text \<open>What a generation takes from the outside: a key, a serial number below \<open>2 ^ 128\<close> and the time, read twice.\<close>

record 'key randomness =
  rn_Key :: "'key option"
  rn_Serial :: "nat option"
  rn_Now1 :: int
  rn_Now2 :: int

section \<open>The certificate authority\<close>

record ('cert, 'key) CA =
  ca_Cert :: 'cert
  ca_PrivateKey :: 'key

datatype cert_error =
    KeyGenerationFailed
  | SerialFailed
  | CreateFailed
  | CertParseFailed
  | WriteCertFailed
  | MarshalFailed
  | WriteKeyFailed
  | ReadCertFailed
  | CertPEMFailed
  | ReadKeyFailed
  | KeyPEMFailed
  | KeyParseFailed

definition ca_template :: "string \<Rightarrow> nat \<Rightarrow> int \<Rightarrow> int \<Rightarrow> template" where
  "ca_template org serialNumber now1 now2 =
     \<lparr>tp_SerialNumber = serialNumber, tp_Organization = [org], tp_CommonName = org @ '' CA'', tp_NotBefore = now1,
      tp_NotAfter = now2 + 10 * 365 * 24 * (60 * minute), tp_KeyUsage = KeyUsageCertSign OR KeyUsageCRLSign,
      tp_ExtKeyUsage = [ExtKeyUsageServerAuth, ExtKeyUsageClientAuth], tp_BasicConstraintsValid = True, tp_IsCA = True,
      tp_MaxPathLen = 2, tp_DNSNames = [], tp_IPAddresses = []\<rparr>"

definition GenerateCA ::
  "('cert, 'key) x509_lib \<Rightarrow> 'key randomness \<Rightarrow> string \<Rightarrow> cert_error + ('cert, 'key) CA" where
  "GenerateCA x rn org =
     (case rn_Key rn of None \<Rightarrow> Inl KeyGenerationFailed
      | Some privateKey \<Rightarrow>
          (case rn_Serial rn of None \<Rightarrow> Inl SerialFailed
           | Some serialNumber \<Rightarrow>
               let t = ca_template org serialNumber (rn_Now1 rn) (rn_Now2 rn) in
               (case x_CreateCertificate x t (Inl t) privateKey privateKey of None \<Rightarrow> Inl CreateFailed
                | Some certDER \<Rightarrow>
                    (case x_ParseCertificate x certDER of None \<Rightarrow> Inl CertParseFailed
                     | Some cert \<Rightarrow> Inr \<lparr>ca_Cert = cert, ca_PrivateKey = privateKey\<rparr>))))"

text \<open>Both pairs of functions write the certificate first and the key second, and stop at the first error.\<close>

definition SaveCert ::
  "('cert, 'key) x509_lib \<Rightarrow> 's file_system \<Rightarrow> 'cert \<Rightarrow> 'key \<Rightarrow> string \<Rightarrow> string \<Rightarrow> 's \<Rightarrow> 's \<times> cert_error option" where
  "SaveCert x fs cert privateKey certPath keyPath s =
     (let certPEM = x_EncodeToMemory x ''CERTIFICATE'' (x_Raw x cert) in
      case f_WriteFile fs certPath certPEM 420 s of
        (s, False) \<Rightarrow> (s, Some WriteCertFailed)
      | (s, True) \<Rightarrow>
          (case x_MarshalECPrivateKey x privateKey of
             None \<Rightarrow> (s, Some MarshalFailed)
           | Some keyBytes \<Rightarrow>
               let keyPEM = x_EncodeToMemory x ''EC PRIVATE KEY'' keyBytes in
               (case f_WriteFile fs keyPath keyPEM 384 s of
                  (s, False) \<Rightarrow> (s, Some WriteKeyFailed)
                | (s, True) \<Rightarrow> (s, None))))"

definition SaveToFiles ::
  "('cert, 'key) x509_lib \<Rightarrow> 's file_system \<Rightarrow> ('cert, 'key) CA \<Rightarrow> string \<Rightarrow> string \<Rightarrow> 's \<Rightarrow> 's \<times> cert_error option" where
  "SaveToFiles x fs ca certPath keyPath s = SaveCert x fs (ca_Cert ca) (ca_PrivateKey ca) certPath keyPath s"

definition LoadCert ::
  "('cert, 'key) x509_lib \<Rightarrow> 's file_system \<Rightarrow> string \<Rightarrow> string \<Rightarrow> 's \<Rightarrow> cert_error + 'cert \<times> 'key" where
  "LoadCert x fs certPath keyPath s =
     (case f_ReadFile fs certPath s of None \<Rightarrow> Inl ReadCertFailed
      | Some certPEM \<Rightarrow>
          (case x_Decode x certPEM of None \<Rightarrow> Inl CertPEMFailed
           | Some (kind, bytes) \<Rightarrow>
               (case x_ParseCertificate x bytes of None \<Rightarrow> Inl CertParseFailed
                | Some cert \<Rightarrow>
                    (case f_ReadFile fs keyPath s of None \<Rightarrow> Inl ReadKeyFailed
                     | Some keyPEM \<Rightarrow>
                         (case x_Decode x keyPEM of None \<Rightarrow> Inl KeyPEMFailed
                          | Some (kind, bytes) \<Rightarrow>
                              (case x_ParseECPrivateKey x bytes of None \<Rightarrow> Inl KeyParseFailed
                               | Some privateKey \<Rightarrow> Inr (cert, privateKey)))))))"

definition LoadCA ::
  "('cert, 'key) x509_lib \<Rightarrow> 's file_system \<Rightarrow> string \<Rightarrow> string \<Rightarrow> 's \<Rightarrow> cert_error + ('cert, 'key) CA" where
  "LoadCA x fs certPath keyPath s =
     map_sum id (\<lambda>(cert, privateKey). \<lparr>ca_Cert = cert, ca_PrivateKey = privateKey\<rparr>) (LoadCert x fs certPath keyPath s)"

section \<open>Certificates\<close>

datatype cert_type = ServerCert | ClientCert

record cert_options =
  co_CommonName :: string
  co_DNSNames :: "string list"
  co_IPAddr :: "ip list"
  co_Type :: cert_type

definition cert_template :: "cert_options \<Rightarrow> nat \<Rightarrow> int \<Rightarrow> int \<Rightarrow> template" where
  "cert_template opts serialNumber now1 now2 =
     \<lparr>tp_SerialNumber = serialNumber, tp_Organization = [], tp_CommonName = co_CommonName opts, tp_NotBefore = now1,
      tp_NotAfter = now2 + 365 * 24 * (60 * minute), tp_KeyUsage = KeyUsageDigitalSignature OR KeyUsageKeyEncipherment,
      tp_ExtKeyUsage = (if co_Type opts = ServerCert then [ExtKeyUsageServerAuth] else [ExtKeyUsageClientAuth]),
      tp_BasicConstraintsValid = False, tp_IsCA = False, tp_MaxPathLen = 0, tp_DNSNames = co_DNSNames opts,
      tp_IPAddresses = co_IPAddr opts\<rparr>"

definition GenerateCert ::
  "('cert, 'key) x509_lib \<Rightarrow> 'key randomness \<Rightarrow> ('cert, 'key) CA \<Rightarrow> cert_options \<Rightarrow> cert_error + 'cert \<times> 'key" where
  "GenerateCert x rn ca opts =
     (case rn_Key rn of None \<Rightarrow> Inl KeyGenerationFailed
      | Some privateKey \<Rightarrow>
          (case rn_Serial rn of None \<Rightarrow> Inl SerialFailed
           | Some serialNumber \<Rightarrow>
               (case x_CreateCertificate x (cert_template opts serialNumber (rn_Now1 rn) (rn_Now2 rn)) (Inr (ca_Cert ca))
                       privateKey (ca_PrivateKey ca) of
                  None \<Rightarrow> Inl CreateFailed
                | Some certDER \<Rightarrow>
                    (case x_ParseCertificate x certDER of None \<Rightarrow> Inl CertParseFailed
                     | Some cert \<Rightarrow> Inr (cert, privateKey)))))"

section \<open>gencerts\<close>

text \<open>The file that embeds the certificates: for each role a comment and two embedded files.\<close>

definition newline :: string where "newline = [CHR 0x0A]"

definition embed_role :: "string \<times> string \<Rightarrow> string" where
  "embed_role = (\<lambda>(name, base).
     newline @ ''// '' @ name @ '' Certificate'' @ newline
     @ ''//go:embed '' @ base @ ''.crt'' @ newline @ ''var '' @ name @ ''Cert string'' @ newline
     @ newline @ ''//go:embed '' @ base @ ''.key'' @ newline @ ''var '' @ name @ ''Key string'' @ newline)"

definition embed_content :: string where
  "embed_content = ''// Code generated by gencerts. DO NOT EDIT.'' @ newline @ newline @ ''package certs'' @ newline @ newline
     @ ''import _ '' @ [CHR 0x22] @ ''embed'' @ [CHR 0x22] @ newline
     @ concat (map embed_role [(''CA'', ''ca''), (''Server'', ''server''), (''Client'', ''client''), (''Proxy'', ''proxy'')])"

definition string_bytes :: "string \<Rightarrow> byte list" where
  "string_bytes s = map (\<lambda>c. of_nat (of_char c)) s"

definition generateEmbedFile :: "'s file_system \<Rightarrow> string \<Rightarrow> 's \<Rightarrow> 's \<times> bool" where
  "generateEmbedFile fs dir s = f_WriteFile fs (path_join dir ''embed.go'') (string_bytes embed_content) 420 s"

datatype gencerts_error =
    MkdirFailed
  | GenerateCAFailed cert_error
  | SaveCAFailed cert_error
  | GenerateFailed string cert_error
  | SaveFailed string cert_error
  | EmbedFailed

text \<open>The options of the three certificates, in the order they are made.\<close>

definition server_options :: cert_options where
  "server_options = \<lparr>co_CommonName = ''server'', co_DNSNames = [''localhost'', ''server''],
     co_IPAddr = [parse_ip ''127.0.0.1'', parse_ip ''::1''], co_Type = ServerCert\<rparr>"

definition client_options :: cert_options where
  "client_options = \<lparr>co_CommonName = ''client'', co_DNSNames = [''client''], co_IPAddr = [], co_Type = ClientCert\<rparr>"

definition proxy_options :: cert_options where
  "proxy_options = \<lparr>co_CommonName = ''proxy'', co_DNSNames = [''proxy''], co_IPAddr = [], co_Type = ClientCert\<rparr>"

text \<open>One certificate: generate it and write it to the two files of its name.\<close>

definition make_cert ::
  "('cert, 'key) x509_lib \<Rightarrow> 's file_system \<Rightarrow> ('cert, 'key) CA \<Rightarrow> string \<Rightarrow> cert_options \<times> 'key randomness \<Rightarrow> 's \<Rightarrow>
   's \<times> gencerts_error option" where
  "make_cert x fs ca dir = (\<lambda>(opts, rn) s.
     case GenerateCert x rn ca opts of
       Inl e \<Rightarrow> (s, Some (GenerateFailed (co_CommonName opts) e))
     | Inr (cert, key) \<Rightarrow>
         (case SaveCert x fs cert key (path_join dir (co_CommonName opts @ ''.crt'')) (path_join dir (co_CommonName opts @ ''.key'')) s of
            (s, Some e) \<Rightarrow> (s, Some (SaveFailed (co_CommonName opts) e))
          | (s, None) \<Rightarrow> (s, None)))"

fun make_certs ::
  "('cert, 'key) x509_lib \<Rightarrow> 's file_system \<Rightarrow> ('cert, 'key) CA \<Rightarrow> string \<Rightarrow> (cert_options \<times> 'key randomness) list \<Rightarrow> 's \<Rightarrow>
   's \<times> gencerts_error option" where
  "make_certs x fs ca dir [] s = (s, None)"
| "make_certs x fs ca dir (c # cs) s =
     (case make_cert x fs ca dir c s of
        (s, Some e) \<Rightarrow> (s, Some e)
      | (s, None) \<Rightarrow> make_certs x fs ca dir cs s)"

text \<open>The command; an error is an exit with status 1.\<close>

definition gencerts_run ::
  "('cert, 'key) x509_lib \<Rightarrow> 's file_system \<Rightarrow> string \<Rightarrow> string \<Rightarrow> bool \<Rightarrow> 'key randomness \<Rightarrow> 'key randomness \<Rightarrow>
   'key randomness \<Rightarrow> 'key randomness \<Rightarrow> 's \<Rightarrow> 's \<times> gencerts_error option" where
  "gencerts_run x fs org outputDir generateEmbed r0 r1 r2 r3 s =
     (case f_MkdirAll fs outputDir 493 s of
        (s, False) \<Rightarrow> (s, Some MkdirFailed)
      | (s, True) \<Rightarrow>
          (case GenerateCA x r0 org of
             Inl e \<Rightarrow> (s, Some (GenerateCAFailed e))
           | Inr ca \<Rightarrow>
               (case SaveToFiles x fs ca (path_join outputDir ''ca.crt'') (path_join outputDir ''ca.key'') s of
                  (s, Some e) \<Rightarrow> (s, Some (SaveCAFailed e))
                | (s, None) \<Rightarrow>
                    (case make_certs x fs ca outputDir [(server_options, r1), (client_options, r2), (proxy_options, r3)] s of
                       (s, Some e) \<Rightarrow> (s, Some e)
                     | (s, None) \<Rightarrow>
                         if generateEmbed
                         then (case generateEmbedFile fs outputDir s of (s, False) \<Rightarrow> (s, Some EmbedFailed) | (s, True) \<Rightarrow> (s, None))
                         else (s, None)))))"

section \<open>Paths of plain names\<close>

definition plain_name :: "string \<Rightarrow> bool" where
  "plain_name n \<longleftrightarrow> n \<noteq> '''' \<and> CHR ''/'' \<notin> set n \<and> n \<noteq> ''.'' \<and> n \<noteq> ''..''"

lemma split_byte_last: "c \<notin> set b \<Longrightarrow> split_byte c (a @ c # b) = split_byte c a @ [b]"
proof (induction a)
  case (Cons x a)
  then show ?case by (cases "split_byte c a") simp_all
qed (simp add: split_byte_none)

lemma path_elements_name:
  assumes "plain_name n"
  shows "path_elements n = [n]" "d \<noteq> '''' \<Longrightarrow> path_elements (d @ CHR ''/'' # n) = path_elements d @ [n]"
  using assms by (auto simp: path_elements_def split_byte_none split_byte_last plain_name_def) (cases d; simp)

lemma join_snoc: "join sep (ws @ [w]) = (if ws = [] then w else join sep ws @ sep @ w)"
  by (cases ws) (simp_all add: join_def)

lemma path_join_plain:
  obtains pre where "\<And>n. plain_name n \<Longrightarrow> path_join dir n = pre @ n"
proof (cases "dir = ''''")
  case True
  have "path_join dir n = '''' @ n" if "plain_name n" for n
  proof -
    have "take 1 n \<noteq> ''/''" "n \<noteq> ''''" using that by (cases n; auto simp: plain_name_def)+
    then show ?thesis using True by (simp add: path_join_def Clean_def path_elements_name [OF that] join_def)
  qed
  then show thesis by (rule that)
next
  case False
  let ?E = "path_elements dir"
  have "path_join dir n = ((if take 1 dir = ''/'' then ''/'' else '''') @ (if ?E = [] then '''' else join ''/'' ?E @ ''/'')) @ n"
    if "plain_name n" for n
  proof -
    have "take 1 (dir @ CHR ''/'' # n) = take 1 dir" "n \<noteq> ''''" using False that by (cases dir; auto simp: plain_name_def)+
    then show ?thesis
      using False by (simp add: path_join_def Clean_def path_elements_name(2) [OF that False] join_snoc)
  qed
  then show thesis by (rule that)
qed

lemma path_join_inject: "plain_name a \<Longrightarrow> plain_name b \<Longrightarrow> path_join dir a = path_join dir b \<longleftrightarrow> a = b"
  by (metis path_join_plain same_append_eq)

section \<open>What the libraries promise\<close>

text \<open>A parsed certificate holds the bytes it was parsed from; a key that was marshalled can be parsed, and a block of
  one of the two types used here that was encoded can be decoded; a path that was written reads the bytes written, and only the paths that name the
  same file, through links or as another spelling, read otherwise than before.\<close>

definition block_types :: "string list" where
  "block_types = [''CERTIFICATE'', ''EC PRIVATE KEY'']"

definition x509_behaves :: "('cert, 'key) x509_lib \<Rightarrow> bool" where
  "x509_behaves x \<longleftrightarrow> (\<forall>b c. x_ParseCertificate x b = Some c \<longrightarrow> x_Raw x c = b) \<and>
     (\<forall>k b. x_MarshalECPrivateKey x k = Some b \<longrightarrow> x_ParseECPrivateKey x b = Some k) \<and>
     (\<forall>t \<in> set block_types. \<forall>b. x_Decode x (x_EncodeToMemory x t b) = Some (t, b))"

definition files_behave :: "(string \<Rightarrow> string \<Rightarrow> bool) \<Rightarrow> 's file_system \<Rightarrow> bool" where
  "files_behave same fs \<longleftrightarrow> (\<forall>p. same p p) \<and> (\<forall>p b m s s'. f_WriteFile fs p b m s = (s', True) \<longrightarrow>
     (\<forall>q. f_ReadFile fs q s' = (if same p q then Some b else f_ReadFile fs q s)))"

lemma files_behaveD:
  assumes "files_behave same fs" "f_WriteFile fs p b m s = (s', True)"
  shows "f_ReadFile fs p s' = Some b" "\<not> same p q \<Longrightarrow> f_ReadFile fs q s' = f_ReadFile fs q s"
  using assms unfolding files_behave_def by simp_all

text \<open>No two names in a directory are links to one file.\<close>

definition no_links :: "(string \<Rightarrow> string \<Rightarrow> bool) \<Rightarrow> string \<Rightarrow> bool" where
  "no_links same dir \<longleftrightarrow> (\<forall>a b. plain_name a \<longrightarrow> plain_name b \<longrightarrow> a \<noteq> b \<longrightarrow> \<not> same (path_join dir a) (path_join dir b))"

lemma no_linksD: "no_links same dir \<Longrightarrow> plain_name a \<Longrightarrow> plain_name b \<Longrightarrow> a \<noteq> b \<Longrightarrow> \<not> same (path_join dir a) (path_join dir b)"
  by (simp add: no_links_def)

definition parsed :: "('cert, 'key) x509_lib \<Rightarrow> 'cert \<Rightarrow> bool" where
  "parsed x c \<longleftrightarrow> (\<exists>b. x_ParseCertificate x b = Some c)"

lemma SaveCert_ok:
  assumes "SaveCert x fs cert key cp kp s = (s', None)"
  obtains s1 kb where "f_WriteFile fs cp (x_EncodeToMemory x ''CERTIFICATE'' (x_Raw x cert)) 420 s = (s1, True)"
    "x_MarshalECPrivateKey x key = Some kb"
    "f_WriteFile fs kp (x_EncodeToMemory x ''EC PRIVATE KEY'' kb) 384 s1 = (s', True)"
  using assms by (auto simp: SaveCert_def Let_def split: prod.splits bool.splits option.splits)

lemma SaveCert_other:
  assumes "files_behave same fs" "SaveCert x fs cert key cp kp s = (s', None)" "\<not> same cp q" "\<not> same kp q"
  shows "f_ReadFile fs q s' = f_ReadFile fs q s"
  using assms(2) by (rule SaveCert_ok) (simp add: files_behaveD(2) [OF assms(1)] assms(3,4))

lemma LoadCert_cong:
  "f_ReadFile fs cp s = f_ReadFile fs cp s' \<Longrightarrow> f_ReadFile fs kp s = f_ReadFile fs kp s' \<Longrightarrow>
   LoadCert x fs cp kp s = LoadCert x fs cp kp s'"
  unfolding LoadCert_def by (simp only:)

lemma save_files:
  assumes x: "x509_behaves x" and fs: "files_behave same fs" and save: "SaveCert x fs cert key cp kp s = (s', None)"
    and der: "x_ParseCertificate x der = Some cert" and "\<not> same kp cp"
  obtains kb where "x_MarshalECPrivateKey x key = Some kb"
    "f_ReadFile fs cp s' = Some (x_EncodeToMemory x ''CERTIFICATE'' der)"
    "f_ReadFile fs kp s' = Some (x_EncodeToMemory x ''EC PRIVATE KEY'' kb)"
  using save
proof (rule SaveCert_ok)
  fix s1 kb
  assume w: "f_WriteFile fs cp (x_EncodeToMemory x ''CERTIFICATE'' (x_Raw x cert)) 420 s = (s1, True)"
    "x_MarshalECPrivateKey x key = Some kb" "f_WriteFile fs kp (x_EncodeToMemory x ''EC PRIVATE KEY'' kb) 384 s1 = (s', True)"
  have "x_Raw x cert = der" using x der by (simp add: x509_behaves_def)
  then have "f_ReadFile fs cp s' = Some (x_EncodeToMemory x ''CERTIFICATE'' der)"
    using files_behaveD(2) [OF fs w(3) assms(5)] files_behaveD(1) [OF fs w(1)] by simp
  then show thesis using that w(2) files_behaveD(1) [OF fs w(3)] by blast
qed

lemma save_load:
  assumes x: "x509_behaves x" and fs: "files_behave same fs" and save: "SaveCert x fs cert key cp kp s = (s', None)"
    and "parsed x cert" "\<not> same kp cp"
  shows "LoadCert x fs cp kp s' = Inr (cert, key)"
proof -
  obtain der where der: "x_ParseCertificate x der = Some cert" using assms(4) by (auto simp: parsed_def)
  obtain kb where "x_MarshalECPrivateKey x key = Some kb"
      "f_ReadFile fs cp s' = Some (x_EncodeToMemory x ''CERTIFICATE'' der)"
      "f_ReadFile fs kp s' = Some (x_EncodeToMemory x ''EC PRIVATE KEY'' kb)"
    by (rule save_files [OF x fs save der assms(5)])
  moreover have "x_Decode x (x_EncodeToMemory x ''CERTIFICATE'' b) = Some (''CERTIFICATE'', b)"
      "x_Decode x (x_EncodeToMemory x ''EC PRIVATE KEY'' b) = Some (''EC PRIVATE KEY'', b)" for b
    using x by (simp_all add: x509_behaves_def block_types_def)
  moreover have "x_MarshalECPrivateKey x key = Some b \<Longrightarrow> x_ParseECPrivateKey x b = Some key" for b
    using x by (simp add: x509_behaves_def)
  ultimately show ?thesis using der by (simp add: LoadCert_def)
qed

lemma GenerateCert_Inr:
  "GenerateCert x rn ca opts = Inr (cert, key) \<longleftrightarrow>
     (\<exists>serial der. rn_Key rn = Some key \<and> rn_Serial rn = Some serial \<and>
       x_CreateCertificate x (cert_template opts serial (rn_Now1 rn) (rn_Now2 rn)) (Inr (ca_Cert ca)) key (ca_PrivateKey ca) = Some der \<and>
       x_ParseCertificate x der = Some cert)"
  by (auto simp: GenerateCert_def split: option.splits)

text \<open>Certificates survive the file system. What \<open>SaveCert\<close> and \<open>SaveToFiles\<close> have written without error,
  \<open>LoadCert\<close> and \<open>LoadCA\<close> read back as it was, and no other file is touched.\<close>

theorem certs_roundtrip:
  assumes "x509_behaves x" "files_behave same fs" "\<not> same kp cp"
  shows "(parsed x cert \<longrightarrow> SaveCert x fs cert key cp kp s = (s', None) \<longrightarrow> LoadCert x fs cp kp s' = Inr (cert, key)) \<and>
    (parsed x (ca_Cert ca) \<longrightarrow> SaveToFiles x fs ca cp kp s = (s', None) \<longrightarrow> LoadCA x fs cp kp s' = Inr (ca :: ('cert, 'key) CA)) \<and>
    (SaveCert x fs cert key cp kp s = (s', None) \<longrightarrow> \<not> same cp q \<longrightarrow> \<not> same kp q \<longrightarrow> f_ReadFile fs q s' = f_ReadFile fs q s)"
proof (intro conjI impI)
  assume "parsed x (ca_Cert ca)" "SaveToFiles x fs ca cp kp s = (s', None)"
  then have "LoadCert x fs cp kp s' = Inr (ca_Cert ca, ca_PrivateKey ca)"
    using save_load [OF assms(1,2) _ _ assms(3)] by (simp add: SaveToFiles_def)
  then show "LoadCA x fs cp kp s' = Inr ca" by (simp add: LoadCA_def)
next
  assume "parsed x cert" "SaveCert x fs cert key cp kp s = (s', None)"
  then show "LoadCert x fs cp kp s' = Inr (cert, key)" by (rule save_load [OF assms(1,2) _ _ assms(3), rotated])
next
  assume "SaveCert x fs cert key cp kp s = (s', None)" "\<not> same cp q" "\<not> same kp q"
  then show "f_ReadFile fs q s' = f_ReadFile fs q s" by (rule SaveCert_other [OF assms(2)])
qed

section \<open>What gencerts leaves behind\<close>

text \<open>The files of a role hold a certificate for the role, issued by the authority, and its key, as PEM blocks of
  the kinds that the TLS library looks for.\<close>

definition role_ok ::
  "('cert, 'key) x509_lib \<Rightarrow> 's file_system \<Rightarrow> ('cert, 'key) CA \<Rightarrow> string \<Rightarrow> 's \<Rightarrow> cert_options \<Rightarrow> bool" where
  "role_ok x fs ca dir s opts \<longleftrightarrow> (\<exists>cert key serial t1 t2 der kb.
     LoadCert x fs (path_join dir (co_CommonName opts @ ''.crt'')) (path_join dir (co_CommonName opts @ ''.key'')) s = Inr (cert, key) \<and>
     x_CreateCertificate x (cert_template opts serial t1 t2) (Inr (ca_Cert ca)) key (ca_PrivateKey ca) = Some der \<and>
     x_ParseCertificate x der = Some cert \<and> x_MarshalECPrivateKey x key = Some kb \<and>
     f_ReadFile fs (path_join dir (co_CommonName opts @ ''.crt'')) s = Some (x_EncodeToMemory x ''CERTIFICATE'' der) \<and>
     f_ReadFile fs (path_join dir (co_CommonName opts @ ''.key'')) s = Some (x_EncodeToMemory x ''EC PRIVATE KEY'' kb))"

definition role_files :: "cert_options \<Rightarrow> string list" where
  "role_files opts = [co_CommonName opts @ ''.crt'', co_CommonName opts @ ''.key'']"

lemma role_ok_cong:
  "role_ok x fs ca dir s opts \<Longrightarrow> (\<And>n. n \<in> set (role_files opts) \<Longrightarrow> f_ReadFile fs (path_join dir n) s' = f_ReadFile fs (path_join dir n) s) \<Longrightarrow>
   role_ok x fs ca dir s' opts"
  unfolding role_ok_def using LoadCert_cong [of fs "path_join dir (co_CommonName opts @ ''.crt'')" s' s
    "path_join dir (co_CommonName opts @ ''.key'')" x] by (simp add: role_files_def)

lemma make_cert_ok:
  assumes x: "x509_behaves x" and fs: "files_behave same fs" and nl: "no_links same dir" and m: "make_cert x fs ca dir (opts, rn) s = (s', None)"
    and plain: "list_all plain_name (role_files opts)" and ne: "distinct (role_files opts)"
  shows "role_ok x fs ca dir s' opts"
    and "plain_name n \<Longrightarrow> n \<notin> set (role_files opts) \<Longrightarrow> f_ReadFile fs (path_join dir n) s' = f_ReadFile fs (path_join dir n) s"
proof -
  let ?cp = "path_join dir (co_CommonName opts @ ''.crt'')" and ?kp = "path_join dir (co_CommonName opts @ ''.key'')"
  obtain cert key where c: "GenerateCert x rn ca opts = Inr (cert, key)" "SaveCert x fs cert key ?cp ?kp s = (s', None)"
    using m by (auto simp: make_cert_def split: sum.splits prod.splits option.splits)
  have ne: "\<not> same ?kp ?cp" using plain by (intro no_linksD [OF nl]) (simp_all add: role_files_def)
  obtain serial der where g: "x_CreateCertificate x (cert_template opts serial (rn_Now1 rn) (rn_Now2 rn)) (Inr (ca_Cert ca)) key
      (ca_PrivateKey ca) = Some der" "x_ParseCertificate x der = Some cert"
    using c(1) by (auto simp: GenerateCert_Inr)
  obtain kb where "x_MarshalECPrivateKey x key = Some kb" "f_ReadFile fs ?cp s' = Some (x_EncodeToMemory x ''CERTIFICATE'' der)"
      "f_ReadFile fs ?kp s' = Some (x_EncodeToMemory x ''EC PRIVATE KEY'' kb)"
    by (rule save_files [OF x fs c(2) g(2) ne])
  moreover have "LoadCert x fs ?cp ?kp s' = Inr (cert, key)"
    using save_load [OF x fs c(2) _ ne] g(2) by (auto simp: parsed_def)
  ultimately show "role_ok x fs ca dir s' opts" using g unfolding role_ok_def by blast
  show "f_ReadFile fs (path_join dir n) s' = f_ReadFile fs (path_join dir n) s"
    if "plain_name n" "n \<notin> set (role_files opts)"
    using that plain by (intro SaveCert_other [OF fs c(2)] no_linksD [OF nl]) (auto simp: role_files_def)
qed

lemma make_certs_ok:
  assumes x: "x509_behaves x" and fs: "files_behave same fs" and nl: "no_links same dir"
  shows "make_certs x fs ca dir cs s = (s', None) \<Longrightarrow> list_all plain_name (concat (map (role_files \<circ> fst) cs)) \<Longrightarrow>
    distinct (concat (map (role_files \<circ> fst) cs)) \<Longrightarrow>
    (\<forall>c \<in> set cs. role_ok x fs ca dir s' (fst c)) \<and>
    (\<forall>n. plain_name n \<longrightarrow> n \<notin> set (concat (map (role_files \<circ> fst) cs)) \<longrightarrow>
      f_ReadFile fs (path_join dir n) s' = f_ReadFile fs (path_join dir n) s)"
proof (induction cs arbitrary: s)
  case (Cons c cs)
  obtain opts rn where c: "c = (opts, rn)" by (cases c)
  obtain s1 where s1: "make_cert x fs ca dir (opts, rn) s = (s1, None)" "make_certs x fs ca dir cs s1 = (s', None)"
    using Cons.prems(1) c by (auto split: prod.splits option.splits)
  have p: "list_all plain_name (role_files opts)" "distinct (role_files opts)"
      "set (role_files opts) \<inter> set (concat (map (role_files \<circ> fst) cs)) = {}"
    using Cons.prems(2,3) c by auto
  note first = make_cert_ok [OF x fs nl s1(1) p(1,2)]
  note rest = Cons.IH [OF s1(2)]
  have r: "(\<forall>c \<in> set cs. role_ok x fs ca dir s' (fst c)) \<and>
      (\<forall>n. plain_name n \<longrightarrow> n \<notin> set (concat (map (role_files \<circ> fst) cs)) \<longrightarrow>
        f_ReadFile fs (path_join dir n) s' = f_ReadFile fs (path_join dir n) s1)"
    using rest Cons.prems(2,3) by simp
  have "f_ReadFile fs (path_join dir n) s' = f_ReadFile fs (path_join dir n) s1" if "n \<in> set (role_files opts)" for n
  proof -
    have "plain_name n" "n \<notin> set (concat (map (role_files \<circ> fst) cs))" using that p(1,3) by (auto simp: list_all_iff)
    then show ?thesis using r by blast
  qed
  then have "role_ok x fs ca dir s' opts" by (rule role_ok_cong [OF first(1)])
  then show ?case using r first(2) by (auto simp: c)
qed simp

lemma gencerts_run_ok:
  assumes "gencerts_run x fs org dir generateEmbed r0 r1 r2 r3 s = (s', None)"
  obtains s0 ca s1 s2 where "f_MkdirAll fs dir 493 s = (s0, True)" "GenerateCA x r0 org = Inr ca"
    "SaveToFiles x fs ca (path_join dir ''ca.crt'') (path_join dir ''ca.key'') s0 = (s1, None)"
    "make_certs x fs ca dir [(server_options, r1), (client_options, r2), (proxy_options, r3)] s1 = (s2, None)"
    "if generateEmbed then generateEmbedFile fs dir s2 = (s', True) else s' = s2"
  using assms by (auto simp: gencerts_run_def split: prod.splits bool.splits option.splits sum.splits if_splits)

lemma gencerts_leaves:
  assumes x: "x509_behaves x" and fs: "files_behave same fs"
    and nl: "no_links same dir" and run: "gencerts_run x fs org dir generateEmbed r0 r1 r2 r3 s = (s', None)"
  shows "\<exists>ca serial t1 t2 der. LoadCA x fs (path_join dir ''ca.crt'') (path_join dir ''ca.key'') s' = Inr ca \<and>
    x_CreateCertificate x (ca_template org serial t1 t2) (Inl (ca_template org serial t1 t2)) (ca_PrivateKey ca) (ca_PrivateKey ca) =
      Some der \<and> x_ParseCertificate x der = Some (ca_Cert ca) \<and>
    f_ReadFile fs (path_join dir ''ca.crt'') s' = Some (x_EncodeToMemory x ''CERTIFICATE'' der) \<and>
    (\<exists>pem. f_ReadFile fs (path_join dir ''ca.key'') s' = Some pem) \<and>
    role_ok x fs ca dir s' server_options \<and> role_ok x fs ca dir s' client_options \<and> role_ok x fs ca dir s' proxy_options \<and>
    (generateEmbed \<longrightarrow> f_ReadFile fs (path_join dir ''embed.go'') s' = Some (string_bytes embed_content))"
  using run
proof (rule gencerts_run_ok)
  fix s0 ca s1 s2
  assume w: "f_MkdirAll fs dir 493 s = (s0, True)" "GenerateCA x r0 org = Inr ca"
    "SaveToFiles x fs ca (path_join dir ''ca.crt'') (path_join dir ''ca.key'') s0 = (s1, None)"
    "make_certs x fs ca dir [(server_options, r1), (client_options, r2), (proxy_options, r3)] s1 = (s2, None)"
    "if generateEmbed then generateEmbedFile fs dir s2 = (s', True) else s' = s2"
  note opts = server_options_def client_options_def proxy_options_def role_files_def plain_name_def
  obtain serial der where ca: "x_CreateCertificate x (ca_template org serial (rn_Now1 r0) (rn_Now2 r0))
      (Inl (ca_template org serial (rn_Now1 r0) (rn_Now2 r0))) (ca_PrivateKey ca) (ca_PrivateKey ca) = Some der"
      "x_ParseCertificate x der = Some (ca_Cert ca)"
    using w(2) by (auto simp: GenerateCA_def Let_def split: option.splits)
  have plain: "plain_name ''ca.crt''" "plain_name ''ca.key''" "plain_name ''embed.go''" by (simp_all add: plain_name_def)
  have certs: "\<forall>c \<in> set [(server_options, r1), (client_options, r2), (proxy_options, r3)]. role_ok x fs ca dir s2 (fst c)"
      "f_ReadFile fs (path_join dir ''ca.crt'') s2 = f_ReadFile fs (path_join dir ''ca.crt'') s1"
      "f_ReadFile fs (path_join dir ''ca.key'') s2 = f_ReadFile fs (path_join dir ''ca.key'') s1"
    using make_certs_ok [OF x fs nl w(4)] by (simp_all add: opts)
  have emb: "f_ReadFile fs (path_join dir n) s' = f_ReadFile fs (path_join dir n) s2" if "plain_name n" "n \<noteq> ''embed.go''" for n
    using w(5) files_behaveD(2) [OF fs, of "path_join dir ''embed.go''" _ _ s2 s' "path_join dir n"] that plain(3)
      no_linksD [OF nl plain(3), of n]
    by (cases generateEmbed) (auto simp: generateEmbedFile_def)
  have roles: "role_ok x fs ca dir s' opts" if "role_ok x fs ca dir s2 opts" "list_all (\<lambda>n. plain_name n \<and> n \<noteq> ''embed.go'') (role_files opts)" for opts
    using that(2) by (intro role_ok_cong [OF that(1)] emb) (auto simp: list_all_iff)
  have apart: "\<not> same (path_join dir ''ca.key'') (path_join dir ''ca.crt'')" using plain by (simp add: no_linksD [OF nl])
  obtain kb where "f_ReadFile fs (path_join dir ''ca.crt'') s1 = Some (x_EncodeToMemory x ''CERTIFICATE'' der)"
      "f_ReadFile fs (path_join dir ''ca.key'') s1 = Some (x_EncodeToMemory x ''EC PRIVATE KEY'' kb)"
    using save_files [OF x fs w(3) [unfolded SaveToFiles_def] ca(2) apart] by metis
  then have pem: "f_ReadFile fs (path_join dir ''ca.crt'') s' = Some (x_EncodeToMemory x ''CERTIFICATE'' der)"
      "\<exists>pem. f_ReadFile fs (path_join dir ''ca.key'') s' = Some pem"
    using certs(2,3) emb plain by simp_all
  from apart have "LoadCert x fs (path_join dir ''ca.crt'') (path_join dir ''ca.key'') s1 = Inr (ca_Cert ca, ca_PrivateKey ca)"
    using save_load [OF x fs] w(3) ca(2) unfolding SaveToFiles_def parsed_def by blast
  then have "LoadCert x fs (path_join dir ''ca.crt'') (path_join dir ''ca.key'') s' = Inr (ca_Cert ca, ca_PrivateKey ca)"
    using LoadCert_cong [of fs "path_join dir ''ca.crt''" s' s1 "path_join dir ''ca.key''" x] certs(2,3) emb plain by simp
  then have "LoadCA x fs (path_join dir ''ca.crt'') (path_join dir ''ca.key'') s' = Inr ca" by (simp add: LoadCA_def)
  moreover have "role_ok x fs ca dir s' server_options \<and> role_ok x fs ca dir s' client_options \<and> role_ok x fs ca dir s' proxy_options"
    using certs(1) by (auto intro!: roles) (simp_all add: opts)
  moreover have "generateEmbed \<longrightarrow> f_ReadFile fs (path_join dir ''embed.go'') s' = Some (string_bytes embed_content)"
    using w(5) files_behaveD(1) [OF fs] by (auto simp: generateEmbedFile_def)
  ultimately show ?thesis using ca pem by blast
qed

text \<open>C39: What a successful run of gencerts leaves in its directory, provided that no two names in it, whatever
  it is called, are links to one file. The authority, the server, the client and the proxy can be loaded; the authority's certificate is made
  for its own template, the others are issued by it, for server authentication with the names the
  programs connect to, and for client authentication; and the file to embed is there.\<close>

theorem gencerts_complete:
  assumes x: "x509_behaves x" and fs: "files_behave same fs"
    and nl: "no_links same dir" and run: "gencerts_run x fs org dir generateEmbed r0 r1 r2 r3 s = (s', None)"
  shows "\<exists>ca serial t1 t2 der. LoadCA x fs (path_join dir ''ca.crt'') (path_join dir ''ca.key'') s' = Inr ca \<and>
    x_CreateCertificate x (ca_template org serial t1 t2) (Inl (ca_template org serial t1 t2)) (ca_PrivateKey ca) (ca_PrivateKey ca) =
      Some der \<and> x_ParseCertificate x der = Some (ca_Cert ca) \<and>
    f_ReadFile fs (path_join dir ''ca.crt'') s' = Some (x_EncodeToMemory x ''CERTIFICATE'' der) \<and>
    (\<exists>pem. f_ReadFile fs (path_join dir ''ca.key'') s' = Some pem) \<and>
    role_ok x fs ca dir s' server_options \<and> role_ok x fs ca dir s' client_options \<and> role_ok x fs ca dir s' proxy_options \<and>
    (generateEmbed \<longrightarrow> f_ReadFile fs (path_join dir ''embed.go'') s' = Some (string_bytes embed_content))"
  by (rule gencerts_leaves [OF assms])

text \<open>A library whose certificates are the names of their templates, keys that are numbers, and files in a map.\<close>

definition pem_escape :: "string \<Rightarrow> byte list" where
  "pem_escape t = concat (map (\<lambda>b. [1, b]) (string_bytes t))"

fun pem_unescape :: "byte list \<Rightarrow> (string \<times> byte list) option" where
  "pem_unescape (h # c # rest) =
     (if h = 0 then Some ('''', c # rest) else map_option (apfst (Cons (char_of (unat c)))) (pem_unescape rest))"
| "pem_unescape [h] = (if h = 0 then Some ('''', []) else None)"
| "pem_unescape [] = None"

lemma char_of_byte: "char_of (unat (of_nat (of_char c) :: byte)) = c"
proof -
  have "of_char c < (256 :: nat)" by simp
  then have "unat (of_nat (of_char c) :: byte) = of_char c" by (simp add: unat_of_nat)
  then show ?thesis by simp
qed

lemma pem_unescape_escape: "pem_unescape (pem_escape t @ 0 # b) = Some (t, b)"
proof (induction t)
  case Nil
  then show ?case by (cases b) (simp_all add: pem_escape_def string_bytes_def)
qed (simp add: pem_escape_def string_bytes_def char_of_byte)

definition sample_x509 :: "(byte list, nat) x509_lib" where
  "sample_x509 = \<lparr>x_CreateCertificate = (\<lambda>t parent key signer. Some (string_bytes (tp_CommonName t))), x_ParseCertificate = Some,
     x_Raw = id, x_MarshalECPrivateKey = (\<lambda>k. Some (replicate k 1)), x_ParseECPrivateKey = (\<lambda>b. Some (length b)),
     x_EncodeToMemory = (\<lambda>t b. pem_escape t @ 0 # b), x_Decode = pem_unescape\<rparr>"

definition sample_files :: "(string \<Rightarrow> byte list option) file_system" where
  "sample_files = \<lparr>f_WriteFile = (\<lambda>p b m s. (s(p \<mapsto> b), True)), f_ReadFile = (\<lambda>p s. s p), f_MkdirAll = (\<lambda>p m s. (s, True))\<rparr>"

lemma samples_behave:
  "x509_behaves sample_x509" "files_behave (=) sample_files" "no_links (=) dir"
  by (simp_all add: x509_behaves_def sample_x509_def pem_unescape_escape files_behave_def sample_files_def no_links_def
    path_join_inject)

theorem certs_roundtrip_witness:
  "LoadCert sample_x509 sample_files ''c.crt'' ''c.key''
     (fst (SaveCert sample_x509 sample_files [1, 2] 5 ''c.crt'' ''c.key'' Map.empty)) = Inr ([1, 2], 5)"
proof -
  have "snd (SaveCert sample_x509 sample_files [1, 2] 5 ''c.crt'' ''c.key'' Map.empty) = None"
    by (simp add: SaveCert_def sample_x509_def sample_files_def Let_def)
  moreover have "parsed sample_x509 [1, 2]" by (simp add: parsed_def sample_x509_def)
  ultimately show ?thesis
    using certs_roundtrip [OF samples_behave(1,2), of "''c.key''" "''c.crt''" "[1, 2]" 5 Map.empty]
    by (cases "SaveCert sample_x509 sample_files [1, 2] 5 ''c.crt'' ''c.key'' Map.empty") auto
qed

theorem gencerts_complete_witness:
  "\<exists>s' ca. gencerts_run sample_x509 sample_files ''Org'' ''out/certs'' True \<lparr>rn_Key = Some 1, rn_Serial = Some 7, rn_Now1 = 0, rn_Now2 = 1\<rparr>
       \<lparr>rn_Key = Some 2, rn_Serial = Some 8, rn_Now1 = 0, rn_Now2 = 1\<rparr> \<lparr>rn_Key = Some 3, rn_Serial = Some 9, rn_Now1 = 0, rn_Now2 = 1\<rparr>
       \<lparr>rn_Key = Some 4, rn_Serial = Some 10, rn_Now1 = 0, rn_Now2 = 1\<rparr> Map.empty = (s', None) \<and>
     role_ok sample_x509 sample_files ca ''out/certs'' s' proxy_options"
proof -
  let ?run = "gencerts_run sample_x509 sample_files ''Org'' ''out/certs'' True \<lparr>rn_Key = Some 1, rn_Serial = Some 7, rn_Now1 = 0, rn_Now2 = 1\<rparr>
       \<lparr>rn_Key = Some 2, rn_Serial = Some 8, rn_Now1 = 0, rn_Now2 = 1\<rparr> \<lparr>rn_Key = Some 3, rn_Serial = Some 9, rn_Now1 = 0, rn_Now2 = 1\<rparr>
       \<lparr>rn_Key = Some 4, rn_Serial = Some 10, rn_Now1 = 0, rn_Now2 = 1\<rparr> Map.empty"
  have "snd ?run = None"
    by (simp add: gencerts_run_def GenerateCA_def SaveToFiles_def SaveCert_def make_cert_def GenerateCert_def generateEmbedFile_def
      sample_x509_def sample_files_def Let_def del: fun_upd_apply)
  then obtain s' where "?run = (s', None)" by (metis prod.collapse)
  then show ?thesis using gencerts_complete [OF samples_behave, of "''Org''" "''out/certs''" True] by blast
qed

end
