(* ===== verification/CommandLine.thy ===== *)
theory CommandLine
  imports Commands Certs
begin

text \<open>
  \<open>main\<close> of the four commands: the command with its flags, the version command, and what is done with what
  cobra makes of the arguments. Cobra is a parameter; what its documentation says of flags is a hypothesis.
\<close>

section \<open>Commands and flags\<close>

datatype flag_value = FlagString string | FlagInt int | FlagBool bool

record flag =
  fl_Name :: string
  fl_Shorthand :: string
  fl_Default :: flag_value
  fl_Usage :: string

record subcommand =
  sub_Use :: string
  sub_Short :: string
  sub_Flags :: "flag list"

record command =
  cmd_Use :: string
  cmd_Short :: string
  cmd_Version :: string
  cmd_Flags :: "flag list"
  cmd_Commands :: "subcommand list"

definition string_flag :: "string \<Rightarrow> string \<Rightarrow> string \<Rightarrow> string \<Rightarrow> flag" where
  "string_flag name short val usage =
     \<lparr>fl_Name = name, fl_Shorthand = short, fl_Default = FlagString val, fl_Usage = usage\<rparr>"

definition versionCmd :: subcommand where
  "versionCmd = \<lparr>sub_Use = ''version'', sub_Short = ''Print version information'',
     sub_Flags = [\<lparr>fl_Name = ''json'', fl_Shorthand = '''', fl_Default = FlagBool False, fl_Usage = ''Output version info as JSON''\<rparr>]\<rparr>"

definition config_flag :: flag where
  "config_flag = string_flag ''config'' ''c'' '''' ''Config file (yaml/json/.env)''"

definition client_rootCmd :: "build \<Rightarrow> command" where
  "client_rootCmd b = \<lparr>cmd_Use = ''client'',
     cmd_Short = ''Network tunneler client - intercepts and forwards traffic to server'', cmd_Version = version_Short b,
     cmd_Flags = [config_flag, string_flag ''server'' '''' '''' ''Server address (overrides config)'',
       string_flag ''cidr'' '''' '''' ''Target CIDR to intercept (overrides config)'',
       \<lparr>fl_Name = ''port'', fl_Shorthand = '''', fl_Default = FlagInt 0, fl_Usage = ''Local listen port (overrides config)''\<rparr>],
     cmd_Commands = [versionCmd]\<rparr>"

definition proxy_rootCmd :: "build \<Rightarrow> command" where
  "proxy_rootCmd b = \<lparr>cmd_Use = ''proxy'',
     cmd_Short = ''Network tunneler proxy - forwards traffic to internal network'', cmd_Version = version_Short b,
     cmd_Flags = [config_flag, string_flag ''server'' '''' '''' ''Server address (overrides config)'',
       string_flag ''id'' '''' '''' ''Proxy ID (overrides config)''],
     cmd_Commands = [versionCmd]\<rparr>"

definition server_rootCmd :: "build \<Rightarrow> command" where
  "server_rootCmd b = \<lparr>cmd_Use = ''server'',
     cmd_Short = ''Network tunneler server - central relay for clients and proxys'', cmd_Version = version_Short b,
     cmd_Flags = [config_flag, string_flag ''cert'' '''' '''' ''TLS certificate file (overrides config and embedded cert)'',
       string_flag ''key'' '''' '''' ''TLS key file (overrides config and embedded key)'',
       string_flag ''ca'' '''' '''' ''CA certificate file (overrides config and embedded CA)''],
     cmd_Commands = [versionCmd]\<rparr>"

definition gencerts_rootCmd :: command where
  "gencerts_rootCmd = \<lparr>cmd_Use = ''gencerts'', cmd_Short = ''Generate TLS certificates for network tunneler'', cmd_Version = '''',
     cmd_Flags = [string_flag ''org'' '''' ''Network Tunneler'' ''Organization name'',
       string_flag ''output'' '''' ''internal/certs'' ''Output directory for certificates'',
       \<lparr>fl_Name = ''embed'', fl_Shorthand = '''', fl_Default = FlagBool True,
        fl_Usage = ''Generate Go file with embedded certificates''\<rparr>],
     cmd_Commands = []\<rparr>"

section \<open>main\<close>

text \<open>What cobra does with the arguments: it runs the command or a command below it, with the values of the flags;
  it prints the help or the version; or it refuses them.\<close>

datatype parsed =
    RunRoot "string \<rightharpoonup> flag_value"
  | RunCommand string "string \<rightharpoonup> flag_value"
  | Shown string
  | Refused string

type_synonym cobra = "command \<Rightarrow> string list \<Rightarrow> parsed"

text \<open>The variables that the flags are bound to, and \<open>GetBool\<close>.\<close>

definition flag_string :: "(string \<rightharpoonup> flag_value) \<Rightarrow> string \<Rightarrow> string" where
  "flag_string vs name = (case vs name of Some (FlagString s) \<Rightarrow> s | _ \<Rightarrow> '''')"

definition flag_int :: "(string \<rightharpoonup> flag_value) \<Rightarrow> string \<Rightarrow> int" where
  "flag_int vs name = (case vs name of Some (FlagInt i) \<Rightarrow> i | _ \<Rightarrow> 0)"

definition flag_bool :: "(string \<rightharpoonup> flag_value) \<Rightarrow> string \<Rightarrow> bool" where
  "flag_bool vs name = (case vs name of Some (FlagBool b) \<Rightarrow> b | _ \<Rightarrow> False)"

datatype 'e main_output = Printed string | Logged "'e log_output list" | Usage string

definition command_main ::
  "build \<Rightarrow> cobra \<Rightarrow> command \<Rightarrow> ((string \<rightharpoonup> flag_value) \<Rightarrow> 'a \<Rightarrow> 'a \<times> exit_status \<times> 'e log_output list) \<Rightarrow> string list \<Rightarrow> 'a \<Rightarrow>
   'a \<times> exit_status \<times> 'e main_output" where
  "command_main b cobra rootCmd run args a =
     (case cobra rootCmd args of
        RunRoot vs \<Rightarrow> (let (a, status, out) = run vs a in (a, status, Logged out))
      | RunCommand name vs \<Rightarrow> (a, Exit 0, Printed (version_command b (flag_bool vs ''json'')))
      | Shown text \<Rightarrow> (a, Exit 0, Printed text)
      | Refused text \<Rightarrow> (a, Exit 1, Usage text))"

definition client_flags_of :: "(string \<rightharpoonup> flag_value) \<Rightarrow> client_flags" where
  "client_flags_of vs = \<lparr>cf_config = flag_string vs ''config'', cf_server = flag_string vs ''server'',
     cf_cidr = flag_string vs ''cidr'', cf_port = flag_int vs ''port''\<rparr>"

definition proxy_flags_of :: "(string \<rightharpoonup> flag_value) \<Rightarrow> proxy_flags" where
  "proxy_flags_of vs = \<lparr>pf_config = flag_string vs ''config'', pf_server = flag_string vs ''server'', pf_id = flag_string vs ''id''\<rparr>"

definition server_flags_of :: "(string \<rightharpoonup> flag_value) \<Rightarrow> server_flags" where
  "server_flags_of vs = \<lparr>sf_config = flag_string vs ''config'', sf_cert = flag_string vs ''cert'',
     sf_key = flag_string vs ''key'', sf_ca = flag_string vs ''ca''\<rparr>"

text \<open>The container is made for the flags.\<close>

definition client_main where
  "client_main b cobra app serve =
     command_main b cobra (client_rootCmd b) (\<lambda>vs. client_run (app (client_flags_of vs)) serve)"

definition proxy_main where
  "proxy_main b cobra app serve =
     command_main b cobra (proxy_rootCmd b) (\<lambda>vs. proxy_run (app (proxy_flags_of vs)) serve)"

definition server_main where
  "server_main b cobra app serve =
     command_main b cobra (server_rootCmd b) (\<lambda>vs. server_run (app (server_flags_of vs)) serve)"

definition gencerts_main where
  "gencerts_main cobra x fs r0 r1 r2 r3 args s =
     (case cobra gencerts_rootCmd args of
        RunRoot vs \<Rightarrow>
          (case gencerts_run x fs (flag_string vs ''org'') (flag_string vs ''output'') (flag_bool vs ''embed'') r0 r1 r2 r3 s of
             (s, None) \<Rightarrow> (s, Exit 0)
           | (s, Some e) \<Rightarrow> (s, Exit 1))
      | Refused text \<Rightarrow> (s, Exit 1)
      | _ \<Rightarrow> (s, Exit 0))"

section \<open>What cobra promises\<close>

text \<open>Flags that are not given have their defaults, \<open>--name value\<close> sets one, the last one of a name counts, and \<open>--name\<close>
  alone sets a flag that is true or false.\<close>

definition defaults :: "flag list \<Rightarrow> string \<rightharpoonup> flag_value" where
  "defaults fls = map_of (map (\<lambda>f. (fl_Name f, fl_Default f)) fls)"

text \<open>An integer has to fit.\<close>

fun same_kind :: "flag_value \<Rightarrow> flag_value \<Rightarrow> bool" where
  "same_kind (FlagString s) (FlagString t) = True"
| "same_kind (FlagInt i) (FlagInt j) = (- (2 ^ 63) \<le> i \<and> i < 2 ^ 63)"
| "same_kind _ _ = False"

definition assignable :: "flag list \<Rightarrow> string \<times> flag_value \<Rightarrow> bool" where
  "assignable fls = (\<lambda>(name, v). case defaults fls name of None \<Rightarrow> False | Some d \<Rightarrow> same_kind v d)"

fun flag_args :: "string \<times> flag_value \<Rightarrow> string list" where
  "flag_args (name, FlagString s) = [''--'' @ name, s]"
| "flag_args (name, FlagInt i) = [''--'' @ name, fmt_d i]"
| "flag_args (name, FlagBool b) = [''--'' @ name]"

definition assigned :: "flag list \<Rightarrow> (string \<times> flag_value) list \<Rightarrow> string \<rightharpoonup> flag_value" where
  "assigned fls kvs = foldl (\<lambda>vs (name, v). vs(name \<mapsto> v)) (defaults fls) kvs"

definition cobra_behaves :: "cobra \<Rightarrow> command \<Rightarrow> bool" where
  "cobra_behaves cobra cmd \<longleftrightarrow>
     (\<forall>kvs. list_all (assignable (cmd_Flags cmd)) kvs \<longrightarrow>
        cobra cmd (concat (map flag_args kvs)) = RunRoot (assigned (cmd_Flags cmd) kvs)) \<and>
     (\<forall>sub. sub \<in> set (cmd_Commands cmd) \<longrightarrow>
        cobra cmd [sub_Use sub] = RunCommand (sub_Use sub) (defaults (sub_Flags sub)) \<and>
        (\<forall>name. defaults (sub_Flags sub) name = Some (FlagBool False) \<longrightarrow>
           cobra cmd [sub_Use sub, ''--'' @ name] = RunCommand (sub_Use sub) ((defaults (sub_Flags sub))(name \<mapsto> FlagBool True))))"

section \<open>Properties\<close>

lemmas rootCmd_simps = client_rootCmd_def proxy_rootCmd_def server_rootCmd_def gencerts_rootCmd_def versionCmd_def config_flag_def
  string_flag_def

lemma cobra_runs:
  assumes "cobra_behaves cobra cmd" "list_all (assignable (cmd_Flags cmd)) kvs"
  shows "command_main b cobra cmd run (concat (map flag_args kvs)) a =
    (let (a, status, out) = run (assigned (cmd_Flags cmd) kvs) a in (a, status, Logged out))"
  using assms by (simp add: cobra_behaves_def command_main_def)

lemma cobra_version:
  assumes "cobra_behaves cobra cmd" "versionCmd \<in> set (cmd_Commands cmd)"
  shows "command_main b cobra cmd run [''version''] a = (a, Exit 0, Printed (version_command b False))"
    "command_main b cobra cmd run [''version'', ''--json''] a = (a, Exit 0, Printed (version_command b True))"
proof -
  have flags: "defaults (sub_Flags versionCmd) ''json'' = Some (FlagBool False)" by (simp add: defaults_def versionCmd_def)
  have use: "sub_Use versionCmd = ''version''" by (simp add: versionCmd_def)
  from flags have "cobra cmd [sub_Use versionCmd] = RunCommand (sub_Use versionCmd) (defaults (sub_Flags versionCmd))"
    "cobra cmd [sub_Use versionCmd, ''--'' @ ''json''] =
       RunCommand (sub_Use versionCmd) ((defaults (sub_Flags versionCmd))(''json'' \<mapsto> FlagBool True))"
    using assms unfolding cobra_behaves_def by blast+
  then show "command_main b cobra cmd run [''version''] a = (a, Exit 0, Printed (version_command b False))"
    "command_main b cobra cmd run [''version'', ''--json''] a = (a, Exit 0, Printed (version_command b True))"
    using flags use by (simp_all add: command_main_def flag_bool_def)
qed

text \<open>The client's flags reach its settings, and only they do. The command runs with the values given, in any number and order,
  the last of each name, and with no value for the others; without arguments the configuration stays as it was
  loaded.\<close>

theorem client_command_line:
  assumes "cobra_behaves cobra (client_rootCmd b)" "list_all (assignable (cmd_Flags (client_rootCmd b))) kvs"
  shows "client_main b cobra app serve (concat (map flag_args kvs)) a =
      (let (a, status, out) = client_run (app (client_flags_of (assigned (cmd_Flags (client_rootCmd b)) kvs))) serve a
       in (a, status, Logged out)) \<and>
    client_applyOverrides (client_flags_of (assigned (cmd_Flags (client_rootCmd b)) [])) cfg = cfg \<and>
    client_main b cobra app serve [''version''] a = (a, Exit 0, Printed (version_command b False)) \<and>
    client_main b cobra app serve [''version'', ''--json''] a = (a, Exit 0, Printed (version_command b True))"
proof (intro conjI)
  show "client_applyOverrides (client_flags_of (assigned (cmd_Flags (client_rootCmd b)) [])) cfg = cfg"
    by (simp add: client_applyOverrides_def client_flags_of_def assigned_def defaults_def rootCmd_simps flag_string_def flag_int_def)
qed (use cobra_runs [OF assms] cobra_version [OF assms(1)] in
    \<open>simp_all add: client_main_def client_rootCmd_def\<close>)

text \<open>The commands of the server and the proxy without arguments run with their configurations as loaded.\<close>

lemma no_arguments_no_overrides:
  "applyTLSOverrides (server_flags_of (assigned (cmd_Flags (server_rootCmd b)) [])) scfg = scfg"
  "proxy_applyOverrides (proxy_flags_of (assigned (cmd_Flags (proxy_rootCmd b)) [])) pcfg = pcfg"
  by (simp_all add: applyTLSOverrides_def proxy_applyOverrides_def server_flags_of_def proxy_flags_of_def assigned_def
    defaults_def rootCmd_simps flag_string_def)


text \<open>A parser for the flags of the programs that does what is promised.\<close>

fun parse_flags :: "flag list \<Rightarrow> (string \<rightharpoonup> flag_value) \<Rightarrow> string list \<Rightarrow> (string \<rightharpoonup> flag_value) option" where
  "parse_flags fls vs [] = Some vs"
| "parse_flags fls vs [arg] = None"
| "parse_flags fls vs (arg # t # rest) =
     (case defaults fls (drop 2 arg) of
        Some (FlagString s) \<Rightarrow> parse_flags fls (vs(drop 2 arg \<mapsto> FlagString t)) rest
      | Some (FlagInt i) \<Rightarrow>
          (case atoi t of None \<Rightarrow> None | Some j \<Rightarrow> parse_flags fls (vs(drop 2 arg \<mapsto> FlagInt j)) rest)
      | _ \<Rightarrow> None)"

definition sample_cobra :: cobra where
  "sample_cobra cmd args =
     (if args = [''version''] then RunCommand ''version'' (defaults (sub_Flags versionCmd))
      else if args = [''version'', ''--json''] then RunCommand ''version'' ((defaults (sub_Flags versionCmd))(''json'' \<mapsto> FlagBool True))
      else case parse_flags (cmd_Flags cmd) (defaults (cmd_Flags cmd)) args of None \<Rightarrow> Refused '''' | Some vs \<Rightarrow> RunRoot vs)"

lemma parse_flag_args:
  "list_all (assignable fls) kvs \<Longrightarrow>
   parse_flags fls vs (concat (map flag_args kvs)) = Some (foldl (\<lambda>vs (name, v). vs(name \<mapsto> v)) vs kvs)"
proof (induction kvs arbitrary: vs)
  case (Cons kv kvs)
  obtain name v where kv: "kv = (name, v)" by (cases kv)
  then obtain d where d: "defaults fls name = Some d" "same_kind v d"
    using Cons.prems by (auto simp: assignable_def split: option.splits)
  then show ?case using Cons kv atoi_fmt_d by (cases "(v, d)" rule: same_kind.cases) (auto simp del: fun_upd_apply)
qed simp

lemma sample_cobra_behaves: "cmd_Commands cmd = [versionCmd] \<Longrightarrow> cobra_behaves sample_cobra cmd"
proof -
  assume cmd: "cmd_Commands cmd = [versionCmd]"
  have "concat (map flag_args kvs) \<noteq> ''version'' # rest" for kvs rest
  proof (cases kvs)
    case (Cons kv kvs')
    then show ?thesis by (cases kv rule: flag_args.cases) auto
  qed simp
  moreover have "defaults (sub_Flags versionCmd) name = Some d \<Longrightarrow> name = ''json''" for name d
    by (auto simp: defaults_def versionCmd_def split: if_splits)
  moreover have "sub_Use versionCmd = ''version''" by (simp add: versionCmd_def)
  ultimately show ?thesis
    using cmd by (auto simp: cobra_behaves_def sample_cobra_def parse_flag_args assigned_def)
qed

theorem client_command_line_witness:
  "\<exists>out. client_main release_build sample_cobra (\<lambda>f. sample_fx (\<lambda>a. Inl ()) (\<lambda>a. (a, Panic)) (\<lambda>a. (a, None))) id
     [''--server'', ''10.0.0.1:8080'', ''--port'', ''12''] (0 :: nat) = (0, Exit 1, out)"
proof -
  let ?kvs = "[(''server'', FlagString ''10.0.0.1:8080''), (''port'', FlagInt 12)]"
  have args: "concat (map flag_args ?kvs) = [''--server'', ''10.0.0.1:8080'', ''--port'', ''12'']"
    by (simp add: fmt_d_def dec_eval)
  have "list_all (assignable (cmd_Flags (client_rootCmd release_build))) ?kvs"
    by (simp add: assignable_def defaults_def rootCmd_simps)
  moreover have "cobra_behaves sample_cobra (client_rootCmd release_build)"
    by (rule sample_cobra_behaves) (simp add: client_rootCmd_def)
  ultimately show ?thesis
    using client_command_line [of sample_cobra release_build ?kvs
      "\<lambda>f. sample_fx (\<lambda>a. Inl ()) (\<lambda>a. (a, Panic)) (\<lambda>a. (a, None))" id "0 :: nat", THEN conjunct1] unfolding args
    by (simp add: client_run_def command_run_def sample_fx_def)
qed

end
