(* ===== verification/Shutdown.thy ===== *)
theory Shutdown
  imports Commands
begin

text \<open>
  How a running client stops: \<open>start\<close>'s four goroutines (the read and the write loop of \<open>server_conn.go\<close>, the
  accept and the cleanup loop of \<open>client.go\<close>) run beside \<open>stop\<close>, which cancels them one after the other and
  waits for them, \<open>Close\<close> for the first two. A step is one event of one goroutine; the rounds of the handlers
  and of the write loop, on which nothing here depends, are whole.
\<close>

section \<open>The goroutines of the client\<close>

text \<open>A loop is before its check of what stops it, in the call that blocks, or has returned.\<close>

datatype read_loop = LTop | LRecv | LHandling | LDone

datatype write_loop = WSelect | WSending | WDone

datatype accept_loop = ATop | AAccept | ADone

datatype stop_pc = NotStopping | Cancelled | ListenerClosed | ClosingLink | WaitingLoops | Stopped

record 's running_client =
  rc_client :: client
  rc_app :: "'s client_app"
  rc_read :: read_loop
  rc_write :: write_loop
  rc_accept :: accept_loop
  rc_cleanup :: bool
  rc_stop :: stop_pc
  rc_streamEnded :: bool

text \<open>What \<open>start\<close> leaves when it succeeds.\<close>

definition started_client :: "'s client_app \<Rightarrow> 's running_client" where
  "started_client a = \<lparr>rc_client = client_init, rc_app = a, rc_read = LTop, rc_write = WSelect, rc_accept = ATop,
     rc_cleanup = True, rc_stop = NotStopping, rc_streamEnded = False\<rparr>"

text \<open>The events of the loops: the read loop looks at the stop channel, receives a message, delivers it, or
  returns because \<open>Recv\<close> fails; the write loop sends (the flag of the event says with what result) and gets the answer of
  \<open>Send\<close>, or finds the stop channel closed; and so on. \<open>StreamEnds\<close> is the server's, or the network's.\<close>

datatype rc_event =
    ReaderTop
  | ReaderRecv client_message
  | ReaderTouch int
  | ReaderWrite bool
  | ReaderEnds
  | WriterPacket bool
  | WriterHeartbeat string int bool
  | SendReturns
  | WriterStops
  | AcceptTop
  | Accepts nat net_conn int
  | AcceptFails "string option"
  | CleanupTicks int "string list"
  | CleanupStops
  | HandlerReads nat int "byte list"
  | HandlerEnds nat
  | StreamEnds
  | StopCancels
  | StopClosesListener
  | StopClosesLink
  | LinkClosed
  | LoopsDone

text \<open>A step of a loop that works on the state the loops share.\<close>

definition on_client ::
  "(string \<Rightarrow> int option) \<Rightarrow> client_event \<Rightarrow> 's running_client \<Rightarrow> ('s running_client \<Rightarrow> 's running_client) \<Rightarrow> 's running_client option" where
  "on_client services e rc after =
     (case cl_exec services (rc_client rc) e of None \<Rightarrow> None | Some cl \<Rightarrow> Some (after (rc\<lparr>rc_client := cl\<rparr>)))"

text \<open>Where the read loop is after a step of a message's delivery. That \<open>ReaderWrite\<close> can always happen says that a
  write to a local connection returns: \<open>stop\<close> does not close these connections, so an application that never
  reads can hold up the read loop, and \<open>Close\<close> with it, as a silent server does.\<close>

definition after_message :: "'s running_client \<Rightarrow> 's running_client" where
  "after_message rc = rc\<lparr>rc_read := (if cl_reader (rc_client rc) = RIdle then LTop else LHandling)\<rparr>"

fun read_step :: "(string \<Rightarrow> int option) \<Rightarrow> 's running_client \<Rightarrow> rc_event \<Rightarrow> 's running_client option" where
  "read_step services rc ReaderTop =
     (if rc_read rc = LTop
      then Some (rc\<lparr>rc_read := (if lk_stopped (ca_link (rc_app rc)) then LDone else LRecv)\<rparr>) else None)"
| "read_step services rc (ReaderRecv m) =
     (if rc_read rc = LRecv then on_client services (RecvMsg m) rc after_message else None)"
| "read_step services rc (ReaderTouch now) =
     (if rc_read rc = LHandling then on_client services (TouchState now) rc after_message else None)"
| "read_step services rc (ReaderWrite os_ok) =
     (if rc_read rc = LHandling then on_client services (WriteLocal os_ok) rc after_message else None)"
| "read_step services rc ReaderEnds =
     (if rc_read rc = LRecv \<and> rc_streamEnded rc then Some (rc\<lparr>rc_read := LDone\<rparr>) else None)"
| "read_step services rc _ = None"

fun write_step :: "(string \<Rightarrow> int option) \<Rightarrow> 's running_client \<Rightarrow> rc_event \<Rightarrow> 's running_client option" where
  "write_step services rc (WriterPacket ok) =
     (if rc_write rc = WSelect then on_client services (WritePacket ok) rc (\<lambda>rc. rc\<lparr>rc_write := WSending\<rparr>) else None)"
| "write_step services rc (WriterHeartbeat clientID now ok) =
     (if rc_write rc = WSelect
      then on_client services (WriteHeartbeat clientID now ok) rc (\<lambda>rc. rc\<lparr>rc_write := WSending\<rparr>) else None)"
| "write_step services rc SendReturns =
     (if rc_write rc = WSending then Some (rc\<lparr>rc_write := WSelect\<rparr>) else None)"
| "write_step services rc WriterStops =
     (if rc_write rc = WSelect \<and> lk_stopped (ca_link (rc_app rc)) then Some (rc\<lparr>rc_write := WDone\<rparr>) else None)"
| "write_step services rc _ = None"

text \<open>The accept loop and the cleanup loop. Nothing is accepted from a closed listener.\<close>

fun accept_step :: "(string \<Rightarrow> int option) \<Rightarrow> 's running_client \<Rightarrow> rc_event \<Rightarrow> 's running_client option" where
  "accept_step services rc AcceptTop =
     (if rc_accept rc = ATop
      then Some (rc\<lparr>rc_accept := (if ca_cancelled (rc_app rc) then ADone else AAccept)\<rparr>) else None)"
| "accept_step services rc (Accepts c conn now) =
     (if rc_accept rc = AAccept \<and> ca_listener (rc_app rc)
      then on_client services (Accept c conn now) rc (\<lambda>rc. rc\<lparr>rc_accept := ATop\<rparr>) else None)"
| "accept_step services rc (AcceptFails opErr) =
     (if rc_accept rc = AAccept
      then Some (rc\<lparr>rc_accept := (if ca_cancelled (rc_app rc) \<or> opErr = Some ''use of closed network connection''
                             then ADone else ATop)\<rparr>)
      else None)"
| "accept_step services rc (CleanupTicks now order) =
     (if rc_cleanup rc then on_client services (ClientCleanup now order) rc id else None)"
| "accept_step services rc CleanupStops =
     (if rc_cleanup rc \<and> ca_cancelled (rc_app rc) then Some (rc\<lparr>rc_cleanup := False\<rparr>) else None)"
| "accept_step services rc _ = None"

text \<open>The handlers of connections, which nothing stops, and the end of the stream.\<close>

fun other_step :: "(string \<Rightarrow> int option) \<Rightarrow> 's running_client \<Rightarrow> rc_event \<Rightarrow> 's running_client option" where
  "other_step services rc (HandlerReads c now data) = on_client services (ReadData c now data) rc id"
| "other_step services rc (HandlerEnds c) = on_client services (ReadFails c) rc id"
| "other_step services rc StreamEnds = Some (rc\<lparr>rc_streamEnded := True\<rparr>)"
| "other_step services rc _ = None"

text \<open>\<open>stop\<close>, up to each of its two waits. \<open>Close\<close> closes the stop channel and the sending side of the stream,
  and the connection when both loops of the link have returned.\<close>

fun stop_step :: "'s iptables \<Rightarrow> 's running_client \<Rightarrow> rc_event \<Rightarrow> 's running_client option" where
  "stop_step ipt rc StopCancels =
     (if rc_stop rc = NotStopping
      then Some (rc\<lparr>rc_app := (rc_app rc)\<lparr>ca_cancelled := True\<rparr>, rc_stop := Cancelled\<rparr>) else None)"
| "stop_step ipt rc StopClosesListener =
     (if rc_stop rc = Cancelled
      then Some (rc\<lparr>rc_app := (rc_app rc)\<lparr>ca_listener := False\<rparr>, rc_stop := ListenerClosed\<rparr>) else None)"
| "stop_step ipt rc StopClosesLink =
     (if rc_stop rc = ListenerClosed
      then Some (rc\<lparr>rc_app := (rc_app rc)\<lparr>ca_link := (ca_link (rc_app rc))\<lparr>lk_stopped := True, lk_stream := False\<rparr>\<rparr>,
                    rc_stop := ClosingLink\<rparr>) else None)"
| "stop_step ipt rc LinkClosed =
     (if rc_stop rc = ClosingLink \<and> rc_read rc = LDone \<and> rc_write rc = WDone
      then Some (rc\<lparr>rc_app := (rc_app rc)\<lparr>ca_link := (ca_link (rc_app rc))\<lparr>lk_loops := False, lk_conn := False\<rparr>\<rparr>,
                    rc_stop := WaitingLoops\<rparr>) else None)"
| "stop_step ipt rc LoopsDone =
     (if rc_stop rc = WaitingLoops \<and> rc_accept rc = ADone \<and> \<not> rc_cleanup rc
      then let (nf, s, e) = Nf_Cleanup ipt (ca_nf (rc_app rc)) (ca_host (rc_app rc))
           in Some (rc\<lparr>rc_app := (rc_app rc)\<lparr>ca_loops := False, ca_nf := nf, ca_host := s\<rparr>, rc_stop := Stopped\<rparr>)
      else None)"
| "stop_step ipt rc _ = None"

text \<open>\<open>None\<close>: the event cannot happen in this state.\<close>

fun first_some :: "'a option list \<Rightarrow> 'a option" where
  "first_some [] = None"
| "first_some (Some x # xs) = Some x"
| "first_some (None # xs) = first_some xs"

definition rc_exec :: "(string \<Rightarrow> int option) \<Rightarrow> 's iptables \<Rightarrow> 's running_client \<Rightarrow> rc_event \<Rightarrow> 's running_client option" where
  "rc_exec services ipt rc e = first_some [stop_step ipt rc e, read_step services rc e, write_step services rc e,
     accept_step services rc e, other_step services rc e]"

fun rc_run :: "(string \<Rightarrow> int option) \<Rightarrow> 's iptables \<Rightarrow> rc_event list \<Rightarrow> 's running_client \<Rightarrow> 's running_client option" where
  "rc_run services ipt [] rc = Some rc"
| "rc_run services ipt (e # es) rc =
     (case rc_exec services ipt rc e of None \<Rightarrow> None | Some rc' \<Rightarrow> rc_run services ipt es rc')"

inductive rc_reachable :: "(string \<Rightarrow> int option) \<Rightarrow> 's iptables \<Rightarrow> 's client_app \<Rightarrow> 's running_client \<Rightarrow> bool" for services ipt a where
  rc_start: "rc_reachable services ipt a (started_client a)"
| rc_step: "rc_reachable services ipt a rc \<Longrightarrow> rc_exec services ipt rc e = Some rc' \<Longrightarrow> rc_reachable services ipt a rc'"

lemma rc_reachable_run:
  "rc_reachable services ipt a rc \<Longrightarrow> rc_run services ipt es rc = Some rc' \<Longrightarrow> rc_reachable services ipt a rc'"
  by (induction es arbitrary: rc) (auto split: option.splits intro: rc_step)

lemma rc_run_append:
  "rc_run services ipt (es @ es') rc =
    (case rc_run services ipt es rc of None \<Rightarrow> None | Some rc' \<Rightarrow> rc_run services ipt es' rc')"
  by (induction es arbitrary: rc) (auto split: option.split)

lemma first_some_eq: "first_some (x # xs) = (case x of None \<Rightarrow> first_some xs | Some y \<Rightarrow> Some y)"
  by (cases x) simp_all

section \<open>Invariant\<close>

text \<open>How far \<open>stop\<close> has got is all that the application's state depends on.\<close>

fun stopping_app :: "'s iptables \<Rightarrow> 's client_app \<Rightarrow> stop_pc \<Rightarrow> 's client_app" where
  "stopping_app ipt a NotStopping = a"
| "stopping_app ipt a Cancelled = a\<lparr>ca_cancelled := True\<rparr>"
| "stopping_app ipt a ListenerClosed = a\<lparr>ca_cancelled := True, ca_listener := False\<rparr>"
| "stopping_app ipt a ClosingLink = a\<lparr>ca_cancelled := True, ca_listener := False,
     ca_link := (ca_link a)\<lparr>lk_stopped := True, lk_stream := False\<rparr>\<rparr>"
| "stopping_app ipt a WaitingLoops = a\<lparr>ca_cancelled := True, ca_listener := False, ca_link := Close_link (ca_link a)\<rparr>"
| "stopping_app ipt a Stopped = client_stop ipt a"

definition rc_inv :: "'s iptables \<Rightarrow> 's client_app \<Rightarrow> 's running_client \<Rightarrow> bool" where
  "rc_inv ipt a rc \<longleftrightarrow> rc_app rc = stopping_app ipt a (rc_stop rc) \<and>
     (rc_read rc = LHandling \<longleftrightarrow> cl_reader (rc_client rc) \<noteq> RIdle) \<and>
     (rc_stop rc \<in> {WaitingLoops, Stopped} \<longrightarrow> rc_read rc = LDone \<and> rc_write rc = WDone) \<and>
     (rc_stop rc = Stopped \<longrightarrow> rc_accept rc = ADone \<and> \<not> rc_cleanup rc)"


text \<open>A message from the server ends the handling at once or starts a delivery; nothing else moves the reader.\<close>

lemma on_client_cases:
  assumes "on_client services e rc after = Some rc'"
  obtains cl where "cl_exec services (rc_client rc) e = Some cl" "rc' = after (rc\<lparr>rc_client := cl\<rparr>)"
  using assms by (auto simp: on_client_def split: option.splits)

lemma accept_reader: "cl_reader (accept_conn services c conn now cl) = cl_reader cl"
  by (simp add: accept_conn_def split: option.split)

lemma handler_reader:
  "cl_reader (handler_read c h now data cl) = cl_reader cl" "cl_reader (handler_return c h cl) = cl_reader cl"
  by (simp_all add: read_defs handler_return_def Let_def)

lemma cl_exec_reader:
  "cl_exec services cl (Accept c conn now) = Some cl' \<Longrightarrow> cl_reader cl' = cl_reader cl"
  "cl_exec services cl (ReadData c now data) = Some cl' \<Longrightarrow> cl_reader cl' = cl_reader cl"
  "cl_exec services cl (ReadFails c) = Some cl' \<Longrightarrow> cl_reader cl' = cl_reader cl"
  "cl_exec services cl (WritePacket ok) = Some cl' \<Longrightarrow> cl_reader cl' = cl_reader cl"
  "cl_exec services cl (WriteHeartbeat i now ok) = Some cl' \<Longrightarrow> cl_reader cl' = cl_reader cl"
  "cl_exec services cl (ClientCleanup now order) = Some cl' \<Longrightarrow> cl_reader cl' = cl_reader cl"
  by (auto simp: accept_reader handler_reader split: if_splits option.splits list.splits)

text \<open>The kinds of step.\<close>

lemma rc_exec_cases:
  assumes "rc_exec services ipt rc e = Some rc'"
  obtains (stop) "stop_step ipt rc e = Some rc'"
    | (reader) "read_step services rc e = Some rc'"
    | (writer) "write_step services rc e = Some rc'"
    | (loops) "accept_step services rc e = Some rc'"
    | (other) "other_step services rc e = Some rc'"
  using assms by (auto simp: rc_exec_def first_some_eq split: option.splits)

lemma stop_step_inv: "rc_inv ipt a rc \<Longrightarrow> stop_step ipt rc e = Some rc' \<Longrightarrow> rc_inv ipt a rc'"
  by (cases e) (auto simp: rc_inv_def client_stop_def Close_link_def split: if_splits prod.splits)

lemma read_step_inv: "rc_inv ipt a rc \<Longrightarrow> read_step services rc e = Some rc' \<Longrightarrow> rc_inv ipt a rc'"
  by (cases e) (auto simp: rc_inv_def after_message_def simp del: cl_exec.simps elim!: on_client_cases split: if_splits)

text \<open>The other loops leave the reader and the application alone.\<close>

lemma loops_frame:
  assumes "write_step services rc e = Some rc' \<or> accept_step services rc e = Some rc' \<or> other_step services rc e = Some rc'"
  shows "rc_app rc' = rc_app rc" "rc_stop rc' = rc_stop rc" "rc_read rc' = rc_read rc"
    "cl_reader (rc_client rc') = cl_reader (rc_client rc)"
    "rc_write rc = WDone \<Longrightarrow> rc_write rc' = WDone" "rc_accept rc = ADone \<Longrightarrow> rc_accept rc' = ADone"
    "rc_cleanup rc' \<Longrightarrow> rc_cleanup rc"
  using assms by (cases e; auto simp del: cl_exec.simps elim!: on_client_cases dest: cl_exec_reader split: if_splits)+

lemma loops_inv:
  assumes "rc_inv ipt a rc"
    and "write_step services rc e = Some rc' \<or> accept_step services rc e = Some rc' \<or> other_step services rc e = Some rc'"
  shows "rc_inv ipt a rc'"
  using loops_frame [OF assms(2)] assms(1) by (auto simp: rc_inv_def)

lemmas step_inv = stop_step_inv read_step_inv loops_inv

lemma rc_exec_inv: "rc_inv ipt a rc \<Longrightarrow> rc_exec services ipt rc e = Some rc' \<Longrightarrow> rc_inv ipt a rc'"
  by (erule rc_exec_cases) (blast intro: step_inv)+

lemma rc_run_inv: "rc_inv ipt a rc \<Longrightarrow> rc_run services ipt es rc = Some rc' \<Longrightarrow> rc_inv ipt a rc'"
  by (induction es arbitrary: rc) (auto split: option.splits intro: rc_exec_inv)

lemma started_inv: "rc_inv ipt a (started_client a)"
  by (simp add: rc_inv_def started_client_def client_init_def)

lemma rc_reachable_inv: "rc_reachable services ipt a rc \<Longrightarrow> rc_inv ipt a rc"
  by (induction rule: rc_reachable.induct) (auto intro: started_inv rc_exec_inv)

section \<open>The way to the end of a stop\<close>

fun read_steps :: "read_loop \<Rightarrow> reader_pc \<Rightarrow> nat" where
  "read_steps LDone _ = 0"
| "read_steps LTop _ = 1"
| "read_steps LRecv _ = 4"
| "read_steps LHandling (RTouch ref pkt) = 3"
| "read_steps LHandling _ = 2"

definition read_distance :: "'s running_client \<Rightarrow> nat" where
  "read_distance rc = read_steps (rc_read rc) (cl_reader (rc_client rc))"

definition write_distance :: "'s running_client \<Rightarrow> nat" where
  "write_distance rc = (if rc_write rc = WDone then 0 else 1)"

definition accept_distance :: "'s running_client \<Rightarrow> nat" where
  "accept_distance rc = (case rc_accept rc of ADone \<Rightarrow> 0 | ATop \<Rightarrow> 1 | AAccept \<Rightarrow> 2) + (if rc_cleanup rc then 1 else 0)"

fun stop_distance :: "stop_pc \<Rightarrow> nat" where
  "stop_distance Stopped = 0"
| "stop_distance WaitingLoops = 1"
| "stop_distance ClosingLink = 2"
| "stop_distance ListenerClosed = 3"
| "stop_distance Cancelled = 4"
| "stop_distance NotStopping = 5"

definition rc_distance :: "'s running_client \<Rightarrow> nat" where
  "rc_distance rc = read_distance rc + write_distance rc + accept_distance rc + stop_distance (rc_stop rc)"

text \<open>The link's stop channel is closed in the last three phases, the context is done in all but the first.\<close>

definition winding_down :: "'s iptables \<Rightarrow> 's client_app \<Rightarrow> 's running_client \<Rightarrow> bool" where
  "winding_down ipt a rc \<longleftrightarrow> rc_inv ipt a rc \<and> rc_stop rc \<notin> {NotStopping, Cancelled, ListenerClosed}"

lemma winding_down_flags:
  assumes "winding_down ipt a rc"
  shows "lk_stopped (ca_link (rc_app rc))" "ca_cancelled (rc_app rc)" "\<not> ca_listener (rc_app rc)"
  using assms by (cases "rc_stop rc"; simp add: winding_down_def rc_inv_def client_stop_def Close_link_def Let_def
    split: prod.split)+

text \<open>The steps that lead to the end. The others are heartbeats, packets, ticks, and what handlers read.\<close>

fun stopping_event :: "rc_event \<Rightarrow> bool" where
  "stopping_event (WriterPacket ok) = False"
| "stopping_event (WriterHeartbeat clientID now ok) = False"
| "stopping_event SendReturns = False"
| "stopping_event (CleanupTicks now order) = False"
| "stopping_event (HandlerReads c now data) = False"
| "stopping_event (HandlerEnds c) = False"
| "stopping_event StreamEnds = False"
| "stopping_event _ = True"


lemma stop_step_nearer:
  assumes "winding_down ipt a rc" "stop_step ipt rc e = Some rc'"
  shows "winding_down ipt a rc' \<and> stopping_event e \<and> rc_distance rc' < rc_distance rc \<and>
    rc_write rc' = rc_write rc \<and> rc_streamEnded rc' = rc_streamEnded rc"
proof -
  have "rc_inv ipt a rc'" using assms stop_step_inv by (auto simp: winding_down_def)
  then show ?thesis using assms
    by (cases e) (auto simp: winding_down_def rc_distance_def read_distance_def write_distance_def
      accept_distance_def split: if_splits prod.splits)
qed

lemma recv_msg_reader:
  "cl_reader cl = RIdle \<Longrightarrow> cl_reader (recv_msg m cl) = RIdle \<or> (\<exists>ref pkt. cl_reader (recv_msg m cl) = RTouch ref pkt)"
  by (cases m) (auto split: sum.splits)

lemma write_local_reader: "cl_reader (write_local ok ref pkt cl) = RIdle"
  by (simp add: write_local_def split: sum.split prod.split)

lemma read_step_frame:
  assumes "read_step services rc e = Some rc'"
  shows "rc_app rc' = rc_app rc" "rc_stop rc' = rc_stop rc" "rc_write rc' = rc_write rc" "rc_accept rc' = rc_accept rc"
    "rc_cleanup rc' = rc_cleanup rc" "rc_streamEnded rc' = rc_streamEnded rc" "stopping_event e"
  using assms by (cases e; auto simp: after_message_def simp del: cl_exec.simps elim!: on_client_cases split: if_splits)+

lemma read_distance_nearer:
  assumes "lk_stopped (ca_link (rc_app rc))" "read_step services rc e = Some rc'"
  shows "read_distance rc' < read_distance rc"
proof (cases e)
  case (ReaderRecv m)
  then obtain cl where "rc_read rc = LRecv" "cl_reader (rc_client rc) = RIdle" "rc' = after_message (rc\<lparr>rc_client := recv_msg m (rc_client rc)\<rparr>)"
    using assms(2) by (auto elim!: on_client_cases split: if_splits reader_pc.splits)
  then show ?thesis using recv_msg_reader [of "rc_client rc" m] by (auto simp: after_message_def read_distance_def)
qed (use assms in \<open>auto simp: after_message_def read_distance_def write_local_reader elim!: on_client_cases split: if_splits reader_pc.splits\<close>)

lemma read_step_nearer:
  assumes "winding_down ipt a rc" "read_step services rc e = Some rc'"
  shows "winding_down ipt a rc' \<and> stopping_event e \<and> rc_distance rc' < rc_distance rc \<and>
    rc_write rc' = rc_write rc \<and> rc_streamEnded rc' = rc_streamEnded rc"
  using read_step_inv [OF _ assms(2)] assms(1) winding_down_flags(1) [OF assms(1)] read_step_frame [OF assms(2)]
    read_distance_nearer [OF _ assms(2)]
  by (auto simp: winding_down_def rc_distance_def write_distance_def accept_distance_def)

lemma loops_distance:
  assumes "winding_down ipt a rc"
    and "write_step services rc e = Some rc' \<or> accept_step services rc e = Some rc' \<or> other_step services rc e = Some rc'"
  shows "write_distance rc' + accept_distance rc' + of_bool (stopping_event e) \<le> write_distance rc + accept_distance rc"
    "stopping_event e \<Longrightarrow> rc_write rc' = WSending \<Longrightarrow> rc_write rc = WSending"
    "rc_streamEnded rc \<Longrightarrow> rc_streamEnded rc'"
  using assms(2) winding_down_flags [OF assms(1)]
  by (cases e; auto simp: write_distance_def accept_distance_def simp del: cl_exec.simps elim!: on_client_cases
    split: if_splits)+

lemma loops_nearer:
  assumes "winding_down ipt a rc"
    and "write_step services rc e = Some rc' \<or> accept_step services rc e = Some rc' \<or> other_step services rc e = Some rc'"
  shows "winding_down ipt a rc' \<and> rc_distance rc' + of_bool (stopping_event e) \<le> rc_distance rc \<and>
    (stopping_event e \<longrightarrow> rc_write rc' = WSending \<longrightarrow> rc_write rc = WSending) \<and>
    (rc_streamEnded rc \<longrightarrow> rc_streamEnded rc')"
  using loops_inv [OF _ assms(2)] assms(1) loops_frame [OF assms(2)] loops_distance [OF assms]
  by (auto simp: winding_down_def rc_distance_def read_distance_def)

lemma winding_step:
  assumes "winding_down ipt a rc" "rc_exec services ipt rc e = Some rc'"
  shows "winding_down ipt a rc' \<and> rc_distance rc' + of_bool (stopping_event e) \<le> rc_distance rc \<and>
    (stopping_event e \<longrightarrow> rc_write rc' = WSending \<longrightarrow> rc_write rc = WSending) \<and>
    (rc_streamEnded rc \<longrightarrow> rc_streamEnded rc')"
  using assms(2)
proof (cases rule: rc_exec_cases)
  case stop
  then show ?thesis using stop_step_nearer [OF assms(1)] by fastforce
next
  case reader
  then show ?thesis using read_step_nearer [OF assms(1)] by fastforce
qed (use loops_nearer [OF assms(1)] in blast)+

lemma winding_run:
  "winding_down ipt a rc \<Longrightarrow> rc_run services ipt es rc = Some rc' \<Longrightarrow>
   winding_down ipt a rc' \<and> length (filter stopping_event es) + rc_distance rc' \<le> rc_distance rc"
proof (induction es arbitrary: rc)
  case (Cons e es)
  then obtain rc1 where rc1: "rc_exec services ipt rc e = Some rc1" "rc_run services ipt es rc1 = Some rc'"
    by (auto split: option.splits)
  then show ?case using winding_step [OF Cons.prems(1) rc1(1)] Cons.IH [of rc1] by fastforce
qed simp

text \<open>While the stop is not over and the stream is, some goroutine has a step to take.\<close>

lemma exec_some: "rc_exec services ipt rc e \<noteq> None \<Longrightarrow> \<exists>rc'. rc_exec services ipt rc e = Some rc'"
  by simp

lemma winding_progress:
  assumes wd: "winding_down ipt a rc" and "rc_streamEnded rc" "rc_stop rc \<noteq> Stopped" "rc_write rc \<noteq> WSending"
  shows "\<exists>e rc'. stopping_event e \<and> rc_exec services ipt rc e = Some rc'"
proof -
  note flags = winding_down_flags [OF wd]
  have handling: "rc_read rc = LHandling \<Longrightarrow> cl_reader (rc_client rc) \<noteq> RIdle"
    using wd by (auto simp: winding_down_def rc_inv_def)
  have "\<exists>e. stopping_event e \<and> rc_exec services ipt rc e \<noteq> None"
  proof (cases "rc_stop rc = ClosingLink")
    case True
    show ?thesis
    proof (cases "rc_read rc")
      case LTop
      then show ?thesis by (intro exI [of _ ReaderTop]) (simp add: rc_exec_def)
    next
      case LRecv
      then show ?thesis using assms(2) by (intro exI [of _ ReaderEnds]) (simp add: rc_exec_def)
    next
      case LHandling
      show ?thesis
      proof (cases "cl_reader (rc_client rc)")
        case (RTouch ref pkt)
        then show ?thesis using LHandling
          by (intro exI [of _ "ReaderTouch 0"]) (simp add: rc_exec_def on_client_def)
      next
        case (RWrite ref pkt)
        then show ?thesis using LHandling
          by (intro exI [of _ "ReaderWrite True"]) (simp add: rc_exec_def on_client_def)
      qed (use handling LHandling in simp)
    next
      case LDone
      show ?thesis
      proof (cases "rc_write rc = WSelect")
        case True
        then show ?thesis using flags by (intro exI [of _ WriterStops]) (simp add: rc_exec_def)
      next
        case False
        then have "rc_write rc = WDone" using assms(4) by (cases "rc_write rc") simp_all
        then show ?thesis using LDone True by (intro exI [of _ LinkClosed]) (simp add: rc_exec_def)
      qed
    qed
  next
    case False
    then have stop: "rc_stop rc = WaitingLoops" using wd assms(3) by (cases "rc_stop rc") (auto simp: winding_down_def)
    show ?thesis
    proof (cases "rc_accept rc")
      case ATop
      then show ?thesis by (intro exI [of _ AcceptTop]) (simp add: rc_exec_def)
    next
      case AAccept
      then show ?thesis by (intro exI [of _ "AcceptFails None"]) (simp add: rc_exec_def)
    next
      case ADone
      then show ?thesis using stop flags
        by (cases "rc_cleanup rc")
          (auto simp: rc_exec_def split: prod.split intro: exI [of _ CleanupStops] exI [of _ LoopsDone])
    qed
  qed
  then show ?thesis by blast
qed

lemma winding_completes:
  "winding_down ipt a rc \<Longrightarrow> rc_streamEnded rc \<Longrightarrow>
   \<exists>es rc'. length es \<le> rc_distance rc + of_bool (rc_write rc = WSending) \<and> rc_run services ipt es rc = Some rc' \<and>
     rc_stop rc' = Stopped"
proof (induction "2 * rc_distance rc + of_bool (rc_write rc = WSending)" arbitrary: rc rule: less_induct)
  case less
  show ?case
  proof (cases "rc_stop rc = Stopped")
    case True
    then show ?thesis by (intro exI [of _ "[]"] exI [of _ rc]) simp
  next
    case False
    have "\<exists>e rc1. rc_exec services ipt rc e = Some rc1 \<and> winding_down ipt a rc1 \<and> rc_streamEnded rc1 \<and>
        rc_distance rc1 + of_bool (rc_write rc1 = WSending) < rc_distance rc + of_bool (rc_write rc = WSending) \<and>
        2 * rc_distance rc1 + of_bool (rc_write rc1 = WSending) < 2 * rc_distance rc + of_bool (rc_write rc = WSending)"
    proof (cases "rc_write rc = WSending")
      case True
      let ?rc = "rc\<lparr>rc_write := WSelect\<rparr>"
      have "rc_exec services ipt rc SendReturns = Some ?rc" using True by (simp add: rc_exec_def)
      moreover from winding_step [OF less.prems(1) this] have "winding_down ipt a ?rc" "rc_distance ?rc \<le> rc_distance rc" by auto
      ultimately show ?thesis using True less.prems(2) by (intro exI [of _ SendReturns] exI [of _ ?rc]) simp
    next
      case notSending: False
      obtain e rc1 where e: "stopping_event e" "rc_exec services ipt rc e = Some rc1"
        using winding_progress [OF less.prems False notSending] by blast
      then show ?thesis using winding_step [OF less.prems(1) e(2)] less.prems(2) notSending
        by (intro exI [of _ e] exI [of _ rc1]) auto
    qed
    then obtain e rc1 where e: "rc_exec services ipt rc e = Some rc1" "winding_down ipt a rc1" "rc_streamEnded rc1"
        "rc_distance rc1 + of_bool (rc_write rc1 = WSending) < rc_distance rc + of_bool (rc_write rc = WSending)"
        "2 * rc_distance rc1 + of_bool (rc_write rc1 = WSending) < 2 * rc_distance rc + of_bool (rc_write rc = WSending)"
      by blast
    obtain es rc2 where "length es \<le> rc_distance rc1 + of_bool (rc_write rc1 = WSending)"
        "rc_run services ipt es rc1 = Some rc2" "rc_stop rc2 = Stopped"
      using less.hyps [OF e(5,2,3)] by blast
    with e show ?thesis by (intro exI [of _ "e # es"] exI [of _ rc2]) simp
  qed
qed


lemma closing_distance: "rc_stop rc = ClosingLink \<Longrightarrow> rc_distance rc \<le> 10"
proof -
  have "read_steps l r \<le> 4" for l r by (cases "(l, r)" rule: read_steps.cases) simp_all
  then have "read_distance rc \<le> 4" by (simp add: read_distance_def)
  moreover have "write_distance rc \<le> 1" by (simp add: write_distance_def)
  moreover have "accept_distance rc \<le> 3" by (simp add: accept_distance_def split: accept_loop.split)
  ultimately show "rc_stop rc = ClosingLink \<Longrightarrow> rc_distance rc \<le> 10" by (simp add: rc_distance_def)
qed

section \<open>Properties\<close>

text \<open>C16: The client's stop, seen from outside, is the one step \<open>client_stop\<close>. However the four loops, the
  handlers and the stop itself interleave, the host's chains and the manager's rules are those
  of the start until every loop has returned, the connection is open until both loops of the link have, and the state
  the stop leaves is exactly that of the one step.\<close>

theorem client_stop_refines:
  assumes "rc_reachable services ipt a rc"
  shows "(rc_stop rc = Stopped \<longrightarrow> rc_app rc = client_stop ipt a \<and> rc_read rc = LDone \<and> rc_write rc = WDone \<and>
      rc_accept rc = ADone \<and> \<not> rc_cleanup rc) \<and>
    (rc_stop rc \<noteq> Stopped \<longrightarrow> ca_host (rc_app rc) = ca_host a \<and> ca_nf (rc_app rc) = ca_nf a) \<and>
    (lk_conn (ca_link a) \<and> \<not> lk_conn (ca_link (rc_app rc)) \<longrightarrow> rc_read rc = LDone \<and> rc_write rc = WDone)"
  using rc_reachable_inv [OF assms]
  by (cases "rc_stop rc"; simp add: rc_inv_def)

text \<open>A stop of an idle client, from whatever state the start has left.\<close>

definition sample_stop :: "rc_event list" where
  "sample_stop = [ReaderTop, AcceptTop, StopCancels, CleanupStops, StopClosesListener, StopClosesLink,
     WriterStops, AcceptFails None, StreamEnds, ReaderEnds, LinkClosed, LoopsDone]"

lemma sample_stop_runs:
  assumes "\<not> ca_cancelled a" "\<not> lk_stopped (ca_link a)"
  obtains rc where "rc_run services ipt sample_stop (started_client a) = Some rc" "rc_stop rc = Stopped"
  using assms by (cases "Nf_Cleanup ipt (ca_nf a) (ca_host a)")
    (simp add: sample_stop_def rc_exec_def first_some_eq started_client_def)

definition sample_started where
  "sample_started = fst (client_start host_ipt True True None (\<lambda>a. True) (client_DefaultConfig release_build)
     (new_client_app (client_DefaultConfig release_build) (\<lambda>t c. [])))"

lemma client_start_flags:
  "client_start ipt True True None lo cfg (new_client_app cfg s) = (a, r) \<Longrightarrow>
   \<not> ca_cancelled a \<and> \<not> lk_stopped (ca_link a) \<and> lk_conn (ca_link a)"
  by (auto simp: client_start_def client_Connect_def new_client_app_def new_link_def Let_def
    split: outcome.splits prod.splits if_splits)

lemma sample_started_flags:
  "\<not> ca_cancelled sample_started" "\<not> lk_stopped (ca_link sample_started)" "lk_conn (ca_link sample_started)"
  using client_start_flags [of host_ipt "\<lambda>a. True" "client_DefaultConfig release_build" "\<lambda>t c. []"]
  by (simp_all add: sample_started_def prod_eq_iff)

theorem client_stop_refines_witness:
  "\<exists>rc. rc_run no_services host_ipt sample_stop (started_client sample_started) = Some rc \<and>
    rc_app rc = client_stop host_ipt sample_started"
proof -
  obtain rc where "rc_run no_services host_ipt sample_stop (started_client sample_started) = Some rc" "rc_stop rc = Stopped"
    by (rule sample_stop_runs [OF sample_started_flags(1,2)])
  then show ?thesis using client_stop_refines [OF rc_reachable_run [OF rc_start]] by blast
qed

text \<open>C17: A stop of the client ends once the server ends the stream. Its first three steps never wait. After them at most
  ten steps of the loops and of the stop are left, whatever packets, heartbeats, ticks and reads come in between;
  and when the stream has ended there is always a way to the end, of at most eleven steps. A write to a local
  connection that has begun is taken to return.\<close>

theorem client_stop_completes:
  assumes "rc_reachable services ipt a rc0" "rc_stop rc0 = NotStopping"
  shows "\<exists>rc. rc_run services ipt [StopCancels, StopClosesListener, StopClosesLink] rc0 = Some rc \<and>
    (\<forall>es rc1. rc_run services ipt es rc = Some rc1 \<longrightarrow>
       length (filter stopping_event es) \<le> 10 \<and>
       (rc_streamEnded rc1 \<longrightarrow> (\<exists>es' rc2. length es' \<le> 11 \<and> rc_run services ipt es' rc1 = Some rc2 \<and>
          rc_stop rc2 = Stopped \<and> rc_app rc2 = client_stop ipt a)))"
proof -
  obtain rc where rc: "rc_run services ipt [StopCancels, StopClosesListener, StopClosesLink] rc0 = Some rc" "rc_stop rc = ClosingLink"
    using assms(2) by (simp add: rc_exec_def)
  then have wd: "winding_down ipt a rc"
    using rc_run_inv [OF rc_reachable_inv [OF assms(1)] rc(1)] by (simp add: winding_down_def)
  have near: "rc_distance rc \<le> 10" by (rule closing_distance [OF rc(2)])
  have "length (filter stopping_event es) \<le> 10 \<and>
       (rc_streamEnded rc1 \<longrightarrow> (\<exists>es' rc2. length es' \<le> 11 \<and> rc_run services ipt es' rc1 = Some rc2 \<and>
          rc_stop rc2 = Stopped \<and> rc_app rc2 = client_stop ipt a))"
    if run: "rc_run services ipt es rc = Some rc1" for es rc1
  proof -
    have r: "winding_down ipt a rc1" "length (filter stopping_event es) + rc_distance rc1 \<le> 10"
      using winding_run [OF wd run] near by simp_all
    have app: "rc_app rc2 = client_stop ipt a" if "rc_run services ipt es' rc1 = Some rc2" "rc_stop rc2 = Stopped" for es' rc2
      using winding_run [OF r(1) that(1)] that(2) by (simp add: winding_down_def rc_inv_def)
    have "\<exists>es' rc2. length es' \<le> 11 \<and> rc_run services ipt es' rc1 = Some rc2 \<and> rc_stop rc2 = Stopped" if ended: "rc_streamEnded rc1"
    proof -
      obtain es' rc2 where "length es' \<le> rc_distance rc1 + of_bool (rc_write rc1 = WSending)"
          "rc_run services ipt es' rc1 = Some rc2" "rc_stop rc2 = Stopped"
        using winding_completes [OF r(1) ended] by blast
      moreover have "rc_distance rc1 + of_bool (rc_write rc1 = WSending) \<le> 11" using r(2) by auto
      ultimately show ?thesis by (intro exI [of _ es'] exI [of _ rc2]) simp
    qed
    then show ?thesis using r(2) app by auto
  qed
  then show ?thesis using rc(1) by blast
qed

theorem client_stop_completes_witness:
  "\<exists>rc es rc2. rc_run no_services host_ipt [ReaderTop, AcceptTop, StreamEnds, StopCancels, StopClosesListener, StopClosesLink]
      (started_client sample_started) = Some rc \<and> length es \<le> 11 \<and> rc_run no_services host_ipt es rc = Some rc2 \<and>
    rc_stop rc2 = Stopped"
proof -
  obtain rc0 where rc0: "rc_run no_services host_ipt [ReaderTop, AcceptTop, StreamEnds] (started_client sample_started) = Some rc0"
      "rc_stop rc0 = NotStopping" "rc_streamEnded rc0"
    by (simp add: rc_exec_def first_some_eq started_client_def)
  obtain rc where rc: "rc_run no_services host_ipt [StopCancels, StopClosesListener, StopClosesLink] rc0 = Some rc"
      "rc_streamEnded rc"
    and c: "\<forall>es rc1. rc_run no_services host_ipt es rc = Some rc1 \<longrightarrow>
       length (filter stopping_event es) \<le> 10 \<and>
       (rc_streamEnded rc1 \<longrightarrow> (\<exists>es' rc2. length es' \<le> 11 \<and> rc_run no_services host_ipt es' rc1 = Some rc2 \<and>
          rc_stop rc2 = Stopped \<and> rc_app rc2 = client_stop host_ipt sample_started))"
    using client_stop_completes [OF rc_reachable_run [OF rc_start rc0(1)] rc0(2)] rc0(2,3) by (auto simp: rc_exec_def)
  obtain es rc2 where "length es \<le> 11" "rc_run no_services host_ipt es rc = Some rc2" "rc_stop rc2 = Stopped"
    using c [rule_format, of "[]" rc] rc(2) by auto
  moreover have "rc_run no_services host_ipt ([ReaderTop, AcceptTop, StreamEnds] @ [StopCancels, StopClosesListener, StopClosesLink])
      (started_client sample_started) = Some rc"
    unfolding rc_run_append rc0(1) using rc(1) by simp
  ultimately show ?thesis by (intro exI [of _ rc] exI [of _ es] exI [of _ rc2]) simp
qed


text \<open>What the server, or the network, does to the read loop.\<close>

fun server_acts :: "rc_event \<Rightarrow> bool" where
  "server_acts (ReaderRecv m) = True"
| "server_acts StreamEnds = True"
| "server_acts _ = False"

lemma reader_waits_step:
  assumes "rc_exec services ipt rc e = Some rc'" "rc_read rc = LRecv" "\<not> rc_streamEnded rc" "\<not> server_acts e"
  shows "rc_read rc' = LRecv \<and> \<not> rc_streamEnded rc'"
  using assms(1)
proof (cases rule: rc_exec_cases)
  case stop
  then show ?thesis using assms(2,3) by (cases e) (auto split: if_splits prod.splits)
next
  case reader
  then show ?thesis using assms(2-4) by (cases e) (auto split: if_splits)
next
  case writer
  then have "rc_streamEnded rc' = rc_streamEnded rc" by (cases e) (auto simp del: cl_exec.simps elim!: on_client_cases split: if_splits)
  then show ?thesis using writer loops_frame(3) assms(2,3) by metis
next
  case loops
  then have "rc_streamEnded rc' = rc_streamEnded rc" by (cases e) (auto simp del: cl_exec.simps elim!: on_client_cases split: if_splits)
  then show ?thesis using loops loops_frame(3) assms(2,3) by metis
next
  case other
  then have "rc_streamEnded rc' = rc_streamEnded rc" using assms(4)
    by (cases e) (auto simp del: cl_exec.simps elim!: on_client_cases)
  then show ?thesis using other loops_frame(3) assms(2,3) by metis
qed

lemma reader_waits:
  "rc_run services ipt es rc = Some rc' \<Longrightarrow> rc_read rc = LRecv \<Longrightarrow> \<not> rc_streamEnded rc \<Longrightarrow> \<not> list_ex server_acts es \<Longrightarrow>
   rc_read rc' = LRecv"
proof (induction es arbitrary: rc)
  case (Cons e es)
  then show ?case using reader_waits_step [of services ipt rc e] by (auto split: option.splits)
qed simp

text \<open>A container with a deadline for its stop: it starts as \<open>fx_behaves\<close> says, and its \<open>Stop\<close> returns what the hook does in
  the events that happen before the deadline, with the deadline's error when the hook has not returned.\<close>

definition fx_deadline ::
  "('s client_process, 'e) fx_app \<Rightarrow> ('s client_process \<Rightarrow> 'e + 's client_process) \<Rightarrow>
   ('s client_process \<Rightarrow> 's client_process \<times> ('e, unit) outcome) \<Rightarrow> (string \<Rightarrow> int option) \<Rightarrow> 's iptables \<Rightarrow> rc_event list \<Rightarrow> 'e \<Rightarrow> bool" where
  "fx_deadline app provide onStart services ipt es deadline \<longleftrightarrow>
     (\<forall>p. app_Start app p = (case provide p of Inl err \<Rightarrow> (p, Err err) | Inr p' \<Rightarrow> onStart p')) \<and>
     (\<forall>p rc. rc_run services ipt es (started_client (cp_app p)) = Some rc \<longrightarrow>
        app_Stop app p = (p\<lparr>cp_app := rc_app rc\<rparr>, if rc_stop rc = Stopped then None else Some deadline))"

text \<open>C18: The exit status of the client tells whether the host is as it was before. When the stop ends before the
  deadline of the container, the command exits with 0 and every chain of the host is restored; when it does
  not, the command exits with 1 and the redirection is still installed, though nothing serves it any more.
  And it does not whenever the read loop is in \<open>Recv\<close> and the server neither answers nor ends the
  stream, because the wait of \<open>Close\<close> comes before the cleanup and has no limit of its own.\<close>

theorem stop_deadline_leaves_rule:
  assumes ready: "client_ready ipt view accepts (Inr (cfg, tls)) p"
    and start: "client_start ipt n st reg lo cfg (new_client_app cfg (ca_host (cp_app p))) = (a, Ok ())"
    and fx: "fx_deadline app (client_provide (Inr (cfg, tls))) (client_onStart ipt n st reg lo) services ipt (es @ es') deadline"
    and run: "rc_run services ipt es (started_client a) = Some rc" "rc_run services ipt es' rc = Some rc'"
    and cmd: "client_run app id p = (p', status, out)"
  shows "status = (if rc_stop rc' = Stopped then Exit 0 else Exit 1) \<and>
    (status = Exit 0 \<longrightarrow> view (ca_host (cp_app p')) = view (ca_host (cp_app p))) \<and>
    (status = Exit 1 \<longrightarrow> installed view (ca_host (cp_app p')) (redirect_rule (ca_nf (cp_app p')))) \<and>
    (rc_read rc = LRecv \<and> \<not> rc_streamEnded rc \<and> \<not> list_ex server_acts es' \<longrightarrow> status = Exit 1)"
proof -
  let ?p = "\<lparr>cp_cfg = cfg, cp_app = a\<rparr>"
  have all: "rc_run services ipt (es @ es') (started_client (cp_app ?p)) = Some rc'" using run by (simp add: rc_run_append)
  have inv: "rc_inv ipt a rc'" by (rule rc_run_inv [OF started_inv all [simplified]])
  have started: "app_Start app p = (?p, Ok ())"
    using fx start by (simp add: fx_deadline_def client_provide_def client_onStart_def)
  have halt: "app_Stop app ?p = (?p\<lparr>cp_app := rc_app rc'\<rparr>, if rc_stop rc' = Stopped then None else Some deadline)"
    using fx all unfolding fx_deadline_def by blast
  have p': "cp_app p' = rc_app rc'" "status = (if rc_stop rc' = Stopped then Exit 0 else Exit 1)"
    using cmd started halt by (auto simp: client_run_def command_run_def split: if_splits)
  have host: "installed view (ca_host a) (redirect_rule (ca_nf a))" "view (ca_host (client_stop ipt a)) = view (ca_host (cp_app p))"
    using client_start_stop [OF _ _ _ start] ready by (auto simp: client_ready_def)
  have "ca_host (rc_app rc') = ca_host a \<and> ca_nf (rc_app rc') = ca_nf a" if "rc_stop rc' \<noteq> Stopped"
    using inv that by (cases "rc_stop rc'") (auto simp: rc_inv_def)
  moreover have "rc_app rc' = client_stop ipt a" if "rc_stop rc' = Stopped" using inv that by (simp add: rc_inv_def)
  moreover have "rc_stop rc' \<noteq> Stopped" if "rc_read rc = LRecv" "\<not> rc_streamEnded rc" "\<not> list_ex server_acts es'"
    using reader_waits [OF run(2) that] inv by (auto simp: rc_inv_def)
  ultimately show ?thesis using p' host by auto
qed

text \<open>Such a container, a client that starts, and a server that is silent from then on.\<close>

definition sample_deadline_fx :: "rc_event list \<Rightarrow> (_ client_process, string + client_start_error) fx_app" where
  "sample_deadline_fx es =
     (sample_fx (client_provide (Inr (client_DefaultConfig release_build, ()))) (client_onStart host_ipt True True None (\<lambda>a. True))
       (\<lambda>p. case rc_run no_services host_ipt es (started_client (cp_app p)) of
          None \<Rightarrow> (p, None)
        | Some rc \<Rightarrow> (p\<lparr>cp_app := rc_app rc\<rparr>, if rc_stop rc = Stopped then None else Some (Inl ''context deadline exceeded''))))"

definition sample_silent :: "rc_event list" where
  "sample_silent = [AcceptTop, StopCancels, CleanupStops, StopClosesListener, StopClosesLink, WriterStops, AcceptFails None]"

lemma sample_started: "client_start host_ipt True True None (\<lambda>a. True) (client_DefaultConfig release_build)
    (new_client_app (client_DefaultConfig release_build) (\<lambda>t c. [])) = (sample_started, Ok ())"
proof -
  let ?nf = "NewNetfilterManager ''100.64.0.0/10'' 9999"
  have "v4_string [100, 64, 0, 0] @ CHR ''/'' # dec 10 = ''100.64.0.0/10''" by (simp add: v4_string_def dec_eval)
  then have "validateCIDR ''100.64.0.0/10'' = None"
    using parse_cidr_v4_string [of "[100, 64, 0, 0]" 10] by (simp add: validateCIDR_def)
  then have val: "Validate_rule (redirect_rule ?nf) = None" by (simp add: redirect_rule_valid)
  have "accepted (\<lambda>t c args. True) (redirect_rule ?nf)" by (simp add: accepted_def)
  from Setup_valid [OF host_ipt_behaves this val, of "\<lambda>t c. []"] obtain nf s where "Setup host_ipt ?nf (\<lambda>t c. []) = (nf, s, Ok ())"
    by (auto simp: NewNetfilterManager_def)
  then show ?thesis
    by (simp add: sample_started_def client_start_def client_Connect_def new_client_app_def client_DefaultConfig_def Let_def)
qed

theorem stop_deadline_leaves_rule_witness:
  "\<exists>p' out. client_run (sample_deadline_fx ([ReaderTop] @ sample_silent)) id sample_client_process = (p', Exit 1, out) \<and>
     installed id (ca_host (cp_app p')) (redirect_rule (ca_nf (cp_app p')))"
proof -
  let ?app = "sample_deadline_fx ([ReaderTop] @ sample_silent)"
  obtain p' status out where cmd: "client_run ?app id sample_client_process = (p', status, out)" by (metis prod_cases3)
  have ready: "client_ready host_ipt id (\<lambda>t c args. True) (Inr (client_DefaultConfig release_build, ())) sample_client_process"
    using host_ipt_behaves by (simp add: client_ready_def accepted_def installed_def sample_client_host)
  have fx: "fx_deadline ?app (client_provide (Inr (client_DefaultConfig release_build, ())))
      (client_onStart host_ipt True True None (\<lambda>a. True)) no_services host_ipt ([ReaderTop] @ sample_silent)
      (Inl ''context deadline exceeded'')"
    by (simp add: fx_deadline_def sample_deadline_fx_def sample_fx_def)
  obtain rc where rc: "rc_run no_services host_ipt [ReaderTop] (started_client sample_started) = Some rc" "rc_read rc = LRecv"
      "\<not> rc_streamEnded rc" "rc = (started_client sample_started)\<lparr>rc_read := LRecv\<rparr>"
    using sample_started_flags by (simp add: rc_exec_def first_some_eq started_client_def)
  obtain rc' where rc': "rc_run no_services host_ipt sample_silent rc = Some rc'"
    using sample_started_flags by (simp add: rc(4) sample_silent_def rc_exec_def first_some_eq started_client_def)
  have "status = Exit 1 \<and> installed id (ca_host (cp_app p')) (redirect_rule (ca_nf (cp_app p')))"
    using stop_deadline_leaves_rule [OF ready _ fx rc(1) rc' cmd] sample_started rc(2,3)
    by (auto simp: sample_silent_def sample_client_host split: if_splits)
  then show ?thesis using cmd by blast
qed

end
