(* ===== verification/Session.thy ===== *)
theory Session
  imports Registry
begin

text \<open>
  \<open>internal/server/grpc_client.go\<close> and \<open>grpc_proxy.go\<close>: the \<open>Connect\<close> handlers, one running
  for every stream, over the shared registry. A handler's state is its local variables, the
  identifiers it has deferred to unregister (last first) and where it is: at the top of its
  loop, between the two critical sections of a routing method, about to send, or returning.
  The server is the registry with the handlers of all streams, and a run of it is a sequence
  of events that interleaves their critical sections in any order.
\<close>

section \<open>The handler of a client stream\<close>

datatype client_pc =
    CLoop
  | CCounting nat proxy_conn packet
  | CSending proxy_conn packet
  | CReturning

record client_session =
  cs_pc :: client_pc
  cs_clientID :: string
  cs_registered :: bool
  cs_deferred :: "string list"

definition new_client_session :: client_session where
  "new_client_session = \<lparr>cs_pc = CLoop, cs_clientID = '''', cs_registered = False, cs_deferred = []\<rparr>"

fun error_text :: "registry_error \<Rightarrow> string" where
  "error_text (ClientAlreadyRegistered i) = ''client '' @ i @ '' already registered''"
| "error_text (ProxyAlreadyRegistered i) = ''proxy '' @ i @ '' already registered''"
| "error_text (NoProxyForDestination i) = ''no proxy found for destination: '' @ i"
| "error_text (ProxyNotFound i) = ''proxy not found: '' @ i"
| "error_text (ConnectionNotFound i) = ''connection not found: '' @ i"
| "error_text (ClientNotFound i) = ''client not found: '' @ i"

fun register_ack_for :: "registry_error option \<Rightarrow> register_ack" where
  "register_ack_for None = \<lparr>Success = True, Message = ''registered successfully''\<rparr>"
| "register_ack_for (Some e) = \<lparr>Success = False, Message = error_text e\<rparr>"

text \<open>One message at the top of the loop. The flag says whether sending the acknowledgement
  succeeds; the messages sent on the handler's own stream are the last component.\<close>

fun ClientService_recv ::
  "int \<Rightarrow> string list \<Rightarrow> nat \<Rightarrow> bool \<Rightarrow> client_message \<Rightarrow> client_session \<Rightarrow> registry \<Rightarrow>
   client_session \<times> registry \<times> client_message list" where
  "ClientService_recv now order stream send_ok (ClientMessage_Register m) cs r =
     (let clientID = ClientId m;
          cs = cs\<lparr>cs_clientID := clientID\<rparr>;
          (r', err) = RegisterClientStream now clientID stream r;
          cs = (case err of
                  Some _ \<Rightarrow> cs
                | None \<Rightarrow> cs\<lparr>cs_registered := True, cs_deferred := clientID # cs_deferred cs\<rparr>)
      in if send_ok then (cs, r', [ClientMessage_Ack (register_ack_for err)])
         else (cs\<lparr>cs_pc := CReturning\<rparr>, r', []))"
| "ClientService_recv now order stream send_ok (ClientMessage_Packet pkt) cs r =
     (if \<not> cs_registered cs then (cs, r, [])
      else case RouteFromClient_lookup now order (cs_clientID cs) pkt r of
             (r', Inl e) \<Rightarrow> (cs, r', [])
           | (r', Inr (ref, proxy)) \<Rightarrow> (cs\<lparr>cs_pc := CCounting ref proxy pkt\<rparr>, r', []))"
| "ClientService_recv now order stream send_ok (ClientMessage_Heartbeat h) cs r = (cs, r, [])"
| "ClientService_recv now order stream send_ok (ClientMessage_Ack a) cs r = (cs, r, [])"
| "ClientService_recv now order stream send_ok ClientMessage_Unset cs r = (cs, r, [])"

section \<open>The handler of a proxy stream\<close>

datatype proxy_pc =
    PLoop
  | PCounting nat client_conn packet
  | PSending client_conn packet
  | PReturning

record proxy_session =
  ps_pc :: proxy_pc
  ps_proxyID :: string
  ps_managedCIDR :: string
  ps_registered :: bool
  ps_deferred :: "string list"

definition new_proxy_session :: proxy_session where
  "new_proxy_session = \<lparr>ps_pc = PLoop, ps_proxyID = '''', ps_managedCIDR = '''',
     ps_registered = False, ps_deferred = []\<rparr>"

fun ProxyService_recv ::
  "int \<Rightarrow> nat \<Rightarrow> bool \<Rightarrow> proxy_message \<Rightarrow> proxy_session \<Rightarrow> registry \<Rightarrow>
   proxy_session \<times> registry \<times> proxy_message list" where
  "ProxyService_recv now stream send_ok (ProxyMessage_Register m) ps r =
     (let proxyID = ProxyId m; managedCIDR = ManagedCidr m;
          ps = ps\<lparr>ps_proxyID := proxyID, ps_managedCIDR := managedCIDR\<rparr>;
          (r', err) = RegisterProxyStream now proxyID stream managedCIDR r;
          ps = (case err of
                  Some _ \<Rightarrow> ps
                | None \<Rightarrow> ps\<lparr>ps_registered := True, ps_deferred := proxyID # ps_deferred ps\<rparr>)
      in if send_ok then (ps, r', [ProxyMessage_Ack (register_ack_for err)])
         else (ps\<lparr>ps_pc := PReturning\<rparr>, r', []))"
| "ProxyService_recv now stream send_ok (ProxyMessage_Packet pkt) ps r =
     (if \<not> ps_registered ps then (ps, r, [])
      else case RouteFromProxy_lookup now pkt r of
             (r', Inl e) \<Rightarrow> (ps, r', [])
           | (r', Inr (ref, client)) \<Rightarrow> (ps\<lparr>ps_pc := PCounting ref client pkt\<rparr>, r', []))"
| "ProxyService_recv now stream send_ok (ProxyMessage_Heartbeat h) ps r = (ps, r, [])"
| "ProxyService_recv now stream send_ok (ProxyMessage_Ack a) ps r = (ps, r, [])"
| "ProxyService_recv now stream send_ok ProxyMessage_Unset ps r = (ps, r, [])"

section \<open>The server\<close>

record server =
  sv_registry :: registry
  sv_clients :: "nat \<rightharpoonup> client_session"
  sv_proxys :: "nat \<rightharpoonup> proxy_session"
  sv_to_clients :: "(nat \<times> client_message) list"
  sv_to_proxys :: "(nat \<times> proxy_message) list"

definition server_init :: server where
  "server_init = \<lparr>sv_registry = NewRegistry, sv_clients = Map.empty, sv_proxys = Map.empty,
     sv_to_clients = [], sv_to_proxys = []\<rparr>"

text \<open>
  The events: a stream opens; its handler receives a message; it runs the counting critical
  section of a routing method; it sends (the flag says whether gRPC accepts the message, a
  failure is only logged); the receive fails, the peer closes or the context is cancelled, so
  it returns; it runs its next deferred call; the cleanup ticker fires.
\<close>

datatype server_event =
    OpenClient nat
  | ClientRecv nat int "string list" bool client_message
  | ClientCount nat
  | ClientSend nat bool
  | ClientEnd nat
  | ClientUnregister nat
  | OpenProxy nat
  | ProxyRecv nat int bool proxy_message
  | ProxyCount nat
  | ProxySend nat bool
  | ProxyEnd nat
  | ProxyUnregister nat
  | CleanupTick int "string list"

definition put_client :: "nat \<Rightarrow> client_session \<Rightarrow> server \<Rightarrow> server" where
  "put_client s cs sv = sv\<lparr>sv_clients := (sv_clients sv)(s \<mapsto> cs)\<rparr>"

definition put_proxy :: "nat \<Rightarrow> proxy_session \<Rightarrow> server \<Rightarrow> server" where
  "put_proxy s ps sv = sv\<lparr>sv_proxys := (sv_proxys sv)(s \<mapsto> ps)\<rparr>"

fun exec_client :: "server_event \<Rightarrow> nat \<Rightarrow> client_session \<Rightarrow> server \<Rightarrow> server option" where
  "exec_client (ClientRecv _ now order send_ok msg) s cs sv =
     (if cs_pc cs = CLoop then
        let (cs', r', out) = ClientService_recv now order s send_ok msg cs (sv_registry sv)
        in Some (put_client s cs' (sv\<lparr>sv_registry := r',
             sv_to_clients := sv_to_clients sv @ map (\<lambda>m. (s, m)) out\<rparr>))
      else None)"
| "exec_client (ClientCount _) s cs sv =
     (case cs_pc cs of
        CCounting ref proxy pkt \<Rightarrow>
          Some (put_client s (cs\<lparr>cs_pc := CSending proxy pkt\<rparr>)
            (sv\<lparr>sv_registry := RouteFromClient_count ref pkt (sv_registry sv)\<rparr>))
      | _ \<Rightarrow> None)"
| "exec_client (ClientSend _ ok) s cs sv =
     (case cs_pc cs of
        CSending proxy pkt \<Rightarrow>
          Some (put_client s (cs\<lparr>cs_pc := CLoop\<rparr>)
            (if ok then sv\<lparr>sv_to_proxys := sv_to_proxys sv @ [(pc_Stream proxy, ProxyMessage_Packet pkt)]\<rparr>
             else sv))
      | _ \<Rightarrow> None)"
| "exec_client (ClientEnd _) s cs sv =
     (if cs_pc cs = CLoop then Some (put_client s (cs\<lparr>cs_pc := CReturning\<rparr>) sv) else None)"
| "exec_client (ClientUnregister _) s cs sv =
     (case (cs_pc cs, cs_deferred cs) of
        (CReturning, i # is) \<Rightarrow>
          Some (put_client s (cs\<lparr>cs_deferred := is\<rparr>)
            (sv\<lparr>sv_registry := UnregisterClient i (sv_registry sv)\<rparr>))
      | _ \<Rightarrow> None)"
| "exec_client _ s cs sv = None"

fun exec_proxy :: "server_event \<Rightarrow> nat \<Rightarrow> proxy_session \<Rightarrow> server \<Rightarrow> server option" where
  "exec_proxy (ProxyRecv _ now send_ok msg) s ps sv =
     (if ps_pc ps = PLoop then
        let (ps', r', out) = ProxyService_recv now s send_ok msg ps (sv_registry sv)
        in Some (put_proxy s ps' (sv\<lparr>sv_registry := r',
             sv_to_proxys := sv_to_proxys sv @ map (\<lambda>m. (s, m)) out\<rparr>))
      else None)"
| "exec_proxy (ProxyCount _) s ps sv =
     (case ps_pc ps of
        PCounting ref client pkt \<Rightarrow>
          Some (put_proxy s (ps\<lparr>ps_pc := PSending client pkt\<rparr>)
            (sv\<lparr>sv_registry := RouteFromProxy_count ref pkt (sv_registry sv)\<rparr>))
      | _ \<Rightarrow> None)"
| "exec_proxy (ProxySend _ ok) s ps sv =
     (case ps_pc ps of
        PSending client pkt \<Rightarrow>
          Some (put_proxy s (ps\<lparr>ps_pc := PLoop\<rparr>)
            (if ok then sv\<lparr>sv_to_clients := sv_to_clients sv @ [(cc_Stream client, ClientMessage_Packet pkt)]\<rparr>
             else sv))
      | _ \<Rightarrow> None)"
| "exec_proxy (ProxyEnd _) s ps sv =
     (if ps_pc ps = PLoop then Some (put_proxy s (ps\<lparr>ps_pc := PReturning\<rparr>) sv) else None)"
| "exec_proxy (ProxyUnregister _) s ps sv =
     (case (ps_pc ps, ps_deferred ps) of
        (PReturning, i # is) \<Rightarrow>
          Some (put_proxy s (ps\<lparr>ps_deferred := is\<rparr>)
            (sv\<lparr>sv_registry := UnregisterProxy i (sv_registry sv)\<rparr>))
      | _ \<Rightarrow> None)"
| "exec_proxy _ s ps sv = None"

definition with_client :: "nat \<Rightarrow> server_event \<Rightarrow> server \<Rightarrow> server option" where
  "with_client s e sv = (case sv_clients sv s of None \<Rightarrow> None | Some cs \<Rightarrow> exec_client e s cs sv)"

definition with_proxy :: "nat \<Rightarrow> server_event \<Rightarrow> server \<Rightarrow> server option" where
  "with_proxy s e sv = (case sv_proxys sv s of None \<Rightarrow> None | Some ps \<Rightarrow> exec_proxy e s ps sv)"

text \<open>\<open>None\<close>: the event cannot happen in this state.\<close>

fun exec :: "server \<Rightarrow> server_event \<Rightarrow> server option" where
  "exec sv (OpenClient s) =
     (if sv_clients sv s = None then Some (put_client s new_client_session sv) else None)"
| "exec sv (OpenProxy s) =
     (if sv_proxys sv s = None then Some (put_proxy s new_proxy_session sv) else None)"
| "exec sv (CleanupTick now order) =
     Some (sv\<lparr>sv_registry := cleanupStaleConnections now order (sv_registry sv)\<rparr>)"
| "exec sv (ClientRecv s now order ok m) = with_client s (ClientRecv s now order ok m) sv"
| "exec sv (ClientCount s) = with_client s (ClientCount s) sv"
| "exec sv (ClientSend s ok) = with_client s (ClientSend s ok) sv"
| "exec sv (ClientEnd s) = with_client s (ClientEnd s) sv"
| "exec sv (ClientUnregister s) = with_client s (ClientUnregister s) sv"
| "exec sv (ProxyRecv s now ok m) = with_proxy s (ProxyRecv s now ok m) sv"
| "exec sv (ProxyCount s) = with_proxy s (ProxyCount s) sv"
| "exec sv (ProxySend s ok) = with_proxy s (ProxySend s ok) sv"
| "exec sv (ProxyEnd s) = with_proxy s (ProxyEnd s) sv"
| "exec sv (ProxyUnregister s) = with_proxy s (ProxyUnregister s) sv"

inductive reachable :: "server \<Rightarrow> bool" where
  reachable_init: "reachable server_init"
| reachable_step: "reachable sv \<Longrightarrow> exec sv e = Some sv' \<Longrightarrow> reachable sv'"

fun run :: "server_event list \<Rightarrow> server \<Rightarrow> server option" where
  "run [] sv = Some sv"
| "run (e # es) sv = (case exec sv e of None \<Rightarrow> None | Some sv' \<Rightarrow> run es sv')"

lemma reachable_run: "reachable sv \<Longrightarrow> run es sv = Some sv' \<Longrightarrow> reachable sv'"
  by (induction es arbitrary: sv) (auto split: option.splits intro: reachable_step)

section \<open>Invariant\<close>

text \<open>Routes are only ever added, and keep their ends.\<close>

definition routes_extend :: "registry \<Rightarrow> registry \<Rightarrow> bool" where
  "routes_extend r r' \<longleftrightarrow> length (routes r) \<le> length (routes r') \<and>
     (\<forall>ref < length (routes r). same_ends (routes r ! ref) (routes r' ! ref))"

lemma routes_extend_refl [simp]: "routes_extend r r"
  by (simp add: routes_extend_def)

lemma routes_extend_same: "routes r' = routes r \<Longrightarrow> routes_extend r r'"
  by (simp add: routes_extend_def)

lemma routes_extend_heap_update:
  "(\<And>rt. same_ends rt (f rt)) \<Longrightarrow> routes_extend r (heap_update ref f r)"
  unfolding routes_extend_def heap_update_sel length_list_update
  by (metis nth_list_update_eq nth_list_update_neq order_refl same_ends_simps(1))

lemma same_ends_count [simp]:
  "same_ends rt (rt\<lparr>rt_PacketsToProxy := a, rt_BytesToProxy := b\<rparr>)"
  "same_ends rt (rt\<lparr>rt_PacketsToClient := a, rt_BytesToClient := b\<rparr>)"
  by (simp_all add: same_ends_def)

lemma registry_ops_extend:
  "routes_extend r (fst (RegisterClientStream now i s r))"
  "routes_extend r (fst (RegisterProxyStream now i s cidr r))"
  "routes_extend r (UnregisterClient i r)" "routes_extend r (UnregisterProxy i r)"
  "routes_extend r (fst (RouteFromClient_lookup now order i pkt r))"
  "routes_extend r (fst (RouteFromProxy_lookup now pkt r))"
  "routes_extend r (RouteFromClient_count ref pkt r)" "routes_extend r (RouteFromProxy_count ref pkt r)"
  "routes_extend r (cleanupStaleConnections now order r)"
  unfolding RouteFromClient_count_def RouteFromProxy_count_def
  by (auto simp: RegisterClientStream_def RegisterProxyStream_def UnregisterClient_def UnregisterProxy_def
    RouteFromClient_lookup_def RouteFromProxy_lookup_def cleanupStaleConnections_def Let_def
    nth_append routes_extend_def[of r "r\<lparr>routes := _, connections := _\<rparr>"]
    intro!: routes_extend_same routes_extend_heap_update split: option.splits)

text \<open>The tables each operation leaves alone.\<close>

lemma clients_frame:
  "clients (fst (RegisterProxyStream now i s cidr r)) = clients r"
  "clients (UnregisterProxy i r) = clients r"
  "clients (fst (RouteFromClient_lookup now order i pkt r)) = clients r"
  "clients (fst (RouteFromProxy_lookup now pkt r)) = clients r"
  "clients (RouteFromClient_count ref pkt r) = clients r"
  "clients (RouteFromProxy_count ref pkt r) = clients r"
  "clients (cleanupStaleConnections now order r) = clients r"
  by (auto simp: RegisterProxyStream_def UnregisterProxy_def RouteFromClient_lookup_def
    RouteFromProxy_lookup_def RouteFromClient_count_def RouteFromProxy_count_def
    cleanupStaleConnections_def Let_def split: option.splits)

lemma proxys_frame:
  "proxys (fst (RegisterClientStream now i s r)) = proxys r"
  "proxys (UnregisterClient i r) = proxys r"
  "proxys (fst (RouteFromClient_lookup now order i pkt r)) = proxys r"
  "proxys (fst (RouteFromProxy_lookup now pkt r)) = proxys r"
  "proxys (RouteFromClient_count ref pkt r) = proxys r"
  "proxys (RouteFromProxy_count ref pkt r) = proxys r"
  "proxys (cleanupStaleConnections now order r) = proxys r"
  by (auto simp: RegisterClientStream_def UnregisterClient_def RouteFromClient_lookup_def
    RouteFromProxy_lookup_def RouteFromClient_count_def RouteFromProxy_count_def
    cleanupStaleConnections_def Let_def split: option.splits)

definition client_ids :: "server \<Rightarrow> nat \<Rightarrow> string list" where
  "client_ids sv s = (case sv_clients sv s of None \<Rightarrow> [] | Some cs \<Rightarrow> cs_deferred cs)"

definition proxy_ids :: "server \<Rightarrow> nat \<Rightarrow> string list" where
  "proxy_ids sv s = (case sv_proxys sv s of None \<Rightarrow> [] | Some ps \<Rightarrow> ps_deferred ps)"

text \<open>A handler in the middle of routing is registered and holds a route of its packet's
  connection to the proxy, or the client, it sends to; a registered one that has not returned still has an
  identifier to unregister.\<close>

definition route_to_proxy :: "registry \<Rightarrow> nat \<Rightarrow> proxy_conn \<Rightarrow> packet \<Rightarrow> bool" where
  "route_to_proxy r ref proxy pkt \<longleftrightarrow> ref < length (routes r) \<and>
     rt_ConnectionID (routes r ! ref) = ConnectionId pkt \<and> rt_ProxyID (routes r ! ref) = pc_ID proxy"

definition route_to_client :: "registry \<Rightarrow> nat \<Rightarrow> client_conn \<Rightarrow> packet \<Rightarrow> bool" where
  "route_to_client r ref client pkt \<longleftrightarrow> ref < length (routes r) \<and>
     rt_ConnectionID (routes r ! ref) = ConnectionId pkt \<and> rt_ClientID (routes r ! ref) = cc_ID client"

definition client_ok :: "registry \<Rightarrow> client_session \<Rightarrow> bool" where
  "client_ok r cs \<longleftrightarrow>
     (cs_registered cs \<longrightarrow> cs_deferred cs \<noteq> [] \<or> cs_pc cs = CReturning) \<and>
     (cs_deferred cs \<noteq> [] \<longrightarrow> cs_registered cs) \<and>
     (case cs_pc cs of
        CCounting ref proxy pkt \<Rightarrow> cs_registered cs \<and> route_to_proxy r ref proxy pkt
      | CSending proxy pkt \<Rightarrow> cs_registered cs \<and> (\<exists>ref. route_to_proxy r ref proxy pkt)
      | _ \<Rightarrow> True)"

definition proxy_ok :: "registry \<Rightarrow> proxy_session \<Rightarrow> bool" where
  "proxy_ok r ps \<longleftrightarrow>
     (ps_registered ps \<longrightarrow> ps_deferred ps \<noteq> [] \<or> ps_pc ps = PReturning) \<and>
     (ps_deferred ps \<noteq> [] \<longrightarrow> ps_registered ps) \<and>
     (case ps_pc ps of
        PCounting ref client pkt \<Rightarrow> ps_registered ps \<and> route_to_client r ref client pkt
      | PSending client pkt \<Rightarrow> ps_registered ps \<and> (\<exists>ref. route_to_client r ref client pkt)
      | _ \<Rightarrow> True)"

text \<open>Held routes outlive what the other handlers do.\<close>

lemma route_held_extend:
  "route_to_proxy r ref proxy pkt \<Longrightarrow> routes_extend r r' \<Longrightarrow> route_to_proxy r' ref proxy pkt"
  "route_to_client r ref client pkt \<Longrightarrow> routes_extend r r' \<Longrightarrow> route_to_client r' ref client pkt"
  by (auto simp: route_to_proxy_def route_to_client_def routes_extend_def same_ends_def)

definition server_inv :: "server \<Rightarrow> bool" where
  "server_inv sv \<longleftrightarrow> reg_ok (sv_registry sv) \<and>
     client_table.owned (sv_registry sv) (client_ids sv) \<and>
     proxy_table.owned (sv_registry sv) (proxy_ids sv) \<and>
     (\<forall>s cs. sv_clients sv s = Some cs \<longrightarrow> client_ok (sv_registry sv) cs) \<and>
     (\<forall>s ps. sv_proxys sv s = Some ps \<longrightarrow> proxy_ok (sv_registry sv) ps)"

lemma client_ok_extend: "client_ok r cs \<Longrightarrow> routes_extend r r' \<Longrightarrow> client_ok r' cs"
  unfolding client_ok_def by (auto split: client_pc.splits intro: route_held_extend)

lemma proxy_ok_extend: "proxy_ok r ps \<Longrightarrow> routes_extend r r' \<Longrightarrow> proxy_ok r' ps"
  unfolding proxy_ok_def by (auto split: proxy_pc.splits intro: route_held_extend)

lemma server_invD:
  assumes "server_inv sv"
  shows "reg_ok (sv_registry sv)" "client_table.owned (sv_registry sv) (client_ids sv)"
    "proxy_table.owned (sv_registry sv) (proxy_ids sv)"
    "sv_clients sv s = Some cs \<Longrightarrow> client_ok (sv_registry sv) cs"
    "sv_proxys sv s = Some ps \<Longrightarrow> proxy_ok (sv_registry sv) ps"
  using assms by (auto simp: server_inv_def)

lemma server_inv_put_client:
  assumes "server_inv sv" "sv_clients sv2 = sv_clients sv" "sv_proxys sv2 = sv_proxys sv"
    and "reg_ok (sv_registry sv2)" "routes_extend (sv_registry sv) (sv_registry sv2)"
    and "client_table.owned (sv_registry sv2) ((client_ids sv)(s := cs_deferred cs))"
    and "proxys (sv_registry sv2) = proxys (sv_registry sv)"
    and "client_ok (sv_registry sv2) cs"
  shows "server_inv (put_client s cs sv2)"
proof -
  have "client_ids (put_client s cs sv2) = (client_ids sv)(s := cs_deferred cs)"
    "proxy_ids (put_client s cs sv2) = proxy_ids sv"
    using assms(2,3) by (auto simp: client_ids_def proxy_ids_def put_client_def)
  moreover have "client_ok (sv_registry sv2) c" if "sv_clients sv t = Some c" for t c
    using client_ok_extend [OF server_invD(4) [OF assms(1) that] assms(5)] .
  moreover have "proxy_ok (sv_registry sv2) p" if "sv_proxys sv t = Some p" for t p
    using proxy_ok_extend [OF server_invD(5) [OF assms(1) that] assms(5)] .
  ultimately show ?thesis
    using assms(2-4,6,8) proxy_table.owned_cong [OF assms(7)] server_invD(3) [OF assms(1)]
    by (auto simp: server_inv_def put_client_def)
qed

lemma server_inv_put_proxy:
  assumes "server_inv sv" "sv_clients sv2 = sv_clients sv" "sv_proxys sv2 = sv_proxys sv"
    and "reg_ok (sv_registry sv2)" "routes_extend (sv_registry sv) (sv_registry sv2)"
    and "proxy_table.owned (sv_registry sv2) ((proxy_ids sv)(s := ps_deferred ps))"
    and "clients (sv_registry sv2) = clients (sv_registry sv)"
    and "proxy_ok (sv_registry sv2) ps"
  shows "server_inv (put_proxy s ps sv2)"
proof -
  have "proxy_ids (put_proxy s ps sv2) = (proxy_ids sv)(s := ps_deferred ps)"
    "client_ids (put_proxy s ps sv2) = client_ids sv"
    using assms(2,3) by (auto simp: client_ids_def proxy_ids_def put_proxy_def)
  moreover have "client_ok (sv_registry sv2) c" if "sv_clients sv t = Some c" for t c
    using client_ok_extend [OF server_invD(4) [OF assms(1) that] assms(5)] .
  moreover have "proxy_ok (sv_registry sv2) p" if "sv_proxys sv t = Some p" for t p
    using proxy_ok_extend [OF server_invD(5) [OF assms(1) that] assms(5)] .
  ultimately show ?thesis
    using assms(2-4,6,8) client_table.owned_cong [OF assms(7)] server_invD(2) [OF assms(1)]
    by (auto simp: server_inv_def put_proxy_def)
qed

lemma server_inv_init: "server_inv server_init"
  using client_table.owned_init [of NewRegistry] proxy_table.owned_init [of NewRegistry]
  by (simp add: server_inv_def server_init_def client_ids_def [abs_def] proxy_ids_def [abs_def] NewRegistry_ok)
    (simp add: NewRegistry_def)

lemma client_lookup_result:
  assumes ok: "reg_ok r" and l: "RouteFromClient_lookup now order cid pkt r = (r', Inr (ref, proxy))"
  shows "route_to_proxy r' ref proxy pkt"
proof (cases "connections r (ConnectionId pkt)")
  case (Some k)
  then show ?thesis
    using l reg_okD(2-4) [OF ok] by (auto simp: lookup_existing Let_def route_to_proxy_def split: option.splits)
next
  case None
  show ?thesis
  proof (cases "findProxyByCIDR order (packet_dest pkt) r")
    case None
    then show ?thesis using l \<open>connections r (ConnectionId pkt) = None\<close> by (simp add: lookup_no_proxy)
  next
    case (Some p)
    then show ?thesis
      using l reg_okD(2) [OF ok] lookup_new [OF \<open>connections r (ConnectionId pkt) = None\<close> Some]
      by (auto simp: nth_append fresh_route_def route_to_proxy_def split: option.splits)
  qed
qed

lemma proxy_lookup_result:
  assumes ok: "reg_ok r" and l: "RouteFromProxy_lookup now pkt r = (r', Inr (ref, client))"
  shows "route_to_client r' ref client pkt"
  unfolding route_to_client_def using l reg_okD(1,3,4) [OF ok]
  by (auto simp: RouteFromProxy_lookup_def Let_def split: option.splits)

text \<open>The registry after one message, and the handler's own state.\<close>

lemma client_recv_inv:
  assumes inv: "server_inv sv" and s: "sv_clients sv s = Some cs" and pc: "cs_pc cs = CLoop"
    and r: "ClientService_recv now order s ok msg cs (sv_registry sv) = (cs', r', out)"
  shows "reg_ok r' \<and> routes_extend (sv_registry sv) r' \<and> proxys r' = proxys (sv_registry sv) \<and>
    client_table.owned r' ((client_ids sv)(s := cs_deferred cs')) \<and> client_ok r' cs'"
proof -
  note ok = server_invD(1) [OF inv]
  have ids: "client_ids sv s = cs_deferred cs" using s by (simp add: client_ids_def)
  then have own: "client_table.owned (sv_registry sv) ((client_ids sv)(s := cs_deferred cs))"
    using server_invD(2) [OF inv] by (metis fun_upd_triv)
  have cok: "client_ok (sv_registry sv) cs" using server_invD(4) [OF inv s] .
  show ?thesis
  proof (cases msg)
    case (ClientMessage_Register m)
    obtain r1 err where reg: "RegisterClientStream now (ClientId m) s (sv_registry sv) = (r1, err)" by force
    have fr: "reg_ok r1" "routes_extend (sv_registry sv) r1" "proxys r1 = proxys (sv_registry sv)"
      using RegisterClientStream_ok [OF ok, of now "ClientId m" s]
        registry_ops_extend(1) [of "sv_registry sv" now "ClientId m" s]
        proxys_frame(1) [of now "ClientId m" s "sv_registry sv"] reg by simp_all
    show ?thesis
    proof (cases err)
      case None
      have "client_table.owned r1 ((client_ids sv)(s := ClientId m # cs_deferred cs))"
        using client_table.owned_reg_ok [OF server_invD(2) [OF inv]] reg None ids by metis
      then show ?thesis
        using r reg None fr pc by (auto simp: ClientMessage_Register client_ok_def Let_def split: if_splits)
    next
      case (Some e)
      then have "r1 = sv_registry sv" using client_table.reg_refused_same reg by metis
      then show ?thesis
        using r reg Some fr own cok pc ok
        by (auto simp: ClientMessage_Register client_ok_def Let_def split: if_splits)
    qed
  next
    case (ClientMessage_Packet pkt)
    show ?thesis
    proof (cases "cs_registered cs")
      case True
      obtain r1 x where l: "RouteFromClient_lookup now order (cs_clientID cs) pkt (sv_registry sv) = (r1, x)"
        by force
      have fr: "reg_ok r1" "routes_extend (sv_registry sv) r1" "proxys r1 = proxys (sv_registry sv)"
        "clients r1 = clients (sv_registry sv)"
        using RouteFromClient_lookup_ok [OF ok, of now order "cs_clientID cs" pkt]
          registry_ops_extend(5) [of "sv_registry sv" now order "cs_clientID cs" pkt]
          proxys_frame(3) [of now order "cs_clientID cs" pkt "sv_registry sv"]
          clients_frame(3) [of now order "cs_clientID cs" pkt "sv_registry sv"] l by simp_all
      have own1: "client_table.owned r1 ((client_ids sv)(s := cs_deferred cs))"
        using own client_table.owned_cong [OF fr(4)] by simp
      show ?thesis
      proof (cases x)
        case (Inl e)
        then show ?thesis
          using r l True fr own1 client_ok_extend [OF cok fr(2)] by (simp add: ClientMessage_Packet)
      next
        case (Inr y)
        obtain ref proxy where y: "y = (ref, proxy)" by force
        have "client_ok r1 (cs\<lparr>cs_pc := CCounting ref proxy pkt\<rparr>)"
          using client_lookup_result [OF ok l [unfolded Inr y]] cok True pc by (simp add: client_ok_def)
        then show ?thesis
          using r l True fr own1 Inr y by (auto simp: ClientMessage_Packet)
      qed
    qed (use r own cok ok in \<open>simp add: ClientMessage_Packet\<close>)
  qed (use r own cok ok in simp_all)
qed

lemma exec_client_inv:
  assumes inv: "server_inv sv" and s: "sv_clients sv s = Some cs" and e: "exec_client e s cs sv = Some sv'"
  shows "server_inv sv'"
proof -
  note ok = server_invD(1) [OF inv]
  have own: "client_table.owned (sv_registry sv) ((client_ids sv)(s := cs_deferred cs))"
    using server_invD(2) [OF inv] s by (simp add: client_ids_def fun_upd_idem)
  have cok: "client_ok (sv_registry sv) cs" using server_invD(4) [OF inv s] .
  show ?thesis
  proof (cases e)
    case (ClientRecv s' now order send_ok msg)
    obtain cs' r' out where r: "ClientService_recv now order s send_ok msg cs (sv_registry sv) = (cs', r', out)"
      by (metis prod_cases3)
    have pc: "cs_pc cs = CLoop" using e ClientRecv by (simp split: if_splits)
    show ?thesis
      using client_recv_inv [OF inv s pc r] e r pc
      by (auto simp: ClientRecv intro!: server_inv_put_client [OF inv])
  next
    case (ClientCount s')
    then obtain ref proxy pkt where pc: "cs_pc cs = CCounting ref proxy pkt"
      and sv': "sv' = put_client s (cs\<lparr>cs_pc := CSending proxy pkt\<rparr>)
        (sv\<lparr>sv_registry := RouteFromClient_count ref pkt (sv_registry sv)\<rparr>)"
      using e by (auto split: client_pc.splits)
    have "client_table.owned (RouteFromClient_count ref pkt (sv_registry sv)) ((client_ids sv)(s := cs_deferred cs))"
      using own client_table.owned_cong [OF clients_frame(5)] by simp
    moreover have "route_to_proxy (RouteFromClient_count ref pkt (sv_registry sv)) ref proxy pkt"
      using cok pc by (intro route_held_extend(1) [OF _ registry_ops_extend(7)]) (simp add: client_ok_def)
    ultimately show ?thesis
      unfolding sv' using cok pc ok
      by (intro server_inv_put_client [OF inv])
        (auto simp: RouteFromClient_count_ok registry_ops_extend proxys_frame client_ok_def)
  next
    case (ClientSend s' send_ok)
    then obtain proxy pkt where pc: "cs_pc cs = CSending proxy pkt"
      and sv': "sv' = put_client s (cs\<lparr>cs_pc := CLoop\<rparr>) (if send_ok
        then sv\<lparr>sv_to_proxys := sv_to_proxys sv @ [(pc_Stream proxy, ProxyMessage_Packet pkt)]\<rparr> else sv)"
      using e by (auto split: client_pc.splits)
    show ?thesis
      unfolding sv' using cok pc ok own
      by (intro server_inv_put_client [OF inv]) (simp_all add: client_ok_def)
  next
    case (ClientEnd s')
    then have sv': "sv' = put_client s (cs\<lparr>cs_pc := CReturning\<rparr>) sv"
      using e by (simp split: if_splits)
    show ?thesis
      unfolding sv' using cok ok own
      by (intro server_inv_put_client [OF inv]) (simp_all add: client_ok_def)
  next
    case (ClientUnregister s')
    then obtain i "is" where pc: "cs_pc cs = CReturning" and d: "cs_deferred cs = i # is"
      and sv': "sv' = put_client s (cs\<lparr>cs_deferred := is\<rparr>) (sv\<lparr>sv_registry := UnregisterClient i (sv_registry sv)\<rparr>)"
      using e by (auto split: client_pc.splits list.splits)
    have "client_table.owned (UnregisterClient i (sv_registry sv)) ((client_ids sv)(s := is))"
      using client_table.owned_unreg [OF server_invD(2) [OF inv]] s d by (simp add: client_ids_def)
    then show ?thesis
      unfolding sv' using cok pc d ok
      by (intro server_inv_put_client [OF inv])
        (simp_all add: UnregisterClient_ok registry_ops_extend proxys_frame client_ok_def)
  qed (use e in simp_all)
qed

lemma proxy_recv_inv:
  assumes inv: "server_inv sv" and s: "sv_proxys sv s = Some ps" and pc: "ps_pc ps = PLoop"
    and r: "ProxyService_recv now s ok msg ps (sv_registry sv) = (ps', r', out)"
  shows "reg_ok r' \<and> routes_extend (sv_registry sv) r' \<and> clients r' = clients (sv_registry sv) \<and>
    proxy_table.owned r' ((proxy_ids sv)(s := ps_deferred ps')) \<and> proxy_ok r' ps'"
proof -
  note ok = server_invD(1) [OF inv]
  have ids: "proxy_ids sv s = ps_deferred ps" using s by (simp add: proxy_ids_def)
  then have own: "proxy_table.owned (sv_registry sv) ((proxy_ids sv)(s := ps_deferred ps))"
    using server_invD(3) [OF inv] by (metis fun_upd_triv)
  have cok: "proxy_ok (sv_registry sv) ps" using server_invD(5) [OF inv s] .
  show ?thesis
  proof (cases msg)
    case (ProxyMessage_Register m)
    obtain r1 err where reg: "RegisterProxyStream now (ProxyId m) s (ManagedCidr m) (sv_registry sv) = (r1, err)" by force
    have fr: "reg_ok r1" "routes_extend (sv_registry sv) r1" "clients r1 = clients (sv_registry sv)"
      using RegisterProxyStream_ok [OF ok, of now "ProxyId m" s "ManagedCidr m"]
        registry_ops_extend(2) [of "sv_registry sv" now "ProxyId m" s "ManagedCidr m"]
        clients_frame(1) [of now "ProxyId m" s "ManagedCidr m" "sv_registry sv"] reg by simp_all
    show ?thesis
    proof (cases err)
      case None
      have "proxy_table.owned r1 ((proxy_ids sv)(s := ProxyId m # ps_deferred ps))"
        using proxy_table.owned_reg_ok [OF server_invD(3) [OF inv], of "(now, ManagedCidr m)" "ProxyId m" s r1] reg None ids by simp
      then show ?thesis
        using r reg None fr pc by (auto simp: ProxyMessage_Register proxy_ok_def Let_def split: if_splits)
    next
      case (Some e)
      then have "r1 = sv_registry sv" using proxy_table.reg_refused_same [of "(now, ManagedCidr m)"] reg by simp
      then show ?thesis
        using r reg Some fr own cok pc ok
        by (auto simp: ProxyMessage_Register proxy_ok_def Let_def split: if_splits)
    qed
  next
    case (ProxyMessage_Packet pkt)
    show ?thesis
    proof (cases "ps_registered ps")
      case True
      obtain r1 x where l: "RouteFromProxy_lookup now pkt (sv_registry sv) = (r1, x)"
        by force
      have fr: "reg_ok r1" "routes_extend (sv_registry sv) r1" "clients r1 = clients (sv_registry sv)"
        "proxys r1 = proxys (sv_registry sv)"
        using RouteFromProxy_lookup_ok [OF ok, of now pkt]
          registry_ops_extend(6) [of "sv_registry sv" now pkt]
          clients_frame(4) [of now pkt "sv_registry sv"]
          proxys_frame(4) [of now pkt "sv_registry sv"] l by simp_all
      have own1: "proxy_table.owned r1 ((proxy_ids sv)(s := ps_deferred ps))"
        using own proxy_table.owned_cong [OF fr(4)] by simp
      show ?thesis
      proof (cases x)
        case (Inl e)
        then show ?thesis
          using r l True fr own1 proxy_ok_extend [OF cok fr(2)] by (simp add: ProxyMessage_Packet)
      next
        case (Inr y)
        obtain ref client where y: "y = (ref, client)" by force
        have "proxy_ok r1 (ps\<lparr>ps_pc := PCounting ref client pkt\<rparr>)"
          using proxy_lookup_result [OF ok l [unfolded Inr y]] cok True pc by (simp add: proxy_ok_def)
        then show ?thesis
          using r l True fr own1 Inr y by (auto simp: ProxyMessage_Packet)
      qed
    qed (use r own cok ok in \<open>simp add: ProxyMessage_Packet\<close>)
  qed (use r own cok ok in simp_all)
qed

lemma exec_proxy_inv:
  assumes inv: "server_inv sv" and s: "sv_proxys sv s = Some ps" and e: "exec_proxy e s ps sv = Some sv'"
  shows "server_inv sv'"
proof -
  note ok = server_invD(1) [OF inv]
  have own: "proxy_table.owned (sv_registry sv) ((proxy_ids sv)(s := ps_deferred ps))"
    using server_invD(3) [OF inv] s by (simp add: proxy_ids_def fun_upd_idem)
  have cok: "proxy_ok (sv_registry sv) ps" using server_invD(5) [OF inv s] .
  show ?thesis
  proof (cases e)
    case (ProxyRecv s' now send_ok msg)
    obtain ps' r' out where r: "ProxyService_recv now s send_ok msg ps (sv_registry sv) = (ps', r', out)"
      by (metis prod_cases3)
    have pc: "ps_pc ps = PLoop" using e ProxyRecv by (simp split: if_splits)
    show ?thesis
      using proxy_recv_inv [OF inv s pc r] e r pc
      by (auto simp: ProxyRecv intro!: server_inv_put_proxy [OF inv])
  next
    case (ProxyCount s')
    then obtain ref client pkt where pc: "ps_pc ps = PCounting ref client pkt"
      and sv': "sv' = put_proxy s (ps\<lparr>ps_pc := PSending client pkt\<rparr>)
        (sv\<lparr>sv_registry := RouteFromProxy_count ref pkt (sv_registry sv)\<rparr>)"
      using e by (auto split: proxy_pc.splits)
    have "proxy_table.owned (RouteFromProxy_count ref pkt (sv_registry sv)) ((proxy_ids sv)(s := ps_deferred ps))"
      using own proxy_table.owned_cong [OF proxys_frame(6)] by simp
    moreover have "route_to_client (RouteFromProxy_count ref pkt (sv_registry sv)) ref client pkt"
      using cok pc by (intro route_held_extend(2) [OF _ registry_ops_extend(8)]) (simp add: proxy_ok_def)
    ultimately show ?thesis
      unfolding sv' using cok pc ok
      by (intro server_inv_put_proxy [OF inv])
        (auto simp: RouteFromProxy_count_ok registry_ops_extend clients_frame proxy_ok_def)
  next
    case (ProxySend s' send_ok)
    then obtain client pkt where pc: "ps_pc ps = PSending client pkt"
      and sv': "sv' = put_proxy s (ps\<lparr>ps_pc := PLoop\<rparr>) (if send_ok
        then sv\<lparr>sv_to_clients := sv_to_clients sv @ [(cc_Stream client, ClientMessage_Packet pkt)]\<rparr> else sv)"
      using e by (auto split: proxy_pc.splits)
    show ?thesis
      unfolding sv' using cok pc ok own
      by (intro server_inv_put_proxy [OF inv]) (simp_all add: proxy_ok_def)
  next
    case (ProxyEnd s')
    then have sv': "sv' = put_proxy s (ps\<lparr>ps_pc := PReturning\<rparr>) sv"
      using e by (simp split: if_splits)
    show ?thesis
      unfolding sv' using cok ok own
      by (intro server_inv_put_proxy [OF inv]) (simp_all add: proxy_ok_def)
  next
    case (ProxyUnregister s')
    then obtain i "is" where pc: "ps_pc ps = PReturning" and d: "ps_deferred ps = i # is"
      and sv': "sv' = put_proxy s (ps\<lparr>ps_deferred := is\<rparr>) (sv\<lparr>sv_registry := UnregisterProxy i (sv_registry sv)\<rparr>)"
      using e by (auto split: proxy_pc.splits list.splits)
    have "proxy_table.owned (UnregisterProxy i (sv_registry sv)) ((proxy_ids sv)(s := is))"
      using proxy_table.owned_unreg [OF server_invD(3) [OF inv]] s d by (simp add: proxy_ids_def)
    then show ?thesis
      unfolding sv' using cok pc d ok
      by (intro server_inv_put_proxy [OF inv])
        (simp_all add: UnregisterProxy_ok registry_ops_extend clients_frame proxy_ok_def)
  qed (use e in simp_all)
qed

lemma with_client_inv: "server_inv sv \<Longrightarrow> with_client s e sv = Some sv' \<Longrightarrow> server_inv sv'"
  by (auto simp: with_client_def split: option.splits intro: exec_client_inv)

lemma with_proxy_inv: "server_inv sv \<Longrightarrow> with_proxy s e sv = Some sv' \<Longrightarrow> server_inv sv'"
  by (auto simp: with_proxy_def split: option.splits intro: exec_proxy_inv)

lemma cleanup_inv:
  assumes inv: "server_inv sv"
  shows "server_inv (sv\<lparr>sv_registry := cleanupStaleConnections now order (sv_registry sv)\<rparr>)"
  using inv client_ok_extend [OF _ registry_ops_extend(9)] proxy_ok_extend [OF _ registry_ops_extend(9)]
    client_table.owned_cong [OF clients_frame(7), of now order "sv_registry sv"]
    proxy_table.owned_cong [OF proxys_frame(7), of now order "sv_registry sv"]
  by (simp add: server_inv_def cleanup_ok client_ids_def [abs_def] proxy_ids_def [abs_def])

lemma open_client_inv:
  assumes inv: "server_inv sv" and s: "sv_clients sv s = None"
  shows "server_inv (put_client s new_client_session sv)"
  using server_invD(1,2) [OF inv] s
  by (intro server_inv_put_client [OF inv])
    (simp_all add: client_ids_def fun_upd_idem new_client_session_def client_ok_def)

lemma open_proxy_inv:
  assumes inv: "server_inv sv" and s: "sv_proxys sv s = None"
  shows "server_inv (put_proxy s new_proxy_session sv)"
  using server_invD(1,3) [OF inv] s
  by (intro server_inv_put_proxy [OF inv])
    (simp_all add: proxy_ids_def fun_upd_idem new_proxy_session_def proxy_ok_def)

lemma exec_inv: "server_inv sv \<Longrightarrow> exec sv e = Some sv' \<Longrightarrow> server_inv sv'"
  by (cases e) (auto intro: with_client_inv with_proxy_inv cleanup_inv open_client_inv open_proxy_inv
    split: if_splits)

lemma reachable_inv: "reachable sv \<Longrightarrow> server_inv sv"
  by (induction rule: reachable.induct) (auto intro: server_inv_init exec_inv)

section \<open>What the invariant gives\<close>

lemma client_entry_live:
  assumes "server_inv sv" "clients (sv_registry sv) i = Some c"
  shows "\<exists>cs. sv_clients sv (cc_Stream c) = Some cs \<and> i \<in> set (cs_deferred cs) \<and> cs_registered cs"
proof -
  have "i \<in> set (client_ids sv (cc_Stream c))"
    using server_invD(2) [OF assms(1)] assms(2) by (simp add: client_table.owned_def)
  then obtain cs where cs: "sv_clients sv (cc_Stream c) = Some cs" "i \<in> set (cs_deferred cs)"
    by (cases "sv_clients sv (cc_Stream c)") (auto simp: client_ids_def)
  then show ?thesis using server_invD(4) [OF assms(1) cs(1)] by (auto simp: client_ok_def)
qed

lemma proxy_entry_live:
  assumes "server_inv sv" "proxys (sv_registry sv) i = Some p"
  shows "\<exists>ps. sv_proxys sv (pc_Stream p) = Some ps \<and> i \<in> set (ps_deferred ps) \<and> ps_registered ps"
proof -
  have "i \<in> set (proxy_ids sv (pc_Stream p))"
    using server_invD(3) [OF assms(1)] assms(2) by (simp add: proxy_table.owned_def)
  then obtain ps where ps: "sv_proxys sv (pc_Stream p) = Some ps" "i \<in> set (ps_deferred ps)"
    by (cases "sv_proxys sv (pc_Stream p)") (auto simp: proxy_ids_def)
  then show ?thesis using server_invD(5) [OF assms(1) ps(1)] by (auto simp: proxy_ok_def)
qed

text \<open>The deferred calls of a returning client handler.\<close>

lemma unregister_run:
  assumes "server_inv sv" "sv_clients sv s = Some cs" "cs_pc cs = CReturning"
  shows "\<exists>sv'. run (replicate (length (cs_deferred cs)) (ClientUnregister s)) sv = Some sv' \<and>
    (\<forall>i c. clients (sv_registry sv') i = Some c \<longleftrightarrow>
       clients (sv_registry sv) i = Some c \<and> cc_Stream c \<noteq> s)"
  using assms
proof (induction "cs_deferred cs" arbitrary: sv cs)
  case Nil
  then have "client_ids sv s = []" by (simp add: client_ids_def)
  then have "cc_Stream c \<noteq> s" if "clients (sv_registry sv) i = Some c" for i c
    using client_table.owned_finished [OF server_invD(2) [OF Nil.prems(1)] _ that] by blast
  then show ?case using Nil.hyps by auto
next
  case (Cons i "is")
  let ?cs = "cs\<lparr>cs_deferred := is\<rparr>"
  let ?sv = "put_client s ?cs (sv\<lparr>sv_registry := UnregisterClient i (sv_registry sv)\<rparr>)"
  have d: "cs_deferred cs = i # is" using Cons.hyps(2) by simp
  have e: "exec sv (ClientUnregister s) = Some ?sv"
    using Cons.prems d by (simp add: with_client_def)
  have inv: "server_inv ?sv" using exec_inv [OF Cons.prems(1) e] .
  have cs': "sv_clients ?sv s = Some ?cs" "cs_pc ?cs = CReturning"
    using Cons.prems by (simp_all add: put_client_def)
  obtain c where c: "clients (sv_registry sv) i = Some c" "cc_Stream c = s"
    using client_table.owned_entry [OF server_invD(2) [OF Cons.prems(1)], of i s] d Cons.prems(2)
    by (auto simp: client_ids_def)
  have reg: "clients (sv_registry ?sv) = (clients (sv_registry sv))(i := None)"
    by (simp add: put_client_def client_table.entry_unreg)
  obtain sv' where "run (replicate (length is) (ClientUnregister s)) ?sv = Some sv'"
    and "\<forall>j k. clients (sv_registry sv') j = Some k \<longleftrightarrow>
      clients (sv_registry ?sv) j = Some k \<and> cc_Stream k \<noteq> s"
    using Cons.hyps(1) [OF _ inv cs'] by auto
  then show ?case using d e c by (auto simp: reg)
qed

lemma client_ok_pc:
  "client_ok r cs \<Longrightarrow> cs_pc cs = CCounting ref proxy pkt \<Longrightarrow> cs_registered cs \<and> route_to_proxy r ref proxy pkt"
  "client_ok r cs \<Longrightarrow> cs_pc cs = CSending proxy pkt \<Longrightarrow> cs_registered cs \<and> (\<exists>ref. route_to_proxy r ref proxy pkt)"
  by (simp_all add: client_ok_def)

lemma proxy_ok_pc:
  "proxy_ok r ps \<Longrightarrow> ps_pc ps = PCounting ref client pkt \<Longrightarrow> ps_registered ps \<and> route_to_client r ref client pkt"
  "proxy_ok r ps \<Longrightarrow> ps_pc ps = PSending client pkt \<Longrightarrow> ps_registered ps \<and> (\<exists>ref. route_to_client r ref client pkt)"
  by (simp_all add: proxy_ok_def)

section \<open>Two runs\<close>

definition request :: packet where
  "request = \<lparr>ConnectionId = ''x'', Data = [1, 2, 3],
     ConnTuple = Some \<lparr>SrcIp = ''10.9.9.9'', SrcPortN = 4000, DstIp = v4_string [10, 1, 2, 3], DstPortN = 80\<rparr>,
     PktProtocol = Protocol_PROTOCOL_TCP, Direction = Direction_DIRECTION_FORWARD, Timestamp = 7\<rparr>"

definition response :: packet where
  "response = \<lparr>ConnectionId = ''x'', Data = [9], ConnTuple = None, PktProtocol = Protocol_PROTOCOL_TCP,
     Direction = Direction_DIRECTION_REVERSE, Timestamp = 8\<rparr>"

text \<open>Clients on streams 1 (\<open>a\<close>) and 2 (\<open>b\<close>) and a proxy for 10.0.0.0/8 on stream 9 register.\<close>

definition registrations :: "server_event list" where
  "registrations =
     [OpenClient 1, ClientRecv 1 0 [] True (ClientMessage_Register \<lparr>ClientId = ''a''\<rparr>),
      OpenClient 2, ClientRecv 2 0 [] True (ClientMessage_Register \<lparr>ClientId = ''b''\<rparr>),
      OpenProxy 9, ProxyRecv 9 0 True (ProxyMessage_Register
        \<lparr>ProxyId = ''p'', ManagedCidr = v4_string [10, 0, 0, 0] @ ''/'' @ dec 8\<rparr>)]"

text \<open>Stream 2 asks for the taken identifier \<open>a\<close>, is refused, and sends a packet all the same.\<close>

definition takeover :: "server_event list" where
  "takeover =
     [ClientRecv 2 1 [] True (ClientMessage_Register \<lparr>ClientId = ''a''\<rparr>),
      ClientRecv 2 2 [''p''] True (ClientMessage_Packet request), ClientCount 2, ClientSend 2 True,
      ProxyRecv 9 3 True (ProxyMessage_Packet response), ProxyCount 9, ProxySend 9 True]"

text \<open>Both clients send a packet to the proxy and have not finished sending.\<close>

definition overlapping :: "server_event list" where
  "overlapping =
     [ClientRecv 1 1 [''p''] True (ClientMessage_Packet request),
      ClientRecv 2 1 [''p''] True (ClientMessage_Packet (request\<lparr>ConnectionId := ''y''\<rparr>)),
      ClientCount 1, ClientCount 2]"

definition session_proxy :: proxy_conn where
  "session_proxy = \<lparr>pc_ID = ''p'', pc_Stream = 9, pc_RemoteAddr = ''grpc-stream'',
     pc_ManagedCIDR = v4_string [10, 0, 0, 0] @ ''/'' @ dec 8, pc_ConnectedAt = 0\<rparr>"

lemma find_session_proxy:
  "proxys r ''p'' = Some session_proxy \<Longrightarrow> findProxyByCIDR [''p''] (v4_string [10, 1, 2, 3]) r = Some session_proxy"
proof -
  assume p: "proxys r ''p'' = Some session_proxy"
  have "\<forall>j<8. ip_bit [10, 0, 0, 0] j = ip_bit [10, 1, 2, 3] j"
    by (simp add: ip_bit_def)
  then have "proxy_serves (v4_string [10, 1, 2, 3]) session_proxy"
    by (subst proxy_serves_v4 [of "[10, 0, 0, 0]" "[10, 1, 2, 3]" 8]) (simp_all add: session_proxy_def)
  then show ?thesis by (simp add: findProxyByCIDR_find p)
qed

definition registered_server :: server where
  "registered_server =
     \<lparr>sv_registry = \<lparr>clients = [''a'' \<mapsto> \<lparr>cc_ID = ''a'', cc_Stream = 1, cc_RemoteAddr = ''grpc-stream'', cc_ConnectedAt = 0\<rparr>,
          ''b'' \<mapsto> \<lparr>cc_ID = ''b'', cc_Stream = 2, cc_RemoteAddr = ''grpc-stream'', cc_ConnectedAt = 0\<rparr>],
        proxys = [''p'' \<mapsto> session_proxy], connections = Map.empty, routes = []\<rparr>,
      sv_clients = [1 \<mapsto> \<lparr>cs_pc = CLoop, cs_clientID = ''a'', cs_registered = True, cs_deferred = [''a'']\<rparr>,
          2 \<mapsto> \<lparr>cs_pc = CLoop, cs_clientID = ''b'', cs_registered = True, cs_deferred = [''b'']\<rparr>],
      sv_proxys = [9 \<mapsto> \<lparr>ps_pc = PLoop, ps_proxyID = ''p'',
          ps_managedCIDR = v4_string [10, 0, 0, 0] @ ''/'' @ dec 8, ps_registered = True, ps_deferred = [''p'']\<rparr>],
      sv_to_clients = [(1, ClientMessage_Ack (register_ack_for None)), (2, ClientMessage_Ack (register_ack_for None))],
      sv_to_proxys = [(9, ProxyMessage_Ack (register_ack_for None))]\<rparr>"

lemmas exec_simps = with_client_def with_proxy_def put_client_def put_proxy_def Let_def

lemma run_registrations: "run registrations server_init = Some registered_server"
  by (simp add: registrations_def server_init_def NewRegistry_def exec_simps new_client_session_def
    new_proxy_session_def RegisterClientStream_def RegisterProxyStream_def registered_server_def
    session_proxy_def del: register_ack_for.simps)

lemma run_append: "run (xs @ ys) sv = (case run xs sv of None \<Rightarrow> None | Some sv' \<Rightarrow> run ys sv')"
  by (induction xs arbitrary: sv) (auto split: option.split)

lemma reachable_registered: "reachable registered_server"
  by (rule reachable_run [OF reachable_init run_registrations])

lemma request_dest [simp]: "packet_dest request = v4_string [10, 1, 2, 3]"
  by (simp add: packet_dest_def request_def)

lemma registered_find:
  "findProxyByCIDR [''p''] (v4_string [10, 1, 2, 3]) (sv_registry registered_server) = Some session_proxy"
  by (rule find_session_proxy) (simp add: registered_server_def)

lemma session_lookup:
  "connections r (ConnectionId request) = None \<Longrightarrow> proxys r ''p'' = Some session_proxy \<Longrightarrow>
   RouteFromClient_lookup now [''p''] cid request r =
     (r\<lparr>routes := routes r @ [fresh_route now ''x'' cid ''p''],
        connections := (connections r)(''x'' \<mapsto> length (routes r))\<rparr>, Inr (length (routes r), session_proxy))"
  using lookup_new [of r request "[''p'']" session_proxy now cid] find_session_proxy [of r]
  by (simp add: session_proxy_def) (simp add: request_def)

section \<open>Properties\<close>

text \<open>C6: In every state the server can reach, whatever its handlers interleave, the tables of clients and
  proxies hold no stale stream: every entry is filed under its identifier and belongs to a stream whose
  handler is registered and has this identifier still to unregister, and a handler with nothing left to
  unregister has no entry. A client handler that is counting or sending is registered and holds a route
  of its packet's connection to the proxy it sends to; a proxy handler that is counting or sending is registered and
  holds a route of its packet's connection to the client it sends to.\<close>

theorem server_sessions_consistent:
  assumes "reachable sv"
  shows "(clients (sv_registry sv) i = Some c \<longrightarrow> cc_ID c = i \<and>
      (\<exists>cs. sv_clients sv (cc_Stream c) = Some cs \<and> i \<in> set (cs_deferred cs) \<and> cs_registered cs)) \<and>
    (proxys (sv_registry sv) i = Some p \<longrightarrow> pc_ID p = i \<and>
      (\<exists>ps. sv_proxys sv (pc_Stream p) = Some ps \<and> i \<in> set (ps_deferred ps) \<and> ps_registered ps)) \<and>
    (sv_clients sv s = Some cs \<and> cs_deferred cs = [] \<and> clients (sv_registry sv) i = Some c \<longrightarrow>
      cc_Stream c \<noteq> s) \<and>
    (sv_proxys sv s = Some ps \<and> ps_deferred ps = [] \<and> proxys (sv_registry sv) i = Some p \<longrightarrow>
      pc_Stream p \<noteq> s) \<and>
    (sv_clients sv s = Some cs \<and> cs_pc cs = CCounting ref proxy pkt \<longrightarrow>
      cs_registered cs \<and> route_to_proxy (sv_registry sv) ref proxy pkt) \<and>
    (sv_clients sv s = Some cs \<and> cs_pc cs = CSending proxy pkt \<longrightarrow>
      cs_registered cs \<and> (\<exists>ref. route_to_proxy (sv_registry sv) ref proxy pkt)) \<and>
    (sv_proxys sv s = Some ps \<and> ps_pc ps = PCounting ref client pkt \<longrightarrow>
      ps_registered ps \<and> route_to_client (sv_registry sv) ref client pkt) \<and>
    (sv_proxys sv s = Some ps \<and> ps_pc ps = PSending client pkt \<longrightarrow>
      ps_registered ps \<and> (\<exists>ref. route_to_client (sv_registry sv) ref client pkt))"
proof -
  note inv = reachable_inv [OF assms]
  have "clients (sv_registry sv) i = Some c \<Longrightarrow> cc_ID c = i \<and>
      (\<exists>cs. sv_clients sv (cc_Stream c) = Some cs \<and> i \<in> set (cs_deferred cs) \<and> cs_registered cs)"
    using client_entry_live [OF inv] reg_okD(1) [OF server_invD(1) [OF inv]] by blast
  moreover have "proxys (sv_registry sv) i = Some p \<Longrightarrow> pc_ID p = i \<and>
      (\<exists>ps. sv_proxys sv (pc_Stream p) = Some ps \<and> i \<in> set (ps_deferred ps) \<and> ps_registered ps)"
    using proxy_entry_live [OF inv] reg_okD(2) [OF server_invD(1) [OF inv]] by blast
  moreover have "sv_clients sv s = Some cs \<Longrightarrow> cs_deferred cs = [] \<Longrightarrow>
      clients (sv_registry sv) i = Some c \<Longrightarrow> cc_Stream c \<noteq> s"
    using client_table.owned_finished [OF server_invD(2) [OF inv]] by (simp add: client_ids_def)
  moreover have "sv_proxys sv s = Some ps \<Longrightarrow> ps_deferred ps = [] \<Longrightarrow>
      proxys (sv_registry sv) i = Some p \<Longrightarrow> pc_Stream p \<noteq> s"
    using proxy_table.owned_finished [OF server_invD(3) [OF inv]] by (simp add: proxy_ids_def)
  ultimately show ?thesis
    using client_ok_pc [OF server_invD(4) [OF inv]] proxy_ok_pc [OF server_invD(5) [OF inv]] by blast
qed

text \<open>In this state the proxy's handler has looked up the route of an answer.\<close>

definition answering_server :: server where
  "answering_server = the (run (take 5 takeover) registered_server)"

lemma answering_server:
  "reachable answering_server"
  "\<exists>ps client. sv_proxys answering_server 9 = Some ps \<and> ps_pc ps = PCounting 0 client response"
proof -
  obtain sv where sv: "run (take 5 takeover) registered_server = Some sv"
      "\<exists>ps client. sv_proxys sv 9 = Some ps \<and> ps_pc ps = PCounting 0 client response"
    by (simp add: takeover_def registered_server_def exec_simps RegisterClientStream_def session_lookup
      RouteFromClient_count_def RouteFromProxy_lookup_def heap_update_def fresh_route_def response_def del: register_ack_for.simps)
  then show "reachable answering_server"
    "\<exists>ps client. sv_proxys answering_server 9 = Some ps \<and> ps_pc ps = PCounting 0 client response"
    using reachable_run [OF reachable_registered sv(1)] by (simp_all add: answering_server_def)
qed

theorem server_sessions_consistent_witness:
  "\<exists>client. route_to_client (sv_registry answering_server) 0 client response"
proof -
  obtain ps client where p: "sv_proxys answering_server 9 = Some ps" "ps_pc ps = PCounting 0 client response"
    using answering_server(2) by blast
  have "route_to_client (sv_registry answering_server) 0 client response"
    using server_sessions_consistent [OF answering_server(1), of _ _ _ 9 _ ps 0 _ response client] p by blast
  then show ?thesis by blast
qed

text \<open>A client handler that returns runs its deferred calls to the end, one for each
  identifier it registered, and they remove exactly the entries of its stream: every entry of
  another stream, and nothing else, is still there.\<close>

theorem returning_client_unregisters:
  assumes "reachable sv" "sv_clients sv s = Some cs" "cs_pc cs = CReturning"
  shows "\<exists>sv'. run (replicate (length (cs_deferred cs)) (ClientUnregister s)) sv = Some sv' \<and>
    (\<forall>i c. clients (sv_registry sv') i = Some c \<longleftrightarrow>
       clients (sv_registry sv) i = Some c \<and> cc_Stream c \<noteq> s)"
  by (rule unregister_run [OF reachable_inv [OF assms(1)] assms(2,3)])

definition returning_server :: server where
  "returning_server = put_client 2 \<lparr>cs_pc = CReturning, cs_clientID = ''b'', cs_registered = True,
     cs_deferred = [''b'']\<rparr> registered_server"

lemma returning_reachable: "reachable returning_server"
  by (rule reachable_step [OF reachable_registered, of "ClientEnd 2"])
    (simp add: returning_server_def with_client_def registered_server_def put_client_def)

theorem returning_client_unregisters_witness:
  "\<exists>sv'. run [ClientUnregister 2] returning_server = Some sv' \<and>
     (\<exists>c. clients (sv_registry sv') ''a'' = Some c) \<and> clients (sv_registry sv') ''b'' = None"
proof -
  obtain sv' where run: "run [ClientUnregister 2] returning_server = Some sv'"
    and left: "\<forall>i c. clients (sv_registry sv') i = Some c \<longleftrightarrow>
       clients (sv_registry returning_server) i = Some c \<and> cc_Stream c \<noteq> 2"
    using returning_client_unregisters [OF returning_reachable, of 2]
    by (auto simp: returning_server_def put_client_def)
  have "clients (sv_registry returning_server) ''b'' =
      Some \<lparr>cc_ID = ''b'', cc_Stream = 2, cc_RemoteAddr = ''grpc-stream'', cc_ConnectedAt = 0\<rparr>"
    "\<exists>c. clients (sv_registry returning_server) ''a'' = Some c \<and> cc_Stream c \<noteq> 2"
    by (simp_all add: returning_server_def put_client_def registered_server_def)
  then have "\<exists>c. clients (sv_registry sv') ''a'' = Some c" "clients (sv_registry sv') ''b'' \<noteq> Some c" for c
    using left by auto
  then show ?thesis using run by (metis not_Some_eq)
qed

text \<open>A proxy that was found is in the table under its own identifier.\<close>

lemma found_proxy_registered:
  assumes "reg_ok r" "findProxyByCIDR order d r = Some p"
  shows "proxys r (pc_ID p) = Some p"
proof -
  have "p \<in> set (range_values (proxys r) order)"
    using assms(2) by (auto simp: findProxyByCIDR_find find_Some_iff)
  then obtain i where "proxys r i = Some p" by (auto simp: range_values_def split: option.splits)
  then show ?thesis using reg_okD(2) [OF assms(1)] by fastforce
qed

lemma lookup_new_found:
  assumes "reg_ok r" "connections r (ConnectionId pkt) = None" "findProxyByCIDR order (packet_dest pkt) r = Some p"
  shows "RouteFromClient_lookup now order cid pkt r =
    (r\<lparr>routes := routes r @ [fresh_route now (ConnectionId pkt) cid (pc_ID p)],
       connections := (connections r)(ConnectionId pkt \<mapsto> length (routes r))\<rparr>, Inr (length (routes r), p))"
  by (simp add: lookup_new [OF assms(2,3)] found_proxy_registered [OF assms(1,3)])

text \<open>C33: A refused registration does not stop a client from routing under the refused name. In every
  reachable state, when the registered client on stream \<open>s\<close> asks for an identifier that stream \<open>t\<close> holds, it is
  refused; but the packet of a new connection that it sends next is routed all the same, its route
  is recorded for the identifier of \<open>t\<close>, and the proxy's answer to it is sent to stream \<open>t\<close>.\<close>

theorem refused_registration_misroutes:
  assumes "reachable sv" "sv_clients sv s = Some cs" "cs_registered cs" "cs_pc cs = CLoop"
    and "clients (sv_registry sv) a = Some c" "cc_Stream c = t" "t \<noteq> s"
    and "connections (sv_registry sv) (ConnectionId pkt) = None"
    and "findProxyByCIDR order (packet_dest pkt) (sv_registry sv) = Some p"
    and "sv_proxys sv u = Some ps" "ps_registered ps" "ps_pc ps = PLoop" "ConnectionId resp = ConnectionId pkt"
  shows "\<exists>sv'. run [ClientRecv s n1 [] True (ClientMessage_Register \<lparr>ClientId = a\<rparr>),
      ClientRecv s n2 order True (ClientMessage_Packet pkt), ClientCount s, ClientSend s True,
      ProxyRecv u n3 True (ProxyMessage_Packet resp), ProxyCount u, ProxySend u True] sv = Some sv' \<and>
    sv_to_proxys sv' = sv_to_proxys sv @ [(pc_Stream p, ProxyMessage_Packet pkt)] \<and>
    map_option rt_ClientID (route_of (sv_registry sv') (ConnectionId pkt)) = Some a \<and>
    sv_to_clients sv' = sv_to_clients sv @
      [(s, ClientMessage_Ack \<lparr>Success = False, Message = ''client '' @ a @ '' already registered''\<rparr>),
       (t, ClientMessage_Packet resp)]"
proof -
  note found = lookup_new_found [OF server_invD(1) [OF reachable_inv [OF assms(1)]] assms(8,9)]
  show ?thesis
    using assms(2-7,10-13)
    by (simp add: exec_simps RegisterClientStream_def found RouteFromClient_count_def RouteFromProxy_lookup_def
      RouteFromProxy_count_def heap_update_def fresh_route_def route_of_def)
qed

theorem refused_registration_misroutes_witness:
  "\<exists>sv. run (registrations @ takeover) server_init = Some sv \<and>
     last (sv_to_clients sv) = (1, ClientMessage_Packet response)"
proof -
  have "\<exists>sv. run takeover registered_server = Some sv \<and> last (sv_to_clients sv) = (1, ClientMessage_Packet response)"
  proof -
    have r: "sv_clients registered_server 2 = Some \<lparr>cs_pc = CLoop, cs_clientID = ''b'', cs_registered = True, cs_deferred = [''b'']\<rparr>"
      "clients (sv_registry registered_server) ''a'' = Some \<lparr>cc_ID = ''a'', cc_Stream = 1, cc_RemoteAddr = ''grpc-stream'', cc_ConnectedAt = 0\<rparr>"
      "connections (sv_registry registered_server) i = None"
      "sv_proxys registered_server 9 = Some \<lparr>ps_pc = PLoop, ps_proxyID = ''p'',
          ps_managedCIDR = v4_string [10, 0, 0, 0] @ ''/'' @ dec 8, ps_registered = True, ps_deferred = [''p'']\<rparr>" for i
      by (simp_all add: registered_server_def)
    have d: "findProxyByCIDR [''p''] (packet_dest request) (sv_registry registered_server) = Some session_proxy"
      by (simp add: registered_find)
    have "ConnectionId response = ConnectionId request" by (simp add: response_def request_def)
    then show ?thesis
      using refused_registration_misroutes [OF reachable_registered r(1) _ _ r(2) _ _ r(3) d r(4), of 1 response 1 2 3]
      unfolding takeover_def by auto
  qed
  then show ?thesis by (auto simp: run_append run_registrations)
qed

text \<open>C36: Nothing serialises the sends to a stream. From every reachable state in which the registered
  handlers of two client streams wait for messages, packets of two new connections to
  destinations of the same proxy lead to a state where both handlers are about to call \<open>Send\<close> on the
  stream of that proxy, and each can: gRPC does not allow this to happen at the same time.\<close>

theorem concurrent_sends_reachable:
  assumes "reachable sv" "s \<noteq> t" "sv_clients sv s = Some cs" "cs_registered cs" "cs_pc cs = CLoop"
    and "sv_clients sv t = Some ct" "cs_registered ct" "cs_pc ct = CLoop"
    and "connections (sv_registry sv) (ConnectionId pkt) = None" "connections (sv_registry sv) (ConnectionId pkt') = None"
      "ConnectionId pkt \<noteq> ConnectionId pkt'"
    and "findProxyByCIDR order (packet_dest pkt) (sv_registry sv) = Some p"
      "findProxyByCIDR order (packet_dest pkt') (sv_registry sv) = Some p"
  shows "\<exists>sv' cs' ct'. run [ClientRecv s n1 order True (ClientMessage_Packet pkt),
      ClientRecv t n2 order True (ClientMessage_Packet pkt'), ClientCount s, ClientCount t] sv = Some sv' \<and> reachable sv' \<and>
    sv_clients sv' s = Some cs' \<and> cs_pc cs' = CSending p pkt \<and> sv_clients sv' t = Some ct' \<and> cs_pc ct' = CSending p pkt' \<and>
    (\<exists>sv1. exec sv' (ClientSend s True) = Some sv1 \<and>
       sv_to_proxys sv1 = sv_to_proxys sv @ [(pc_Stream p, ProxyMessage_Packet pkt)]) \<and>
    (\<exists>sv2. exec sv' (ClientSend t True) = Some sv2 \<and>
       sv_to_proxys sv2 = sv_to_proxys sv @ [(pc_Stream p, ProxyMessage_Packet pkt')])"
proof -
  note ok = server_invD(1) [OF reachable_inv [OF assms(1)]]
  let ?n = "length (routes (sv_registry sv))"
  note one = lookup_new_found [OF ok assms(9,12)]
  obtain r1 where r1: "RouteFromClient_lookup n1 order (cs_clientID cs) pkt (sv_registry sv) = (r1, Inr (?n, p))"
      "connections r1 = (connections (sv_registry sv))(ConnectionId pkt \<mapsto> ?n)" "proxys r1 = proxys (sv_registry sv)"
      "length (routes r1) = Suc ?n"
    by (simp add: one)
  have "reg_ok r1" using RouteFromClient_lookup_ok [OF ok, of n1 order "cs_clientID cs" pkt] r1(1) by simp
  moreover have "connections r1 (ConnectionId pkt') = None" using assms(10,11) r1(2) by simp
  moreover have "findProxyByCIDR order (packet_dest pkt') r1 = Some p"
    using assms(13) r1(3) by (simp add: findProxyByCIDR_find)
  ultimately obtain r2 where r2: "RouteFromClient_lookup n2 order (cs_clientID ct) pkt' r1 = (r2, Inr (Suc ?n, p))"
    using r1(4) by (simp add: lookup_new_found)
  obtain sv' where sv': "run [ClientRecv s n1 order True (ClientMessage_Packet pkt),
      ClientRecv t n2 order True (ClientMessage_Packet pkt'), ClientCount s, ClientCount t] sv = Some sv'"
      "sv_clients sv' s = Some (cs\<lparr>cs_pc := CSending p pkt\<rparr>)" "sv_clients sv' t = Some (ct\<lparr>cs_pc := CSending p pkt'\<rparr>)"
      "sv_to_proxys sv' = sv_to_proxys sv"
    using assms(2-8) by (simp add: exec_simps r1(1) r2)
  then show ?thesis
    using reachable_run [OF assms(1) sv'(1)] by (simp add: exec_simps)
qed

theorem concurrent_sends_reachable_witness:
  "\<exists>sv cs ct. run overlapping registered_server = Some sv \<and> sv_clients sv 1 = Some cs \<and> cs_pc cs = CSending session_proxy request \<and>
     sv_clients sv 2 = Some ct \<and> cs_pc ct = CSending session_proxy (request\<lparr>ConnectionId := ''y''\<rparr>)"
proof -
  have r: "sv_clients registered_server 1 = Some \<lparr>cs_pc = CLoop, cs_clientID = ''a'', cs_registered = True, cs_deferred = [''a'']\<rparr>"
    "sv_clients registered_server 2 = Some \<lparr>cs_pc = CLoop, cs_clientID = ''b'', cs_registered = True, cs_deferred = [''b'']\<rparr>"
    "connections (sv_registry registered_server) i = None" for i
    by (simp_all add: registered_server_def)
  have d: "findProxyByCIDR [''p''] (packet_dest request) (sv_registry registered_server) = Some session_proxy"
    "findProxyByCIDR [''p''] (packet_dest (request\<lparr>ConnectionId := ''y''\<rparr>)) (sv_registry registered_server) = Some session_proxy"
    using registered_find request_dest by (simp_all add: packet_dest_def)
  have "ConnectionId request \<noteq> ConnectionId (request\<lparr>ConnectionId := ''y''\<rparr>)" by (simp add: request_def)
  then show ?thesis
    using concurrent_sends_reachable [OF reachable_registered _ r(1) _ _ r(2) _ _ r(3) r(3) _ d, of 1 1]
    unfolding overlapping_def by auto
qed

end
