(* ===== verification/GracefulStop.thy ===== *)
theory GracefulStop
  imports Session
begin

text \<open>
  The stop of the gRPC servers in \<open>internal/server/grpc_server.go\<close>: it waits for the handlers of all streams, each of
  which is one of the handlers of Session, until the context is done.
\<close>

section \<open>Stopping\<close>

text \<open>\<open>Stop\<close> waits for \<open>GracefulStop\<close> of the clients' gRPC server and then of the proxies', each of which returns when the
  handlers of all its streams have, or until the context is done, and then forces them. A server that is stopping opens no stream,
  but the proxies' server still does while the clients' is waited for.\<close>

datatype stop_way = Graceful | Forced

definition client_handler_returned :: "server \<Rightarrow> nat \<Rightarrow> bool" where
  "client_handler_returned sv s = (case sv_clients sv s of
     None \<Rightarrow> True | Some cs \<Rightarrow> cs_pc cs = CReturning \<and> cs_deferred cs = [])"

definition proxy_handler_returned :: "server \<Rightarrow> nat \<Rightarrow> bool" where
  "proxy_handler_returned sv s = (case sv_proxys sv s of
     None \<Rightarrow> True | Some ps \<Rightarrow> ps_pc ps = PReturning \<and> ps_deferred ps = [])"

fun opens_stream :: "server_event \<Rightarrow> bool" where
  "opens_stream (OpenClient s) = True"
| "opens_stream (OpenProxy s) = True"
| "opens_stream _ = False"

definition refused :: "nat list \<Rightarrow> server \<Rightarrow> server_event \<Rightarrow> bool" where
  "refused client_streams sv e = (case e of
     OpenClient s \<Rightarrow> True | OpenProxy s \<Rightarrow> list_all (client_handler_returned sv) client_streams | _ \<Rightarrow> False)"

text \<open>What happens while \<open>Stop\<close> waits, with the proxies' streams that are open or have been.\<close>

fun graceful_run :: "nat list \<Rightarrow> nat list \<Rightarrow> server_event list \<Rightarrow> server \<Rightarrow> (nat list \<times> server) option" where
  "graceful_run cs ps [] sv = Some (ps, sv)"
| "graceful_run cs ps (e # es) sv =
     (if refused cs sv e then None
      else case exec sv e of
        None \<Rightarrow> None
      | Some sv' \<Rightarrow> graceful_run cs (case e of OpenProxy s \<Rightarrow> s # ps | _ \<Rightarrow> ps) es sv')"

text \<open>\<open>es\<close> is what happens before the context is done.\<close>

definition GRPCServer_Stop :: "nat list \<Rightarrow> nat list \<Rightarrow> server_event list \<Rightarrow> server \<Rightarrow> (server \<times> stop_way) option" where
  "GRPCServer_Stop client_streams proxy_streams es sv =
     (case graceful_run client_streams proxy_streams es sv of
        None \<Rightarrow> None
      | Some (proxy_streams, sv) \<Rightarrow>
          Some (sv, if list_all (client_handler_returned sv) client_streams \<and> list_all (proxy_handler_returned sv) proxy_streams
                    then Graceful else Forced))"

lemma graceful_run_run: "graceful_run cs ps es sv = Some (ps', sv') \<Longrightarrow> run es sv = Some sv'"
  by (induction es arbitrary: sv ps) (auto split: if_splits option.splits)

lemma run_graceful_run: "\<not> list_ex opens_stream es \<Longrightarrow> run es sv = Some sv' \<Longrightarrow> graceful_run cs ps es sv = Some (ps, sv')"
proof (induction es arbitrary: sv)
  case (Cons e es)
  then have "\<not> refused cs sv e" "(case e of OpenProxy s \<Rightarrow> s # ps | _ \<Rightarrow> ps) = ps" by (cases e; simp add: refused_def)+
  then show ?case using Cons by (simp del: exec.simps split: option.splits)
qed simp

text \<open>What makes a client's handler return: its stream ends, or an acknowledgement cannot be sent.\<close>

fun ends_client :: "nat \<Rightarrow> server_event \<Rightarrow> bool" where
  "ends_client s (ClientEnd t) \<longleftrightarrow> t = s"
| "ends_client s (ClientRecv t now order send_ok m) \<longleftrightarrow> t = s \<and> \<not> send_ok"
| "ends_client s _ \<longleftrightarrow> False"

lemma client_recv_stays:
  "cs_pc cs = CLoop \<Longrightarrow> cs_pc (fst (ClientService_recv now order s True m cs r)) \<noteq> CReturning"
  by (cases m) (auto simp: Let_def split: option.splits prod.splits sum.splits)

lemma put_client_clients [simp]: "sv_clients (put_client s cs sv) = (sv_clients sv)(s \<mapsto> cs)"
  "sv_proxys (put_client s cs sv) = sv_proxys sv"
  by (simp_all add: put_client_def)

lemma put_proxy_clients [simp]: "sv_clients (put_proxy s ps sv) = sv_clients sv"
  "sv_proxys (put_proxy s ps sv) = (sv_proxys sv)(s \<mapsto> ps)"
  by (simp_all add: put_proxy_def)

text \<open>An event of another handler leaves this one alone.\<close>

lemma exec_client_frame: "exec_client e t cs sv = Some sv' \<Longrightarrow> s \<noteq> t \<Longrightarrow> sv_clients sv' s = sv_clients sv s"
  by (cases e) (auto simp: Let_def split: if_splits client_pc.splits prod.splits list.splits)

lemma exec_proxy_frame: "exec_proxy e t ps sv = Some sv' \<Longrightarrow> sv_clients sv' = sv_clients sv"
  by (cases e) (auto simp: Let_def split: if_splits proxy_pc.splits prod.splits list.splits)

fun of_client :: "nat \<Rightarrow> server_event \<Rightarrow> bool" where
  "of_client s (ClientRecv t now order send_ok m) \<longleftrightarrow> t = s"
| "of_client s (ClientCount t) \<longleftrightarrow> t = s"
| "of_client s (ClientSend t ok) \<longleftrightarrow> t = s"
| "of_client s (ClientEnd t) \<longleftrightarrow> t = s"
| "of_client s (ClientUnregister t) \<longleftrightarrow> t = s"
| "of_client s _ \<longleftrightarrow> False"

lemma exec_client_stays:
  assumes "cs_pc cs \<noteq> CReturning" "exec_client e s cs sv = Some sv'" "\<not> ends_client s e" "of_client s e"
  shows "\<exists>cs'. sv_clients sv' s = Some cs' \<and> cs_pc cs' \<noteq> CReturning"
proof (cases e)
  case (ClientRecv t now order ok m)
  then have "cs_pc cs = CLoop" "ok" using assms by (auto split: if_splits)
  with ClientRecv assms(2) client_recv_stays [of cs now order s m "sv_registry sv"] show ?thesis
    by (auto simp: Let_def simp del: ClientService_recv.simps split: prod.splits)
qed (use assms in \<open>auto split: client_pc.splits prod.splits\<close>)

lemma exec_of_client:
  "exec sv e = Some sv' \<Longrightarrow> of_client t e \<Longrightarrow> \<exists>cs. sv_clients sv t = Some cs \<and> exec_client e t cs sv = Some sv'"
  by (cases e) (auto simp: with_client_def simp del: exec_client.simps split: option.splits)

lemma exec_not_of_client:
  assumes "exec sv e = Some sv'" "\<not> of_client s e" "sv_clients sv s = Some cs"
  shows "sv_clients sv' s = Some cs"
  using assms by (cases e) (auto simp: with_client_def with_proxy_def simp del: exec_client.simps exec_proxy.simps
    dest!: exec_client_frame [where s = s] exec_proxy_frame split: option.splits if_splits)

lemma exec_stays:
  assumes "exec sv e = Some sv'" "sv_clients sv s = Some cs" "cs_pc cs \<noteq> CReturning" "\<not> ends_client s e"
  shows "\<exists>cs'. sv_clients sv' s = Some cs' \<and> cs_pc cs' \<noteq> CReturning"
proof (cases "of_client s e")
  case True
  then show ?thesis using exec_of_client [OF assms(1)] exec_client_stays assms(2-4) by fastforce
next
  case False
  then show ?thesis using exec_not_of_client [OF assms(1) _ assms(2)] assms(3) by simp
qed

lemma run_stays:
  "run es sv = Some sv' \<Longrightarrow> sv_clients sv s = Some cs \<Longrightarrow> cs_pc cs \<noteq> CReturning \<Longrightarrow> \<not> list_ex (ends_client s) es \<Longrightarrow>
   \<exists>cs'. sv_clients sv' s = Some cs' \<and> cs_pc cs' \<noteq> CReturning"
proof (induction es arbitrary: sv cs)
  case (Cons e es)
  then show ?case using exec_stays [of sv e _ s cs] by (auto split: option.splits)
qed simp


text \<open>Every handler can return: it finishes the packet at hand, its stream ends, and it runs its deferred calls.\<close>

definition returns_client :: "nat \<Rightarrow> server \<Rightarrow> server \<Rightarrow> bool" where
  "returns_client s sv sv' \<longleftrightarrow> client_handler_returned sv' s \<and> sv_proxys sv' = sv_proxys sv \<and>
     (\<forall>t. t \<noteq> s \<longrightarrow> sv_clients sv' t = sv_clients sv t)"

definition returns_proxy :: "nat \<Rightarrow> server \<Rightarrow> server \<Rightarrow> bool" where
  "returns_proxy s sv sv' \<longleftrightarrow> proxy_handler_returned sv' s \<and> sv_clients sv' = sv_clients sv \<and>
     (\<forall>t. t \<noteq> s \<longrightarrow> sv_proxys sv' t = sv_proxys sv t)"

lemma client_unregisters:
  "sv_clients sv s = Some cs \<Longrightarrow> cs_pc cs = CReturning \<Longrightarrow>
   \<exists>es sv'. \<not> list_ex opens_stream es \<and> run es sv = Some sv' \<and> returns_client s sv sv'"
proof (induction "cs_deferred cs" arbitrary: sv cs)
  case Nil
  then show ?case by (intro exI [of _ "[]"] exI [of _ sv]) (simp add: returns_client_def client_handler_returned_def)
next
  case (Cons i js)
  let ?cs = "cs\<lparr>cs_deferred := js\<rparr>"
  let ?sv = "put_client s ?cs (sv\<lparr>sv_registry := UnregisterClient i (sv_registry sv)\<rparr>)"
  have step: "exec sv (ClientUnregister s) = Some ?sv"
    using Cons.prems Cons.hyps(2) [symmetric] by (simp add: with_client_def)
  obtain es sv' where "\<not> list_ex opens_stream es" "run es ?sv = Some sv'" "returns_client s ?sv sv'"
    using Cons.hyps(1) [of ?cs ?sv] Cons.prems by auto
  with step show ?case by (intro exI [of _ "ClientUnregister s # es"] exI [of _ sv']) (simp add: returns_client_def)
qed

lemma client_ends:
  assumes "sv_clients sv s = Some cs" "cs_pc cs = CLoop"
  shows "\<exists>es sv'. \<not> list_ex opens_stream es \<and> run es sv = Some sv' \<and> returns_client s sv sv'"
proof -
  let ?sv = "put_client s (cs\<lparr>cs_pc := CReturning\<rparr>) sv"
  obtain es sv' where "\<not> list_ex opens_stream es" "run es ?sv = Some sv'" "returns_client s ?sv sv'"
    using client_unregisters [of ?sv s "cs\<lparr>cs_pc := CReturning\<rparr>"] by auto
  with assms show ?thesis
    by (intro exI [of _ "ClientEnd s # es"] exI [of _ sv']) (simp add: with_client_def returns_client_def)
qed

lemma client_can_return: "\<exists>es sv'. \<not> list_ex opens_stream es \<and> run es sv = Some sv' \<and> returns_client s sv sv'"
proof (cases "sv_clients sv s")
  case None
  then show ?thesis by (intro exI [of _ "[]"] exI [of _ sv]) (simp add: returns_client_def client_handler_returned_def)
next
  case cs: (Some cs)
  have sent: "\<exists>es sv'. \<not> list_ex opens_stream es \<and> run es sv = Some sv' \<and> returns_client s sv sv'"
    if "sv_clients sv s = Some cs" "cs_pc cs = CSending proxy pkt" for sv cs proxy pkt
  proof -
    let ?sv = "put_client s (cs\<lparr>cs_pc := CLoop\<rparr>) sv"
    obtain es sv' where "\<not> list_ex opens_stream es" "run es ?sv = Some sv'" "returns_client s ?sv sv'"
      using client_ends [of ?sv s "cs\<lparr>cs_pc := CLoop\<rparr>"] by auto
    with that show ?thesis
      by (intro exI [of _ "ClientSend s False # es"] exI [of _ sv']) (simp add: with_client_def returns_client_def)
  qed
  show ?thesis
  proof (cases "cs_pc cs")
    case (CCounting ref proxy pkt)
    let ?sv = "put_client s (cs\<lparr>cs_pc := CSending proxy pkt\<rparr>) (sv\<lparr>sv_registry := RouteFromClient_count ref pkt (sv_registry sv)\<rparr>)"
    obtain es sv' where "\<not> list_ex opens_stream es" "run es ?sv = Some sv'" "returns_client s ?sv sv'"
      using sent [of ?sv "cs\<lparr>cs_pc := CSending proxy pkt\<rparr>"] by auto
    with cs CCounting show ?thesis
      by (intro exI [of _ "ClientCount s # es"] exI [of _ sv']) (simp add: with_client_def returns_client_def)
  qed (use cs client_ends sent client_unregisters in blast)+
qed

lemma proxy_unregisters:
  "sv_proxys sv s = Some ps \<Longrightarrow> ps_pc ps = PReturning \<Longrightarrow>
   \<exists>es sv'. \<not> list_ex opens_stream es \<and> run es sv = Some sv' \<and> returns_proxy s sv sv'"
proof (induction "ps_deferred ps" arbitrary: sv ps)
  case Nil
  then show ?case by (intro exI [of _ "[]"] exI [of _ sv]) (simp add: returns_proxy_def proxy_handler_returned_def)
next
  case (Cons i js)
  let ?ps = "ps\<lparr>ps_deferred := js\<rparr>"
  let ?sv = "put_proxy s ?ps (sv\<lparr>sv_registry := UnregisterProxy i (sv_registry sv)\<rparr>)"
  have step: "exec sv (ProxyUnregister s) = Some ?sv"
    using Cons.prems Cons.hyps(2) [symmetric] by (simp add: with_proxy_def)
  obtain es sv' where "\<not> list_ex opens_stream es" "run es ?sv = Some sv'" "returns_proxy s ?sv sv'"
    using Cons.hyps(1) [of ?ps ?sv] Cons.prems by auto
  with step show ?case by (intro exI [of _ "ProxyUnregister s # es"] exI [of _ sv']) (simp add: returns_proxy_def)
qed

lemma proxy_ends:
  assumes "sv_proxys sv s = Some ps" "ps_pc ps = PLoop"
  shows "\<exists>es sv'. \<not> list_ex opens_stream es \<and> run es sv = Some sv' \<and> returns_proxy s sv sv'"
proof -
  let ?sv = "put_proxy s (ps\<lparr>ps_pc := PReturning\<rparr>) sv"
  obtain es sv' where "\<not> list_ex opens_stream es" "run es ?sv = Some sv'" "returns_proxy s ?sv sv'"
    using proxy_unregisters [of ?sv s "ps\<lparr>ps_pc := PReturning\<rparr>"] by auto
  with assms show ?thesis
    by (intro exI [of _ "ProxyEnd s # es"] exI [of _ sv']) (simp add: with_proxy_def returns_proxy_def)
qed

lemma proxy_can_return: "\<exists>es sv'. \<not> list_ex opens_stream es \<and> run es sv = Some sv' \<and> returns_proxy s sv sv'"
proof (cases "sv_proxys sv s")
  case None
  then show ?thesis by (intro exI [of _ "[]"] exI [of _ sv]) (simp add: returns_proxy_def proxy_handler_returned_def)
next
  case ps: (Some ps)
  have sent: "\<exists>es sv'. \<not> list_ex opens_stream es \<and> run es sv = Some sv' \<and> returns_proxy s sv sv'"
    if "sv_proxys sv s = Some ps" "ps_pc ps = PSending client pkt" for sv ps client pkt
  proof -
    let ?sv = "put_proxy s (ps\<lparr>ps_pc := PLoop\<rparr>) sv"
    obtain es sv' where "\<not> list_ex opens_stream es" "run es ?sv = Some sv'" "returns_proxy s ?sv sv'"
      using proxy_ends [of ?sv s "ps\<lparr>ps_pc := PLoop\<rparr>"] by auto
    with that show ?thesis
      by (intro exI [of _ "ProxySend s False # es"] exI [of _ sv']) (simp add: with_proxy_def returns_proxy_def)
  qed
  show ?thesis
  proof (cases "ps_pc ps")
    case (PCounting ref client pkt)
    let ?sv = "put_proxy s (ps\<lparr>ps_pc := PSending client pkt\<rparr>) (sv\<lparr>sv_registry := RouteFromProxy_count ref pkt (sv_registry sv)\<rparr>)"
    obtain es sv' where "\<not> list_ex opens_stream es" "run es ?sv = Some sv'" "returns_proxy s ?sv sv'"
      using sent [of ?sv "ps\<lparr>ps_pc := PSending client pkt\<rparr>"] by auto
    with ps PCounting show ?thesis
      by (intro exI [of _ "ProxyCount s # es"] exI [of _ sv']) (simp add: with_proxy_def returns_proxy_def)
  qed (use ps proxy_ends sent proxy_unregisters in blast)+
qed

text \<open>The handlers of one kind, while those of the other kind are left alone.\<close>

locale stream_handlers =
  fixes returned :: "server \<Rightarrow> nat \<Rightarrow> bool" and others :: "server \<Rightarrow> 'o"
  assumes can_return: "\<exists>es sv'. \<not> list_ex opens_stream es \<and> run es sv = Some sv' \<and> returned sv' s \<and>
    (\<forall>t. returned sv t \<longrightarrow> returned sv' t) \<and> others sv' = others sv"
begin

lemma all_can_return:
  "\<exists>es sv'. \<not> list_ex opens_stream es \<and> run es sv = Some sv' \<and> list_all (returned sv') ss \<and> others sv' = others sv"
proof (induction ss arbitrary: sv)
  case Nil
  show ?case by (intro exI [of _ "[]"] exI [of _ sv]) simp
next
  case (Cons s ss)
  obtain es sv1 where 1: "\<not> list_ex opens_stream es" "run es sv = Some sv1" "list_all (returned sv1) ss" "others sv1 = others sv"
    using Cons.IH by blast
  obtain es' sv' where 2: "\<not> list_ex opens_stream es'" "run es' sv1 = Some sv'" "returned sv' s"
      "\<forall>t. returned sv1 t \<longrightarrow> returned sv' t" "others sv' = others sv1"
    using can_return by blast
  then show ?case using 1 by (intro exI [of _ "es @ es'"] exI [of _ sv']) (auto simp: run_append list_all_iff)
qed

end

interpretation client_handlers: stream_handlers client_handler_returned sv_proxys
proof
  fix sv s
  obtain es sv' where r: "\<not> list_ex opens_stream es" "run es sv = Some sv'" "returns_client s sv sv'"
    using client_can_return by blast
  then have "client_handler_returned sv t \<Longrightarrow> client_handler_returned sv' t" for t
    by (cases "t = s") (auto simp: returns_client_def client_handler_returned_def)
  with r show "\<exists>es sv'. \<not> list_ex opens_stream es \<and> run es sv = Some sv' \<and> client_handler_returned sv' s \<and>
      (\<forall>t. client_handler_returned sv t \<longrightarrow> client_handler_returned sv' t) \<and> sv_proxys sv' = sv_proxys sv"
    by (auto simp: returns_client_def)
qed

interpretation proxy_handlers: stream_handlers proxy_handler_returned sv_clients
proof
  fix sv s
  obtain es sv' where r: "\<not> list_ex opens_stream es" "run es sv = Some sv'" "returns_proxy s sv sv'"
    using proxy_can_return by blast
  then have "proxy_handler_returned sv t \<Longrightarrow> proxy_handler_returned sv' t" for t
    by (cases "t = s") (auto simp: returns_proxy_def proxy_handler_returned_def)
  with r show "\<exists>es sv'. \<not> list_ex opens_stream es \<and> run es sv = Some sv' \<and> proxy_handler_returned sv' s \<and>
      (\<forall>t. proxy_handler_returned sv t \<longrightarrow> proxy_handler_returned sv' t) \<and> sv_clients sv' = sv_clients sv"
    by (auto simp: returns_proxy_def)
qed

section \<open>Properties\<close>

text \<open>C19: The server's stop is graceful only when every client leaves. From every state the handlers of all streams can
  return, once their streams end, and then the stop is graceful. But as long as one client keeps its stream
  open, whatever else happens, the stop runs into the deadline and is forced.\<close>

theorem server_stop_waits_for_clients:
  "(\<exists>es sv'. GRPCServer_Stop cs ps es sv = Some (sv', Graceful)) \<and>
   (s \<in> set cs \<and> sv_clients sv s = Some c \<and> cs_pc c \<noteq> CReturning \<and> \<not> list_ex (ends_client s) es \<and>
      GRPCServer_Stop cs ps es sv = Some (sv', way) \<longrightarrow> way = Forced)"
proof
  obtain es1 sv1 where 1: "\<not> list_ex opens_stream es1" "run es1 sv = Some sv1" "list_all (client_handler_returned sv1) cs"
    using client_handlers.all_can_return by blast
  obtain es2 sv2 where 2: "\<not> list_ex opens_stream es2" "run es2 sv1 = Some sv2" "list_all (proxy_handler_returned sv2) ps"
      "sv_clients sv2 = sv_clients sv1"
    using proxy_handlers.all_can_return by blast
  have "client_handler_returned sv2 = client_handler_returned sv1" using 2(4) by (simp add: fun_eq_iff client_handler_returned_def)
  then have "GRPCServer_Stop cs ps (es1 @ es2) sv = Some (sv2, Graceful)"
    using 1 2 run_graceful_run [of "es1 @ es2" sv sv2] by (simp add: GRPCServer_Stop_def run_append)
  then show "\<exists>es sv'. GRPCServer_Stop cs ps es sv = Some (sv', Graceful)" by blast
next
  show "s \<in> set cs \<and> sv_clients sv s = Some c \<and> cs_pc c \<noteq> CReturning \<and> \<not> list_ex (ends_client s) es \<and>
      GRPCServer_Stop cs ps es sv = Some (sv', way) \<longrightarrow> way = Forced"
    using run_stays [OF graceful_run_run, of cs ps es sv _ _ s c]
    by (fastforce simp: GRPCServer_Stop_def client_handler_returned_def list_all_iff split: if_splits option.splits)
qed


theorem server_stop_waits_for_clients_witness:
  "\<exists>sv. run [OpenClient 1, ClientRecv 1 0 [] True (ClientMessage_Register \<lparr>ClientId = ''c''\<rparr>)] server_init = Some sv \<and>
     map_option snd (GRPCServer_Stop [1] [] [CleanupTick 5 []] sv) = Some Forced"
proof -
  obtain sv where sv: "run [OpenClient 1, ClientRecv 1 0 [] True (ClientMessage_Register \<lparr>ClientId = ''c''\<rparr>)] server_init = Some sv"
      "\<exists>c. sv_clients sv 1 = Some c \<and> cs_pc c \<noteq> CReturning"
    by (simp add: server_init_def with_client_def put_client_def new_client_session_def RegisterClientStream_def NewRegistry_def Let_def)
  obtain sv' way where g: "GRPCServer_Stop [1] [] [CleanupTick 5 []] sv = Some (sv', way)"
    by (simp add: GRPCServer_Stop_def refused_def)
  then have "way = Forced" using server_stop_waits_for_clients [of "[1]" "[]" sv 1 _ "[CleanupTick 5 []]" sv' way] sv(2) by auto
  with sv(1) g show ?thesis by simp
qed

end
