(* ===== verification/System.thy ===== *)
theory System
  imports Session Client Proxy
begin

text \<open>
  The whole system: one server, a client on every client stream and a proxy on every proxy stream,
  each with its own steps. The only thing assumed of the network is that what a side receives on a
  stream was sent on that stream: packets may be lost, delayed, repeated and reordered.
\<close>

section \<open>The system\<close>

record system =
  sy_clients :: "nat \<Rightarrow> client"
  sy_server :: server
  sy_proxys :: "nat \<Rightarrow> proxy"

definition system_init :: system where
  "system_init = \<lparr>sy_clients = (\<lambda>s. client_init), sy_server = server_init, sy_proxys = (\<lambda>s. proxy_init)\<rparr>"

datatype system_event =
    ClientStep nat client_event
  | ServerStep server_event
  | ProxyStep nat proxy_event

text \<open>Whether the packet an event receives has been sent.\<close>

fun client_may :: "nat \<Rightarrow> client_event \<Rightarrow> server \<Rightarrow> bool" where
  "client_may s (RecvMsg m) sv \<longleftrightarrow> (s, m) \<in> set (sv_to_clients sv)"
| "client_may s _ sv \<longleftrightarrow> True"

fun server_may :: "server_event \<Rightarrow> (nat \<Rightarrow> client) \<Rightarrow> (nat \<Rightarrow> proxy) \<Rightarrow> bool" where
  "server_may (ClientRecv s now order ok (ClientMessage_Packet p)) cls pxs \<longleftrightarrow>
     ClientMessage_Packet p \<in> set (cl_sent (cls s))"
| "server_may (ProxyRecv s now ok (ProxyMessage_Packet p)) cls pxs \<longleftrightarrow>
     ProxyMessage_Packet p \<in> set (px_sent (pxs s))"
| "server_may _ cls pxs \<longleftrightarrow> True"

fun proxy_may :: "nat \<Rightarrow> proxy_event \<Rightarrow> server \<Rightarrow> bool" where
  "proxy_may s (PRecv m now dialed) sv \<longleftrightarrow> (s, m) \<in> set (sv_to_proxys sv)"
| "proxy_may s _ sv \<longleftrightarrow> True"

fun sys_exec :: "(string \<Rightarrow> int option) \<Rightarrow> system \<Rightarrow> system_event \<Rightarrow> system option" where
  "sys_exec services sy (ClientStep s e) =
     (if client_may s e (sy_server sy)
      then map_option (\<lambda>cl. sy\<lparr>sy_clients := (sy_clients sy)(s := cl)\<rparr>) (cl_exec services (sy_clients sy s) e) else None)"
| "sys_exec services sy (ServerStep e) =
     (if server_may e (sy_clients sy) (sy_proxys sy)
      then map_option (\<lambda>sv. sy\<lparr>sy_server := sv\<rparr>) (exec (sy_server sy) e) else None)"
| "sys_exec services sy (ProxyStep s e) =
     (if proxy_may s e (sy_server sy)
      then map_option (\<lambda>px. sy\<lparr>sy_proxys := (sy_proxys sy)(s := px)\<rparr>) (px_exec (sy_proxys sy s) e) else None)"

inductive sys_reachable :: "(string \<Rightarrow> int option) \<Rightarrow> system \<Rightarrow> bool" for services where
  sys_init: "sys_reachable services system_init"
| sys_step: "sys_reachable services sy \<Longrightarrow> sys_exec services sy e = Some sy' \<Longrightarrow> sys_reachable services sy'"

fun sys_run :: "(string \<Rightarrow> int option) \<Rightarrow> system_event list \<Rightarrow> system \<Rightarrow> system option" where
  "sys_run services [] sy = Some sy"
| "sys_run services (e # es) sy =
     (case sys_exec services sy e of None \<Rightarrow> None | Some sy' \<Rightarrow> sys_run services es sy')"

lemma sys_reachable_run: "sys_reachable services sy \<Longrightarrow> sys_run services es sy = Some sy' \<Longrightarrow> sys_reachable services sy'"
  by (induction es arbitrary: sy) (auto split: option.splits intro: sys_step)

text \<open>Each part of a reachable system is in a reachable state of its own.\<close>

lemma sys_reachable_parts:
  "sys_reachable services sy \<Longrightarrow>
   (\<forall>s. cl_reachable services (sy_clients sy s)) \<and> reachable (sy_server sy) \<and> (\<forall>s. px_reachable (sy_proxys sy s))"
proof (induction rule: sys_reachable.induct)
  case sys_init
  then show ?case by (simp add: system_init_def cl_init reachable_init px_init)
next
  case (sys_step sy e sy')
  note parts = sys_step.IH [THEN conjunct1, THEN spec] sys_step.IH [THEN conjunct2, THEN conjunct1]
    sys_step.IH [THEN conjunct2, THEN conjunct2, THEN spec]
  from sys_step.hyps(2) show ?case
    by (cases e) (use parts in \<open>auto split: if_splits intro: cl_step [OF parts(1)] reachable_step px_step [OF parts(3)]\<close>)
qed

section \<open>Where packets come from\<close>

text \<open>The forward and the backward packets of a system: those its clients and its proxies have sent.\<close>

definition forward_packets :: "(nat \<Rightarrow> client) \<Rightarrow> packet set" where
  "forward_packets cls = {p. \<exists>s. ClientMessage_Packet p \<in> set (cl_sent (cls s))}"

definition backward_packets :: "(nat \<Rightarrow> proxy) \<Rightarrow> packet set" where
  "backward_packets pxs = {p. \<exists>s. ProxyMessage_Packet p \<in> set (px_sent (pxs s))}"

text \<open>The server invents no packet.\<close>

definition server_packets_ok :: "packet set \<Rightarrow> packet set \<Rightarrow> server \<Rightarrow> bool" where
  "server_packets_ok F B sv \<longleftrightarrow>
     (\<forall>s cs. sv_clients sv s = Some cs \<longrightarrow>
        (case cs_pc cs of CCounting ref proxy p \<Rightarrow> p \<in> F | CSending proxy p \<Rightarrow> p \<in> F | _ \<Rightarrow> True)) \<and>
     (\<forall>s ps. sv_proxys sv s = Some ps \<longrightarrow>
        (case ps_pc ps of PCounting ref client p \<Rightarrow> p \<in> B | PSending client p \<Rightarrow> p \<in> B | _ \<Rightarrow> True)) \<and>
     (\<forall>s p. (s, ProxyMessage_Packet p) \<in> set (sv_to_proxys sv) \<longrightarrow> p \<in> F) \<and>
     (\<forall>s p. (s, ClientMessage_Packet p) \<in> set (sv_to_clients sv) \<longrightarrow> p \<in> B)"

definition received_ok :: "packet set \<Rightarrow> packet set \<Rightarrow> server_event \<Rightarrow> bool" where
  "received_ok F B e \<longleftrightarrow> (case e of
     ClientRecv s now order ok (ClientMessage_Packet p) \<Rightarrow> p \<in> F
   | ProxyRecv s now ok (ProxyMessage_Packet p) \<Rightarrow> p \<in> B
   | _ \<Rightarrow> True)"

lemma client_recv_packets:
  assumes "ClientService_recv now order s ok m cs r = (cs', r', out)" "cs_pc cs = CLoop"
  shows "\<forall>p. ClientMessage_Packet p \<notin> set out"
    and "(case cs_pc cs' of CCounting ref proxy p \<Rightarrow> m = ClientMessage_Packet p | CSending proxy p \<Rightarrow> False | _ \<Rightarrow> True)"
  using assms by (cases m; auto simp: Let_def split: prod.splits option.splits sum.splits if_splits)+

lemma proxy_recv_packets:
  assumes "ProxyService_recv now s ok m ps r = (ps', r', out)" "ps_pc ps = PLoop"
  shows "\<forall>p. ProxyMessage_Packet p \<notin> set out"
    and "(case ps_pc ps' of PCounting ref client p \<Rightarrow> m = ProxyMessage_Packet p | PSending client p \<Rightarrow> False | _ \<Rightarrow> True)"
  using assms by (cases m; auto simp: Let_def split: prod.splits option.splits sum.splits if_splits)+


lemma server_packets_put_client:
  assumes "server_packets_ok F B sv"
    and "case cs_pc cs of CCounting ref proxy p \<Rightarrow> p \<in> F | CSending proxy p \<Rightarrow> p \<in> F | _ \<Rightarrow> True"
    and "sv_clients sv' = (sv_clients sv)(s \<mapsto> cs)" "sv_proxys sv' = sv_proxys sv"
    and "\<forall>t p. (t, ProxyMessage_Packet p) \<in> set (sv_to_proxys sv') \<longrightarrow> (t, ProxyMessage_Packet p) \<in> set (sv_to_proxys sv) \<or> p \<in> F"
    and "\<forall>t p. (t, ClientMessage_Packet p) \<in> set (sv_to_clients sv') \<longrightarrow> (t, ClientMessage_Packet p) \<in> set (sv_to_clients sv)"
  shows "server_packets_ok F B sv'"
  using assms unfolding server_packets_ok_def by (simp, blast)

lemma server_packets_put_proxy:
  assumes "server_packets_ok F B sv"
    and "case ps_pc ps of PCounting ref client p \<Rightarrow> p \<in> B | PSending client p \<Rightarrow> p \<in> B | _ \<Rightarrow> True"
    and "sv_proxys sv' = (sv_proxys sv)(s \<mapsto> ps)" "sv_clients sv' = sv_clients sv"
    and "\<forall>t p. (t, ProxyMessage_Packet p) \<in> set (sv_to_proxys sv') \<longrightarrow> (t, ProxyMessage_Packet p) \<in> set (sv_to_proxys sv)"
    and "\<forall>t p. (t, ClientMessage_Packet p) \<in> set (sv_to_clients sv') \<longrightarrow> (t, ClientMessage_Packet p) \<in> set (sv_to_clients sv) \<or> p \<in> B"
  shows "server_packets_ok F B sv'"
  using assms unfolding server_packets_ok_def by (simp, blast)

lemma server_packetsD:
  assumes "server_packets_ok F B sv"
  shows "sv_clients sv s = Some cs \<Longrightarrow> case cs_pc cs of CCounting ref proxy p \<Rightarrow> p \<in> F | CSending proxy p \<Rightarrow> p \<in> F | _ \<Rightarrow> True"
    and "sv_proxys sv s = Some ps \<Longrightarrow> case ps_pc ps of PCounting ref client p \<Rightarrow> p \<in> B | PSending client p \<Rightarrow> p \<in> B | _ \<Rightarrow> True"
    and "(s, ProxyMessage_Packet p) \<in> set (sv_to_proxys sv) \<Longrightarrow> p \<in> F"
    and "(s, ClientMessage_Packet p) \<in> set (sv_to_clients sv) \<Longrightarrow> p \<in> B"
  using assms unfolding server_packets_ok_def by blast+

lemma exec_client_packets:
  assumes ok: "server_packets_ok F B sv" and cs: "sv_clients sv s = Some cs" and r: "received_ok F B e"
    and e: "exec_client e s cs sv = Some sv'"
  shows "server_packets_ok F B sv'"
proof (cases e)
  case (ClientRecv s' now order ok' m)
  obtain cs' r' out where c: "ClientService_recv now order s ok' m cs (sv_registry sv) = (cs', r', out)"
    by (cases "ClientService_recv now order s ok' m cs (sv_registry sv)")
  have l: "cs_pc cs = CLoop" using e ClientRecv by (simp split: if_splits)
  note p = client_recv_packets [OF c l]
  have sv': "sv' = put_client s cs' (sv\<lparr>sv_registry := r', sv_to_clients := sv_to_clients sv @ map (\<lambda>m. (s, m)) out\<rparr>)"
    using e ClientRecv l c by simp
  show ?thesis
    by (rule server_packets_put_client [OF ok, where cs = cs' and s = s])
      (use p r ClientRecv in \<open>auto simp: sv' put_client_def received_ok_def split: client_pc.splits\<close>)
next
  case (ClientCount s')
  then show ?thesis
    using e server_packetsD(1) [OF ok cs]
    by (auto split: client_pc.splits simp: put_client_def intro!: server_packets_put_client [OF ok, where s = s])
next
  case (ClientSend s' ok')
  then show ?thesis
    using e server_packetsD(1) [OF ok cs]
    by (auto split: client_pc.splits if_splits simp: put_client_def intro!: server_packets_put_client [OF ok, where s = s])
next
  case (ClientEnd s')
  then show ?thesis
    using e by (auto split: if_splits simp: put_client_def intro!: server_packets_put_client [OF ok, where s = s])
next
  case (ClientUnregister s')
  then show ?thesis
    using e by (auto split: client_pc.splits list.splits simp: put_client_def intro!: server_packets_put_client [OF ok, where s = s])
qed (use e in simp_all)

lemma exec_proxy_packets:
  assumes ok: "server_packets_ok F B sv" and ps: "sv_proxys sv s = Some ps" and r: "received_ok F B e"
    and e: "exec_proxy e s ps sv = Some sv'"
  shows "server_packets_ok F B sv'"
proof (cases e)
  case (ProxyRecv s' now ok' m)
  obtain ps' r' out where c: "ProxyService_recv now s ok' m ps (sv_registry sv) = (ps', r', out)"
    by (cases "ProxyService_recv now s ok' m ps (sv_registry sv)")
  have l: "ps_pc ps = PLoop" using e ProxyRecv by (simp split: if_splits)
  note p = proxy_recv_packets [OF c l]
  have sv': "sv' = put_proxy s ps' (sv\<lparr>sv_registry := r', sv_to_proxys := sv_to_proxys sv @ map (\<lambda>m. (s, m)) out\<rparr>)"
    using e ProxyRecv l c by simp
  show ?thesis
    by (rule server_packets_put_proxy [OF ok, where ps = ps' and s = s])
      (use p r ProxyRecv in \<open>auto simp: sv' put_proxy_def received_ok_def split: proxy_pc.splits\<close>)
next
  case (ProxyCount s')
  then show ?thesis
    using e server_packetsD(2) [OF ok ps]
    by (auto split: proxy_pc.splits simp: put_proxy_def intro!: server_packets_put_proxy [OF ok, where s = s])
next
  case (ProxySend s' ok')
  then show ?thesis
    using e server_packetsD(2) [OF ok ps]
    by (auto split: proxy_pc.splits if_splits simp: put_proxy_def intro!: server_packets_put_proxy [OF ok, where s = s])
next
  case (ProxyEnd s')
  then show ?thesis
    using e by (auto split: if_splits simp: put_proxy_def intro!: server_packets_put_proxy [OF ok, where s = s])
next
  case (ProxyUnregister s')
  then show ?thesis
    using e by (auto split: proxy_pc.splits list.splits simp: put_proxy_def intro!: server_packets_put_proxy [OF ok, where s = s])
qed (use e in simp_all)

lemma exec_packets:
  assumes ok: "server_packets_ok F B sv" and r: "received_ok F B e" and e: "exec sv e = Some sv'"
  shows "server_packets_ok F B sv'"
proof -
  have c: "server_packets_ok F B sv'" if "with_client s e sv = Some sv'" for s
    using that exec_client_packets [OF ok _ r] by (auto simp: with_client_def split: option.splits)
  have p: "server_packets_ok F B sv'" if "with_proxy s e sv = Some sv'" for s
    using that exec_proxy_packets [OF ok _ r] by (auto simp: with_proxy_def split: option.splits)
  show ?thesis
  proof (cases e)
    case (OpenClient s)
    then show ?thesis
      using e by (auto split: if_splits simp: put_client_def new_client_session_def
        intro!: server_packets_put_client [OF ok, where s = s])
  next
    case (OpenProxy s)
    then show ?thesis
      using e by (auto split: if_splits simp: put_proxy_def new_proxy_session_def
        intro!: server_packets_put_proxy [OF ok, where s = s])
  next
    case (CleanupTick now order)
    then show ?thesis using e ok by (auto simp: server_packets_ok_def)
  qed (use e c p in auto)
qed

section \<open>The clients and the proxies\<close>

text \<open>What a client writes to local connections was backward; what a proxy writes and dials was
  forward, and a packet without a tuple would have crashed it.\<close>

definition client_packets_ok :: "packet set \<Rightarrow> client \<Rightarrow> bool" where
  "client_packets_ok B cl \<longleftrightarrow> (\<forall>(c, p) \<in> set (cl_written cl). p \<in> B) \<and>
     (case cl_reader cl of RIdle \<Rightarrow> True | RTouch ref p \<Rightarrow> p \<in> B | RWrite ref p \<Rightarrow> p \<in> B)"

lemma cl_exec_packets:
  assumes "client_packets_ok B cl" "cl_exec services cl e = Some cl'"
    and "\<And>p. e = RecvMsg (ClientMessage_Packet p) \<Longrightarrow> p \<in> B"
  shows "client_packets_ok B cl'"
proof (cases e)
  case (RecvMsg m)
  then show ?thesis
    using assms by (cases m) (auto simp: client_packets_ok_def split: reader_pc.splits sum.splits)
qed (use assms in \<open>auto simp: client_packets_ok_def accept_conn_def read_defs handler_return_def write_local_def
  Let_def split: option.splits if_splits reader_pc.splits list.splits sum.splits\<close>)

lemma cl_exec_sent:
  assumes "cl_exec services cl e = Some cl'"
  shows "set (cl_sent cl) \<subseteq> set (cl_sent cl')"
proof (cases e)
  case (RecvMsg m)
  then show ?thesis using assms by (cases m) (auto split: reader_pc.splits sum.splits)
qed (use assms in \<open>auto simp: accept_conn_def read_defs handler_return_def write_local_def
  Let_def split: option.splits if_splits reader_pc.splits list.splits sum.splits\<close>)

text \<open>A state of a target was made by a forward packet: its identifier and its address are the packet's.\<close>

definition made_by :: "packet set \<Rightarrow> target_state \<Rightarrow> bool" where
  "made_by F s \<longleftrightarrow> (\<exists>p \<in> F. \<exists>t. ConnTuple p = Some t \<and> ts_ConnectionID s = ConnectionId p \<and> ts_TargetAddr s = target_addr t)"

definition proxy_packets_ok :: "packet set \<Rightarrow> proxy \<Rightarrow> bool" where
  "proxy_packets_ok F px \<longleftrightarrow> \<not> px_crashed px \<and> (\<forall>s \<in> set (pf_states (px_fwd px)). made_by F s) \<and>
     (\<forall>(c, p) \<in> set (px_written px). p \<in> F) \<and>
     (case px_pc px of PWriting ref p \<Rightarrow> p \<in> F | _ \<Rightarrow> True)"

lemma made_by_active: "made_by F (s\<lparr>ts_LastActivity := now\<rparr>) = made_by F s"
  by (simp add: made_by_def)

lemma touch_target_made_by:
  assumes "\<forall>s \<in> set (pf_states pf). made_by F s"
  shows "\<forall>s \<in> set (pf_states (touch_target now k pf)). made_by F s"
proof (cases "k < length (pf_states pf)")
  case True
  then have "made_by F ((pf_states pf ! k)\<lparr>ts_LastActivity := now\<rparr>)" using assms by (simp add: made_by_active)
  then show ?thesis using assms set_update_subset_insert by (fastforce simp: touch_target_def)
qed (use assms in \<open>simp add: touch_target_def list_update_beyond\<close>)

lemma recv_packet_packets:
  assumes ok: "proxy_packets_ok F px" and p: "p \<in> F" "ConnTuple p \<noteq> None"
  shows "proxy_packets_ok F (recv_packet p now dialed px)"
proof (cases "Forward_enter now dialed p (px_fwd px)")
  case (Ok r)
  obtain pf ref where r: "r = (pf, ref)" by (cases r)
  have "\<forall>s \<in> set (pf_states pf). made_by F s"
    using Ok [unfolded r]
  proof (cases rule: Forward_enter_Ok)
    case old
    then show ?thesis using ok touch_target_made_by [of "px_fwd px" F] by (simp add: proxy_packets_ok_def)
  next
    case (new t c)
    then show ?thesis using ok p by (auto simp: proxy_packets_ok_def made_by_def)
  qed
  then show ?thesis using ok p by (simp add: recv_packet_def Ok r proxy_packets_ok_def)
next
  case Panic
  then show ?thesis using p by (auto simp: Forward_enter_def Let_def split: option.splits)
qed (use ok in \<open>simp add: recv_packet_def\<close>)

lemma server_step_packets:
  assumes ok: "proxy_packets_ok F px" and e: "server_step px e = Some px'"
    and p: "\<And>p now dialed. e = PRecv (ProxyMessage_Packet p) now dialed \<Longrightarrow> p \<in> F \<and> ConnTuple p \<noteq> None"
  shows "proxy_packets_ok F px'"
proof (cases e)
  case (PRecv m now dialed)
  then show ?thesis using e p ok recv_packet_packets [OF ok] by (cases m) (auto split: if_splits)
qed (use e ok in \<open>auto simp: proxy_packets_ok_def write_target_def
  split: if_splits forward_pc.splits option.splits list.splits\<close>)

lemma reader_step_packets:
  assumes ok: "proxy_packets_ok F px" and e: "reader_step px e = Some px'"
  shows "proxy_packets_ok F px'"
proof -
  note t = touch_target_made_by [of "px_fwd px" F]
  show ?thesis
    using e ok t by (cases e) (auto simp: proxy_packets_ok_def set_reader_def reader_returns_def Let_def
      split: target_reader.splits if_splits)
qed

lemma px_exec_packets:
  assumes "proxy_packets_ok F px" "px_exec px e = Some px'"
    and "\<And>p now dialed. e = PRecv (ProxyMessage_Packet p) now dialed \<Longrightarrow> p \<in> F \<and> ConnTuple p \<noteq> None"
  shows "proxy_packets_ok F px'"
  using assms(2)
  by (cases rule: px_exec_cases) (use assms(1,3) server_step_packets reader_step_packets in blast)+

lemma px_exec_sent:
  assumes "px_exec px e = Some px'"
  shows "set (px_sent px) \<subseteq> set (px_sent px')"
  using assms
proof (cases rule: px_exec_cases)
  case server
  show ?thesis
  proof (cases e)
    case (PRecv m now dialed)
    then show ?thesis using server(2) by (cases m) (auto simp: recv_packet_def split: if_splits outcome.splits)
  qed (use server(2) in \<open>auto simp: write_target_def split: if_splits forward_pc.splits option.splits list.splits\<close>)
next
  case reader
  then show ?thesis
    by (cases e) (auto simp: set_reader_def reader_returns_def Let_def split: target_reader.splits if_splits)
qed

section \<open>The system's invariant\<close>

definition sys_inv :: "system \<Rightarrow> bool" where
  "sys_inv sy \<longleftrightarrow>
     server_packets_ok (forward_packets (sy_clients sy)) (backward_packets (sy_proxys sy)) (sy_server sy) \<and>
     (\<forall>s. client_packets_ok (backward_packets (sy_proxys sy)) (sy_clients sy s)) \<and>
     (\<forall>s. proxy_packets_ok (forward_packets (sy_clients sy)) (sy_proxys sy s))"

text \<open>More packets do no harm.\<close>

lemma server_packets_mono:
  assumes "server_packets_ok F B sv" "F \<subseteq> F'" "B \<subseteq> B'"
  shows "server_packets_ok F' B' sv"
  using assms unfolding server_packets_ok_def
  by (auto split: client_pc.splits proxy_pc.splits; blast)

lemma client_packets_mono: "client_packets_ok B cl \<Longrightarrow> B \<subseteq> B' \<Longrightarrow> client_packets_ok B' cl"
  by (auto simp: client_packets_ok_def split: reader_pc.splits)

lemma proxy_packets_mono: "proxy_packets_ok F px \<Longrightarrow> F \<subseteq> F' \<Longrightarrow> proxy_packets_ok F' px"
  by (auto simp: proxy_packets_ok_def made_by_def split: forward_pc.splits; blast)

lemma forward_packets_grow:
  "set (cl_sent (cls s)) \<subseteq> set (cl_sent cl) \<Longrightarrow> forward_packets cls \<subseteq> forward_packets (cls(s := cl))"
  by (fastforce simp: forward_packets_def)

lemma backward_packets_grow:
  "set (px_sent (pxs s)) \<subseteq> set (px_sent px) \<Longrightarrow> backward_packets pxs \<subseteq> backward_packets (pxs(s := px))"
  by (fastforce simp: backward_packets_def)

text \<open>A forward packet was made by a handler.\<close>

lemma forward_packet_handler:
  assumes "\<And>s. cl_reachable services (cls s)" "p \<in> forward_packets cls"
  obtains s c h where "cl_handlers (cls s) c = Some h" "h_state h \<noteq> Rejected" "ConnectionId p = h_connID h"
    "ConnTuple p = Some (handler_tuple h)"
proof -
  obtain s where "ClientMessage_Packet p \<in> set (cl_sent (cls s))" using assms(2) by (auto simp: forward_packets_def)
  then show thesis
    using client_invD(5) [OF cl_reachable_inv [OF assms(1)], of s] that by (auto simp: sent_ok_def packet_of_conn_def)
qed

text \<open>A backward packet was read from a target.\<close>

lemma backward_packet_target:
  assumes "\<And>q. px_reachable (pxs q)" "p \<in> backward_packets pxs"
  obtains q k where "k < length (pf_states (px_fwd (pxs q)))" "reader_id k (pxs q) = ConnectionId p"
    "(k, p) \<in> set (px_queued (pxs q))" "(k, Data p) \<in> set (px_read (pxs q))"
proof -
  obtain q where q: "ProxyMessage_Packet p \<in> set (px_sent (pxs q))" using assms(2) by (auto simp: backward_packets_def)
  have "p \<in> set (sent_packets ms)" if "ProxyMessage_Packet p \<in> set ms" for ms
    using that by (induction ms rule: sent_packets.induct) auto
  with q have "p \<in> set (sent_packets (px_sent (pxs q)))" by blast
  moreover note inv = px_reachable_stream [OF assms(1), of q]
  ultimately obtain gone where gone: "map snd (px_queued (pxs q)) = gone @ px_responses (pxs q)" "p \<in> set gone"
    using stream_invD(4) [OF inv] by (auto simp: channel_ok_def elim: list_emb_set)
  then have "p \<in> set (map snd (px_queued (pxs q)))" unfolding gone(1) by simp
  then obtain k where k: "(k, p) \<in> set (px_queued (pxs q))" by auto
  then show thesis using queued_was_read [OF assms(1) k] that [of k q] by blast
qed

lemma sys_exec_inv:
  assumes r: "sys_reachable services sy" and inv: "sys_inv sy" and e: "sys_exec services sy e = Some sy'"
  shows "sys_inv sy'"
proof -
  let ?F = "forward_packets (sy_clients sy)" and ?B = "backward_packets (sy_proxys sy)"
  note server = inv [unfolded sys_inv_def, THEN conjunct1]
    and client = inv [unfolded sys_inv_def, THEN conjunct2, THEN conjunct1, THEN spec]
    and proxy = inv [unfolded sys_inv_def, THEN conjunct2, THEN conjunct2, THEN spec]
  have parts: "cl_reachable services (sy_clients sy s)" for s using sys_reachable_parts [OF r] by blast
  show ?thesis
  proof (cases e)
    case (ClientStep s ev)
    then obtain cl where cl: "cl_exec services (sy_clients sy s) ev = Some cl" "client_may s ev (sy_server sy)"
        "sy' = sy\<lparr>sy_clients := (sy_clients sy)(s := cl)\<rparr>"
      using e by (auto split: if_splits)
    have F: "?F \<subseteq> forward_packets ((sy_clients sy)(s := cl))" by (rule forward_packets_grow [of "sy_clients sy" s cl, OF cl_exec_sent [OF cl(1)]])
    have "p \<in> ?B" if "ev = RecvMsg (ClientMessage_Packet p)" for p
      using that cl(2) server_packetsD(4) [OF server] by simp
    then have "client_packets_ok ?B cl" by (rule cl_exec_packets [OF client cl(1)])
    then show ?thesis
      using server_packets_mono [OF server F order_refl] client proxy_packets_mono [OF proxy F] by (simp add: cl(3) sys_inv_def)
  next
    case (ServerStep ev)
    then obtain sv where sv: "exec (sy_server sy) ev = Some sv" "server_may ev (sy_clients sy) (sy_proxys sy)"
        "sy' = sy\<lparr>sy_server := sv\<rparr>"
      using e by (auto split: if_splits)
    have "received_ok ?F ?B ev"
    proof (cases ev)
      case (ClientRecv s now order ok m)
      then show ?thesis using sv(2) by (cases m) (auto simp: received_ok_def forward_packets_def)
    next
      case (ProxyRecv s now ok m)
      then show ?thesis using sv(2) by (cases m) (auto simp: received_ok_def backward_packets_def)
    qed (simp_all add: received_ok_def)
    then show ?thesis using exec_packets [OF server _ sv(1)] client proxy by (simp add: sv(3) sys_inv_def)
  next
    case (ProxyStep s ev)
    then obtain px where px: "px_exec (sy_proxys sy s) ev = Some px" "proxy_may s ev (sy_server sy)"
        "sy' = sy\<lparr>sy_proxys := (sy_proxys sy)(s := px)\<rparr>"
      using e by (auto split: if_splits)
    have B: "?B \<subseteq> backward_packets ((sy_proxys sy)(s := px))" by (rule backward_packets_grow [of "sy_proxys sy" s px, OF px_exec_sent [OF px(1)]])
    have "p \<in> ?F \<and> ConnTuple p \<noteq> None" if "ev = PRecv (ProxyMessage_Packet p) now dialed" for p now dialed
    proof -
      have "p \<in> ?F" using that px(2) server_packetsD(3) [OF server] by simp
      moreover from this obtain s' c h where "ConnTuple p = Some (handler_tuple h)"
        by (rule forward_packet_handler [of services "sy_clients sy" p, OF parts])
      ultimately show ?thesis by simp
    qed
    then have "proxy_packets_ok ?F px" by (rule px_exec_packets [OF proxy px(1)])
    then show ?thesis
      using server_packets_mono [OF server order_refl B] client_packets_mono [OF client B] proxy by (simp add: px(3) sys_inv_def)
  qed
qed

lemma sys_inv_init: "sys_inv system_init"
  by (simp add: sys_inv_def system_init_def server_packets_ok_def server_init_def client_packets_ok_def client_init_def
    proxy_packets_ok_def proxy_init_def NewPacketForwarder_def)

lemma sys_reachable_inv: "sys_reachable services sy \<Longrightarrow> sys_inv sy"
  by (induction rule: sys_reachable.induct) (auto intro: sys_inv_init sys_exec_inv)

text \<open>A handler's identifier is that of its endpoints.\<close>

definition handler_id_ok :: "handler \<Rightarrow> bool" where
  "handler_id_ok h \<longleftrightarrow> h_state h = Rejected \<or>
     h_connID h = GenerateConnectionID (h_srcIP h) (h_srcPort h) (h_dstIP h) (h_dstPort h)"

lemma cl_exec_handler_ids:
  assumes "\<And>c h. cl_handlers cl c = Some h \<Longrightarrow> handler_id_ok h" "cl_exec services cl e = Some cl'"
    and "cl_handlers cl' c = Some h"
  shows "handler_id_ok h"
proof -
  have same: "handler_id_ok h" if "cl_handlers cl' = cl_handlers cl" using that assms by simp
  show ?thesis
  proof (cases e)
    case (Accept c' conn now)
    have new: "handler_id_ok g" if "Handle_open services conn = Some g" for g
      using that by (auto simp: Handle_open_def handler_id_ok_def Let_def split: option.splits outcome.splits)
    have "handler_id_ok rejected_handler" by (simp add: handler_id_ok_def rejected_handler_def)
    with new show ?thesis
      using assms Accept
      by (cases "c = c'"; cases "Handle_open services conn") (auto simp: accept_conn_def split: if_splits)
  next
    case (ReadFails c')
    then obtain g where g: "cl_handlers cl c' = Some g" "h_state g = Running" "cl' = handler_return c' g cl"
      using assms(2) by (auto split: option.splits if_splits)
    then have "handler_id_ok (g\<lparr>h_state := Returned\<rparr>)" using assms(1) [OF g(1)] by (simp add: handler_id_ok_def)
    then show ?thesis using assms(1,3) g by (cases "c = c'") (auto simp: handler_return_def)
  next
    case (RecvMsg m)
    then show ?thesis using assms(2) same by (cases m) (auto split: reader_pc.splits sum.splits)
  qed (use assms(2) same in \<open>auto simp: read_defs write_local_def Let_def
    split: option.splits if_splits reader_pc.splits list.splits sum.splits\<close>)
qed

lemma cl_reachable_handler_ids:
  "cl_reachable services cl \<Longrightarrow> cl_handlers cl c = Some h \<Longrightarrow> handler_id_ok h"
proof (induction arbitrary: c h rule: cl_reachable.induct)
  case (cl_step cl e cl')
  then show ?case using cl_exec_handler_ids by blast
qed (simp add: client_init_def)

section \<open>Answers come from the right target\<close>

definition handler_preimage :: "handler \<Rightarrow> byte list" where
  "handler_preimage h = id_preimage (h_srcIP h) (h_srcPort h) (h_dstIP h) (h_dstPort h)"

text \<open>A handler of the system that was accepted.\<close>

definition accepted_handler :: "system \<Rightarrow> handler \<Rightarrow> bool" where
  "accepted_handler sy h \<longleftrightarrow> (\<exists>s c. cl_handlers (sy_clients sy s) c = Some h \<and> h_state h \<noteq> Rejected)"

lemma same_id_preimage:
  assumes "sys_reachable services sy" "accepted_handler sy h" "accepted_handler sy h'" "h_connID h = h_connID h'"
  shows "take 16 (sha256 (handler_preimage h)) = take 16 (sha256 (handler_preimage h'))"
proof -
  have "handler_id_ok g \<and> h_state g \<noteq> Rejected" if g: "accepted_handler sy g" for g
  proof -
    obtain s c where "cl_handlers (sy_clients sy s) c = Some g" "h_state g \<noteq> Rejected"
      using g by (auto simp: accepted_handler_def)
    moreover have "cl_reachable services (sy_clients sy s)" using sys_reachable_parts [OF assms(1)] by blast
    ultimately show ?thesis using cl_reachable_handler_ids by blast
  qed
  note ids = this
  have "h_connID g = hex_bytes (take 16 (sha256 (handler_preimage g)))" if "accepted_handler sy g" for g
    using ids [OF that] by (auto simp: handler_id_ok_def GenerateConnectionID_def handler_preimage_def)
  then show ?thesis using assms(2-4) by (simp add: hex_bytes_inject)
qed

text \<open>The target that a state of a proxy was made for is the destination of an accepted connection.\<close>

lemma target_of_handler:
  assumes r: "sys_reachable services sy" and k: "k < length (pf_states (px_fwd (sy_proxys sy q)))"
  obtains h where "accepted_handler sy h" "h_connID h = reader_id k (sy_proxys sy q)"
    "ts_TargetAddr (pf_states (px_fwd (sy_proxys sy q)) ! k) = target_addr (handler_tuple h)"
proof -
  have parts: "cl_reachable services (sy_clients sy s)" for s using sys_reachable_parts [OF r] by blast
  have "proxy_packets_ok (forward_packets (sy_clients sy)) (sy_proxys sy q)"
    using sys_reachable_inv [OF r] by (simp add: sys_inv_def)
  then have "made_by (forward_packets (sy_clients sy)) (pf_states (px_fwd (sy_proxys sy q)) ! k)"
    using k by (simp add: proxy_packets_ok_def)
  then obtain p t where p: "p \<in> forward_packets (sy_clients sy)" "ConnTuple p = Some t"
      "reader_id k (sy_proxys sy q) = ConnectionId p" "ts_TargetAddr (pf_states (px_fwd (sy_proxys sy q)) ! k) = target_addr t"
    by (auto simp: made_by_def reader_id_def)
  obtain s c h where "cl_handlers (sy_clients sy s) c = Some h" "h_state h \<noteq> Rejected" "ConnectionId p = h_connID h"
      "ConnTuple p = Some (handler_tuple h)"
    by (rule forward_packet_handler [of services "sy_clients sy" p, OF parts p(1)])
  with p show thesis by (intro that [of h]) (auto simp: accepted_handler_def)
qed

lemma written_origin:
  assumes r: "sys_reachable services sy" and w: "(c, p) \<in> set (cl_written (sy_clients sy s))"
  obtains h q k h' where "cl_handlers (sy_clients sy s) c = Some h" "h_connID h = ConnectionId p" "h_state h \<noteq> Rejected"
    "k < length (pf_states (px_fwd (sy_proxys sy q)))" "reader_id k (sy_proxys sy q) = ConnectionId p"
    "(k, p) \<in> set (px_queued (sy_proxys sy q))" "(k, Data p) \<in> set (px_read (sy_proxys sy q))"
    "accepted_handler sy h'" "h_connID h' = h_connID h"
    "ts_TargetAddr (pf_states (px_fwd (sy_proxys sy q)) ! k) = target_addr (handler_tuple h')"
proof -
  note parts = sys_reachable_parts [OF r, THEN conjunct1, THEN spec]
    sys_reachable_parts [OF r, THEN conjunct2, THEN conjunct2, THEN spec]
  obtain h where h: "cl_handlers (sy_clients sy s) c = Some h" "h_connID h = ConnectionId p" "h_state h \<noteq> Rejected"
    using client_invD(6) [OF cl_reachable_inv [OF parts(1)], of s] w by (auto simp: written_ok_def conn_has_id_def)
  have "p \<in> backward_packets (sy_proxys sy)"
    using sys_reachable_inv [OF r] w by (auto simp: sys_inv_def client_packets_ok_def)
  then obtain q k where k: "k < length (pf_states (px_fwd (sy_proxys sy q)))" "reader_id k (sy_proxys sy q) = ConnectionId p"
      "(k, p) \<in> set (px_queued (sy_proxys sy q))" "(k, Data p) \<in> set (px_read (sy_proxys sy q))"
    by (rule backward_packet_target [OF parts(2)])
  obtain h' where "accepted_handler sy h'" "h_connID h' = reader_id k (sy_proxys sy q)"
      "ts_TargetAddr (pf_states (px_fwd (sy_proxys sy q)) ! k) = target_addr (handler_tuple h')"
    by (rule target_of_handler [OF r k(1)])
  with h k show thesis using that by simp
qed


text \<open>C3: Answers come from the destination, for IPv4. When all accepted connections of all clients have
  IPv4 endpoints and the bytes hashed for them do not collide in SHA-256, the data of every packet
  written to a local connection is the result of one read from a target dialled at this
  connection's own destination. The one exception is a connection accepted in the opposite
  direction, with the two endpoints exchanged, which has the same identifier: then the target may be the
  one dialled for that connection, at the source of this one.\<close>

theorem answers_come_from_destination:
  assumes "sys_reachable services sy" "(c, p) \<in> set (cl_written (sy_clients sy s))"
    and "\<And>h. accepted_handler sy h \<Longrightarrow> to4 (h_srcIP h) \<noteq> [] \<and> to4 (h_dstIP h) \<noteq> []"
    and "\<And>h h'. accepted_handler sy h \<Longrightarrow> accepted_handler sy h' \<Longrightarrow>
      take 16 (sha256 (handler_preimage h)) = take 16 (sha256 (handler_preimage h')) \<Longrightarrow>
      handler_preimage h = handler_preimage h'"
  shows "\<exists>h q k. cl_handlers (sy_clients sy s) c = Some h \<and> h_connID h = ConnectionId p \<and>
    (k, p) \<in> set (px_queued (sy_proxys sy q)) \<and> (k, Data p) \<in> set (px_read (sy_proxys sy q)) \<and>
    (ts_TargetAddr (pf_states (px_fwd (sy_proxys sy q)) ! k) =
       join_host_port (v4_string (to4 (h_dstIP h))) (dec (unat (h_dstPort h))) \<or>
     ts_TargetAddr (pf_states (px_fwd (sy_proxys sy q)) ! k) =
       join_host_port (v4_string (to4 (h_srcIP h))) (dec (unat (h_srcPort h))) \<and>
     (\<exists>h'. accepted_handler sy h' \<and> to4 (h_srcIP h') = to4 (h_dstIP h) \<and> h_srcPort h' = h_dstPort h \<and>
        to4 (h_dstIP h') = to4 (h_srcIP h) \<and> h_dstPort h' = h_srcPort h))"
proof -
  obtain h q k h' where o: "cl_handlers (sy_clients sy s) c = Some h" "h_connID h = ConnectionId p" "h_state h \<noteq> Rejected"
      "(k, p) \<in> set (px_queued (sy_proxys sy q))" "(k, Data p) \<in> set (px_read (sy_proxys sy q))"
      "accepted_handler sy h'" "h_connID h' = h_connID h"
      "ts_TargetAddr (pf_states (px_fwd (sy_proxys sy q)) ! k) = target_addr (handler_tuple h')"
    by (rule written_origin [OF assms(1,2)])
  have h: "accepted_handler sy h" using o(1,3) by (auto simp: accepted_handler_def)
  have v4: "to4 (h_srcIP h) \<noteq> []" "to4 (h_dstIP h) \<noteq> []" "to4 (h_srcIP h') \<noteq> []" "to4 (h_dstIP h') \<noteq> []"
    using assms(3) [OF h] assms(3) [OF o(6)] by auto
  have "handler_preimage h' = handler_preimage h"
    by (rule assms(4) [OF o(6) h same_id_preimage [OF assms(1) o(6) h o(7)]])
  then have "to4 (h_dstIP h') = to4 (h_dstIP h) \<and> h_dstPort h' = h_dstPort h \<or>
      to4 (h_dstIP h') = to4 (h_srcIP h) \<and> h_dstPort h' = h_srcPort h \<and>
      to4 (h_srcIP h') = to4 (h_dstIP h) \<and> h_srcPort h' = h_dstPort h"
    unfolding handler_preimage_def using id_preimage_v4 [OF v4(3,4,1,2)] by blast
  moreover have "target_addr (handler_tuple h') = join_host_port (v4_string (to4 (h_dstIP h'))) (dec (unat (h_dstPort h')))"
    by (simp add: target_addr_def handler_tuple_def ip_string_v4 [OF v4(4)] unat_ucast_u16)
  ultimately show ?thesis using o by (intro exI [of _ h] exI [of _ q] exI [of _ k]) auto
qed

section \<open>A run of the system\<close>

text \<open>A client on stream 1 and a proxy for 10.0.0.0/8 on stream 9; one connection to 10.1.2.3:443.\<close>

definition sys_conn :: net_conn where
  "sys_conn = sample_conn\<lparr>cn_OriginalDst4 := Some \<lparr>sa_Port = be16 0xbb 0x01, sa_Addr = [10, 1, 2, 3]\<rparr>\<rparr>"

definition sys_handler :: handler where
  "sys_handler = the (Handle_open no_services sys_conn)"

lemma sys_conn_v4:
  "cn_TCP sys_conn" "cn_File sys_conn" "cn_OriginalDst4 sys_conn = Some \<lparr>sa_Port = be16 0xbb 0x01, sa_Addr = [10, 1, 2, 3]\<rparr>"
  "length [10, 1, 2, 3 :: byte] = 4" "length [10, 0, 0, 5 :: byte] = 4"
  "cn_RemoteAddr sys_conn = join_host_port (v4_string [10, 0, 0, 5]) (dec (unat (40000 :: u16)))"
  by (simp_all add: sys_conn_def sample_conn_def v4_string_def join_host_port_def dec_eval)

lemma sys_handler:
  "Handle_open no_services sys_conn = Some sys_handler" "h_state sys_handler = Running"
  "DstIp (handler_tuple sys_handler) = v4_string [10, 1, 2, 3]"
  "h_srcIP sys_handler = v4_mapped [10, 0, 0, 5]" "h_dstIP sys_handler = v4_mapped [10, 1, 2, 3]"
  "unat (h_dstPort sys_handler) = 443"
  using Handle_open_v4 [OF sys_conn_v4, of no_services]
  by (simp_all add: sys_handler_def handler_tuple_def ip_string_v4) (simp add: be16_def)

definition sys_request :: packet where
  "sys_request = \<lparr>ConnectionId = h_connID sys_handler, Data = [1, 2, 3], ConnTuple = Some (handler_tuple sys_handler),
     PktProtocol = Protocol_PROTOCOL_TCP, Direction = Direction_DIRECTION_FORWARD, Timestamp = unix_time 0\<rparr>"

definition sys_response :: packet where
  "sys_response = \<lparr>ConnectionId = h_connID sys_handler, Data = [7, 8], ConnTuple = None,
     PktProtocol = Protocol_PROTOCOL_TCP, Direction = Direction_DIRECTION_REVERSE, Timestamp = unix_time 0\<rparr>"

definition sys_events :: "system_event list" where
  "sys_events = map ServerStep registrations @
     [ClientStep 1 (Accept 1 sys_conn 0), ClientStep 1 (ReadData 1 0 [1, 2, 3]), ClientStep 1 (WritePacket True)] @
     [ServerStep (ClientRecv 1 0 [''p''] True (ClientMessage_Packet sys_request)), ServerStep (ClientCount 1),
      ServerStep (ClientSend 1 True)] @
     [ProxyStep 9 (PRecv (ProxyMessage_Packet sys_request) 0 (Some 3)), ProxyStep 9 (PWrite True), ProxyStep 9 (FCheck 0),
      ProxyStep 9 (FRead 0 [7, 8]), ProxyStep 9 (FTouch 0 0 0), ProxyStep 9 (FSend 0), ProxyStep 9 (PSend True)] @
     [ServerStep (ProxyRecv 9 0 True (ProxyMessage_Packet sys_response)), ServerStep (ProxyCount 9), ServerStep (ProxySend 9 True)] @
     [ClientStep 1 (RecvMsg (ClientMessage_Packet sys_response)), ClientStep 1 (TouchState 0), ClientStep 1 (WriteLocal True)]"

lemma sys_run_append:
  "sys_run services (xs @ ys) sy = (case sys_run services xs sy of None \<Rightarrow> None | Some sy' \<Rightarrow> sys_run services ys sy')"
  by (induction xs arbitrary: sy) (auto split: option.split)

lemma sys_run_server:
  "list_all (\<lambda>e. server_may e (sy_clients sy) (sy_proxys sy)) es \<Longrightarrow> run es (sy_server sy) = Some sv \<Longrightarrow>
   sys_run services (map ServerStep es) sy = Some (sy\<lparr>sy_server := sv\<rparr>)"
  by (induction es arbitrary: sy) (auto split: option.splits)

lemma sys_run_client:
  "list_all (\<lambda>e. client_may s e (sy_server sy)) es \<Longrightarrow> cl_run services es (sy_clients sy s) = Some cl \<Longrightarrow>
   sys_run services (map (ClientStep s) es) sy = Some (sy\<lparr>sy_clients := (sy_clients sy)(s := cl)\<rparr>)"
proof (induction es arbitrary: sy)
  case (Cons e es)
  then obtain cl1 where cl1: "cl_exec services (sy_clients sy s) e = Some cl1" "cl_run services es cl1 = Some cl"
    by (auto split: option.splits)
  then show ?case using Cons.IH [of "sy\<lparr>sy_clients := (sy_clients sy)(s := cl1)\<rparr>"] Cons.prems(1) by (simp del: fun_upd_apply) (simp add: fun_upd_def)
qed (cases sy, auto simp: fun_upd_idem)

lemma sys_run_proxy:
  "list_all (\<lambda>e. proxy_may s e (sy_server sy)) es \<Longrightarrow> px_run es (sy_proxys sy s) = Some px \<Longrightarrow>
   sys_run services (map (ProxyStep s) es) sy = Some (sy\<lparr>sy_proxys := (sy_proxys sy)(s := px)\<rparr>)"
proof (induction es arbitrary: sy)
  case (Cons e es)
  then obtain px1 where px1: "px_exec (sy_proxys sy s) e = Some px1" "px_run es px1 = Some px"
    by (auto split: option.splits)
  then show ?case using Cons.IH [of "sy\<lparr>sy_proxys := (sy_proxys sy)(s := px1)\<rparr>"] Cons.prems(1) by (simp del: fun_upd_apply) (simp add: fun_upd_def)
qed (cases sy, auto simp: fun_upd_idem)

text \<open>The run in its parts.\<close>

lemma sys_client_part:
  "\<exists>cl cl'. cl_run no_services [Accept 1 sys_conn 0, ReadData 1 0 [1, 2, 3], WritePacket True] client_init = Some cl \<and>
     cl_sent cl = [ClientMessage_Packet sys_request] \<and>
     cl_run no_services [RecvMsg (ClientMessage_Packet sys_response), TouchState 0, WriteLocal True] cl = Some cl' \<and>
     cl_written cl' = [(1, sys_response)] \<and> cl_handlers cl' = [1 \<mapsto> sys_handler]"
proof -
  have "take 3 (copy_at 0 [1, 2, 3] (cl_bufs client_init 1)) = [1, 2, 3 :: byte]"
    using take_copy_at [of 3 "[1, 2, 3 :: byte]" "cl_bufs client_init 1"] by (simp add: client_init_def)
  then have m: "marshal ((cl_bufs client_init)(1 := copy_at 0 [1, 2, 3] (cl_bufs client_init 1)))
      (handler_packet 1 sys_handler 0 3) = sys_request"
    by (simp add: marshal_def handler_packet_def sys_request_def)
  have i: "cl_handlers client_init = Map.empty" "cl_queue client_init = []" "cl_reader client_init = RIdle"
      "cl_tracker client_init = NewConnectionTracker" "cl_sent client_init = []" "cl_written client_init = []"
      "cl_pending client_init = Map.empty" "cl_taken client_init = None"
    by (simp_all add: client_init_def)
  show ?thesis
    by (simp add: accept_conn_def read_defs sys_handler packetChan_cap_def i m [unfolded One_nat_def numeral_3_eq_3] Track_def UpdateActivity_def touch_def
      NewConnectionTracker_def DeliverResponse_lookup_def DeliverResponse_write_def write_local_def Let_def
      sys_response_def)
qed

lemma sys_lookup:
  "connections r (h_connID sys_handler) = None \<Longrightarrow> proxys r ''p'' = Some session_proxy \<Longrightarrow>
   RouteFromClient_lookup now [''p''] cid sys_request r =
     (r\<lparr>routes := routes r @ [fresh_route now (h_connID sys_handler) cid ''p''],
        connections := (connections r)(h_connID sys_handler \<mapsto> length (routes r))\<rparr>, Inr (length (routes r), session_proxy))"
proof -
  assume a: "connections r (h_connID sys_handler) = None" "proxys r ''p'' = Some session_proxy"
  have "packet_dest sys_request = v4_string [10, 1, 2, 3]" by (simp add: packet_dest_def sys_request_def sys_handler)
  then show ?thesis
    using lookup_new [of r sys_request "[''p'']" session_proxy now cid] find_session_proxy [OF a(2)] a
    by (simp add: session_proxy_def) (simp add: sys_request_def)
qed

lemma sys_server_part:
  "\<exists>sv sv'. run [ClientRecv 1 0 [''p''] True (ClientMessage_Packet sys_request), ClientCount 1, ClientSend 1 True]
      registered_server = Some sv \<and>
     sv_to_proxys sv = sv_to_proxys registered_server @ [(9, ProxyMessage_Packet sys_request)] \<and>
     run [ProxyRecv 9 0 True (ProxyMessage_Packet sys_response), ProxyCount 9, ProxySend 9 True] sv = Some sv' \<and>
     sv_to_clients sv' = sv_to_clients registered_server @ [(1, ClientMessage_Packet sys_response)]"
  by (simp add: registered_server_def exec_simps sys_lookup RouteFromClient_count_def RouteFromProxy_lookup_def
    RouteFromProxy_count_def heap_update_def fresh_route_def sys_response_def del: register_ack_for.simps)
    (simp add: session_proxy_def)

lemma sys_proxy_part:
  "\<exists>px. px_run [PRecv (ProxyMessage_Packet sys_request) 0 (Some 3), PWrite True, FCheck 0, FRead 0 [7, 8], FTouch 0 0 0,
      FSend 0, PSend True] proxy_init = Some px \<and> px_sent px = [ProxyMessage_Packet sys_response] \<and>
     px_read px = [(0, [7, 8])] \<and> px_written px = [(3, sys_request)] \<and> length (pf_states (px_fwd px)) = 1"
  by (simp add: px_run_simps sys_request_def sys_response_def responsePkt_def)


lemma registrations_may: "list_all (\<lambda>e. server_may e cls pxs) registrations"
  by (simp add: registrations_def)

lemma sys_run_events:
  "\<exists>sy. sys_run no_services sys_events system_init = Some sy \<and> sys_reachable no_services sy \<and>
     (1, sys_response) \<in> set (cl_written (sy_clients sy 1)) \<and> (\<forall>h. accepted_handler sy h \<longleftrightarrow> h = sys_handler) \<and>
     cl_handlers (sy_clients sy 1) 1 = Some sys_handler"
proof -
  obtain cl cl' where cl: "cl_run no_services [Accept 1 sys_conn 0, ReadData 1 0 [1, 2, 3], WritePacket True] client_init = Some cl"
     "cl_sent cl = [ClientMessage_Packet sys_request]"
     "cl_run no_services [RecvMsg (ClientMessage_Packet sys_response), TouchState 0, WriteLocal True] cl = Some cl'"
     "cl_written cl' = [(1, sys_response)]" "cl_handlers cl' = [1 \<mapsto> sys_handler]"
    using sys_client_part by blast
  obtain sv sv' where sv: "run [ClientRecv 1 0 [''p''] True (ClientMessage_Packet sys_request), ClientCount 1, ClientSend 1 True]
      registered_server = Some sv" "sv_to_proxys sv = sv_to_proxys registered_server @ [(9, ProxyMessage_Packet sys_request)]"
     "run [ProxyRecv 9 0 True (ProxyMessage_Packet sys_response), ProxyCount 9, ProxySend 9 True] sv = Some sv'"
     "sv_to_clients sv' = sv_to_clients registered_server @ [(1, ClientMessage_Packet sys_response)]"
    using sys_server_part by blast
  obtain px where px: "px_run [PRecv (ProxyMessage_Packet sys_request) 0 (Some 3), PWrite True, FCheck 0, FRead 0 [7, 8],
      FTouch 0 0 0, FSend 0, PSend True] proxy_init = Some px" "px_sent px = [ProxyMessage_Packet sys_response]"
    using sys_proxy_part by blast
  let ?s0 = "system_init\<lparr>sy_server := registered_server\<rparr>"
  let ?s1 = "?s0\<lparr>sy_clients := (sy_clients ?s0)(1 := cl)\<rparr>"
  let ?s2 = "?s1\<lparr>sy_server := sv\<rparr>"
  let ?s3 = "?s2\<lparr>sy_proxys := (sy_proxys ?s2)(9 := px)\<rparr>"
  let ?s4 = "?s3\<lparr>sy_server := sv'\<rparr>"
  let ?s5 = "?s4\<lparr>sy_clients := (sy_clients ?s4)(1 := cl')\<rparr>"
  have "sys_run no_services (map ServerStep registrations) system_init = Some ?s0"
    by (rule sys_run_server [OF registrations_may]) (simp add: system_init_def run_registrations)
  moreover have "sys_run no_services (map (ClientStep 1) [Accept 1 sys_conn 0, ReadData 1 0 [1, 2, 3], WritePacket True]) ?s0 = Some ?s1"
    by (rule sys_run_client) (simp, simp add: system_init_def cl(1) del: cl_run.simps One_nat_def)
  moreover have "sys_run no_services (map ServerStep [ClientRecv 1 0 [''p''] True (ClientMessage_Packet sys_request),
      ClientCount 1, ClientSend 1 True]) ?s1 = Some ?s2"
    by (rule sys_run_server) (simp_all add: cl(2) sv(1) del: run.simps One_nat_def)
  moreover have "sys_run no_services (map (ProxyStep 9) [PRecv (ProxyMessage_Packet sys_request) 0 (Some 3), PWrite True,
      FCheck 0, FRead 0 [7, 8], FTouch 0 0 0, FSend 0, PSend True]) ?s2 = Some ?s3"
    by (rule sys_run_proxy) (simp_all add: sv(2) system_init_def px(1) del: px_run.simps)
  moreover have "sys_run no_services (map ServerStep [ProxyRecv 9 0 True (ProxyMessage_Packet sys_response), ProxyCount 9,
      ProxySend 9 True]) ?s3 = Some ?s4"
    by (rule sys_run_server) (simp_all add: px(2) sv(3) del: run.simps One_nat_def)
  moreover have "sys_run no_services (map (ClientStep 1) [RecvMsg (ClientMessage_Packet sys_response), TouchState 0,
      WriteLocal True]) ?s4 = Some ?s5"
    by (rule sys_run_client) (simp_all add: sv(4) cl(3) del: cl_run.simps One_nat_def)
  ultimately have run: "sys_run no_services sys_events system_init = Some ?s5"
    unfolding sys_events_def sys_run_append list.map by simp
  have "accepted_handler ?s5 h \<longleftrightarrow> h = sys_handler" for h
    using sys_handler(2) by (auto simp: accepted_handler_def cl(5) system_init_def client_init_def split: if_splits)
  with run sys_reachable_run [OF sys_init run] cl(4,5) show ?thesis by (intro exI [of _ ?s5]) simp
qed


theorem answers_come_from_destination_witness:
  "\<exists>sy q k. sys_run no_services sys_events system_init = Some sy \<and> (k, Data sys_response) \<in> set (px_read (sy_proxys sy q)) \<and>
     ts_TargetAddr (pf_states (px_fwd (sy_proxys sy q)) ! k) = join_host_port (v4_string [10, 1, 2, 3]) (dec 443)"
proof -
  obtain sy where sy: "sys_run no_services sys_events system_init = Some sy" "sys_reachable no_services sy"
      "(1, sys_response) \<in> set (cl_written (sy_clients sy 1))" "\<forall>h. accepted_handler sy h \<longleftrightarrow> h = sys_handler"
      "cl_handlers (sy_clients sy 1) 1 = Some sys_handler"
    using sys_run_events by blast
  have v4: "to4 (h_srcIP h) \<noteq> [] \<and> to4 (h_dstIP h) \<noteq> []" if "accepted_handler sy h" for h
    using that sy(4) by (simp add: sys_handler)
  have pre: "handler_preimage h = handler_preimage h'" if "accepted_handler sy h" "accepted_handler sy h'" for h h'
    using that sy(4) by simp
  have "\<exists>h q k. cl_handlers (sy_clients sy 1) 1 = Some h \<and> (k, Data sys_response) \<in> set (px_read (sy_proxys sy q)) \<and>
      (ts_TargetAddr (pf_states (px_fwd (sy_proxys sy q)) ! k) =
       join_host_port (v4_string (to4 (h_dstIP h))) (dec (unat (h_dstPort h))) \<or>
      (\<exists>h'. accepted_handler sy h' \<and> to4 (h_srcIP h') = to4 (h_dstIP h)))"
    using answers_come_from_destination [OF sy(2,3) v4 pre] by blast
  then obtain q k where "(k, Data sys_response) \<in> set (px_read (sy_proxys sy q))"
      "ts_TargetAddr (pf_states (px_fwd (sy_proxys sy q)) ! k) =
       join_host_port (v4_string (to4 (h_dstIP sys_handler))) (dec (unat (h_dstPort sys_handler)))"
    using sy(4,5) by (auto simp: sys_handler)
  then show ?thesis using sy(1) sys_handler(5,6) by auto
qed

end
