(* ===== verification/Streams.thy ===== *)
theory Streams
  imports System
begin

text \<open>
  The order of packets. gRPC delivers the messages of one stream in order and at most once; with such
  streams, packets pass through the read loops of the clients and the proxies and through the handlers
  of the server. Each of these is a relay, which holds at most what it has taken and not yet
  handed on; relays in a row keep the order.
\<close>

section \<open>Relays\<close>

text \<open>A machine that takes packets in, holds some and hands some out, in order. It may lose packets, but
  neither repeat nor reorder them. \<open>may\<close> restricts the steps the law is about.\<close>

locale relay =
  fixes step :: "'s \<Rightarrow> 'e \<Rightarrow> 's option"
    and inp :: "'e \<Rightarrow> 'p list"
    and held :: "'s \<Rightarrow> 'p list"
    and out :: "'s \<Rightarrow> 'p list"
    and may :: "'s \<Rightarrow> 'e \<Rightarrow> bool"
  assumes step_law: "step s e = Some s' \<Longrightarrow> may s e \<Longrightarrow>
    \<exists>new. out s' = out s @ new \<and> subseq (new @ held s') (held s @ inp e)"
begin

lemma relay_step:
  assumes "subseq (out s @ held s) taken" "step s e = Some s'" "may s e"
  shows "subseq (out s' @ held s') (taken @ inp e)"
proof -
  obtain new where new: "out s' = out s @ new" "subseq (new @ held s') (held s @ inp e)"
    using step_law [OF assms(2,3)] by blast
  have "subseq (out s @ new @ held s') (out s @ held s @ inp e)" using new(2) by (simp add: subseq_append')
  also have "subseq \<dots> (taken @ inp e)" using list_emb_append_mono [OF assms(1), of "inp e" "inp e"] by simp
  finally show ?thesis by (simp add: new(1))
qed

lemma relay_holds:
  assumes "set (held s) \<subseteq> set taken" "step s e = Some s'" "may s e"
  shows "set (held s') \<subseteq> set (taken @ inp e)"
proof -
  obtain new where "subseq (new @ held s') (held s @ inp e)" using step_law [OF assms(2,3)] by blast
  then have "set (new @ held s') \<subseteq> set (held s @ inp e)" by (auto elim: list_emb_set)
  then show ?thesis using assms(1) by auto
qed

end

section \<open>What passes through the parts\<close>

fun client_packets :: "client_message list \<Rightarrow> packet list" where
  "client_packets [] = []"
| "client_packets (ClientMessage_Packet p # ms) = p # client_packets ms"
| "client_packets (_ # ms) = client_packets ms"

lemma client_packets_append [simp]: "client_packets (xs @ ys) = client_packets xs @ client_packets ys"
  by (induction xs rule: client_packets.induct) simp_all

text \<open>The read loop of a client.\<close>

fun client_takes :: "client_event \<Rightarrow> packet list" where
  "client_takes (RecvMsg (ClientMessage_Packet p)) = [p]"
| "client_takes _ = []"

definition client_holds :: "client \<Rightarrow> packet list" where
  "client_holds cl = (case cl_reader cl of RIdle \<Rightarrow> [] | RTouch ref p \<Rightarrow> [p] | RWrite ref p \<Rightarrow> [p])"

definition client_hands :: "client \<Rightarrow> packet list" where
  "client_hands cl = map snd (cl_written cl)"

lemmas client_relay_defs = client_holds_def client_hands_def

interpretation client_relay: relay "cl_exec services" client_takes client_holds client_hands "\<lambda>cl e. True" for services
proof
  fix cl e cl' assume s: "cl_exec services cl e = Some cl'"
  show "\<exists>new. client_hands cl' = client_hands cl @ new \<and> subseq (new @ client_holds cl') (client_holds cl @ client_takes e)"
  proof (cases e)
    case (RecvMsg m)
    then show ?thesis using s by (cases m) (auto simp: client_relay_defs split: reader_pc.splits sum.splits)
  qed (use s in \<open>auto simp: client_relay_defs accept_conn_def read_defs handler_return_def write_local_def
    Let_def split: option.splits if_splits reader_pc.splits list.splits sum.splits\<close>)
qed

text \<open>The read loop of a proxy.\<close>

fun proxy_takes :: "proxy_event \<Rightarrow> packet list" where
  "proxy_takes (PRecv (ProxyMessage_Packet p) now dialed) = [p]"
| "proxy_takes _ = []"

definition proxy_holds :: "proxy \<Rightarrow> packet list" where
  "proxy_holds px = (case px_pc px of PWriting ref p \<Rightarrow> [p] | _ \<Rightarrow> [])"

definition proxy_hands :: "proxy \<Rightarrow> packet list" where
  "proxy_hands px = map snd (px_written px)"

lemmas proxy_relay_defs = proxy_holds_def proxy_hands_def

lemma reader_step_writes_nothing:
  "reader_step px e = Some px' \<Longrightarrow> px_pc px' = px_pc px \<and> px_written px' = px_written px \<and> px_sent px' = px_sent px"
  by (cases e) (auto simp: set_reader_def reader_returns_def Let_def split: target_reader.splits if_splits)

interpretation proxy_relay: relay px_exec proxy_takes proxy_holds proxy_hands "\<lambda>px e. True"
proof
  fix px e px' assume "px_exec px e = Some px'"
  then show "\<exists>new. proxy_hands px' = proxy_hands px @ new \<and> subseq (new @ proxy_holds px') (proxy_holds px @ proxy_takes e)"
  proof (cases rule: px_exec_cases)
    case server
    show ?thesis
    proof (cases e)
      case (PRecv m now dialed)
      then show ?thesis
        using server(2) by (cases m) (auto simp: proxy_relay_defs recv_packet_def split: if_splits outcome.splits)
    qed (use server(2) in \<open>auto simp: proxy_relay_defs write_target_def
      split: if_splits forward_pc.splits option.splits list.splits\<close>)
  next
    case reader
    then show ?thesis using reader_step_writes_nothing [OF reader(2)] by (simp add: proxy_relay_defs subseq_rev_drop_many)
  qed
qed

section \<open>The handlers of the server\<close>

text \<open>What the handler of a proxy stream has taken from the stream and not yet sent, and what was sent to
  the clients by any handler; and the same for the client streams.\<close>

fun proxy_stream_takes :: "nat \<Rightarrow> server_event \<Rightarrow> packet list" where
  "proxy_stream_takes q (ProxyRecv q' now ok (ProxyMessage_Packet p)) = (if q' = q then [p] else [])"
| "proxy_stream_takes q _ = []"

definition proxy_stream_holds :: "nat \<Rightarrow> server \<Rightarrow> packet list" where
  "proxy_stream_holds q sv = (case sv_proxys sv q of None \<Rightarrow> []
     | Some ps \<Rightarrow> (case ps_pc ps of PCounting ref client p \<Rightarrow> [p] | PSending client p \<Rightarrow> [p] | _ \<Rightarrow> []))"

definition to_clients :: "server \<Rightarrow> packet list" where
  "to_clients sv = client_packets (map snd (sv_to_clients sv))"

fun client_stream_takes :: "nat \<Rightarrow> server_event \<Rightarrow> packet list" where
  "client_stream_takes s (ClientRecv s' now order ok (ClientMessage_Packet p)) = (if s' = s then [p] else [])"
| "client_stream_takes s _ = []"

definition client_stream_holds :: "nat \<Rightarrow> server \<Rightarrow> packet list" where
  "client_stream_holds s sv = (case sv_clients sv s of None \<Rightarrow> []
     | Some cs \<Rightarrow> (case cs_pc cs of CCounting ref proxy p \<Rightarrow> [p] | CSending proxy p \<Rightarrow> [p] | _ \<Rightarrow> []))"

definition to_proxys :: "server \<Rightarrow> packet list" where
  "to_proxys sv = sent_packets (map snd (sv_to_proxys sv))"

lemmas stream_relay_defs = proxy_stream_holds_def to_clients_def client_stream_holds_def to_proxys_def

lemma client_packets_none: "\<forall>p. ClientMessage_Packet p \<notin> set ms \<Longrightarrow> client_packets ms = []"
  by (induction ms rule: client_packets.induct) auto

lemma sent_packets_none: "\<forall>p. ProxyMessage_Packet p \<notin> set ms \<Longrightarrow> sent_packets ms = []"
  by (induction ms rule: sent_packets.induct) auto

text \<open>Every step is a step of one handler, which relays; nothing else is held or handed out.\<close>

definition handler_relays ::
  "(nat \<Rightarrow> server_event \<Rightarrow> packet list) \<Rightarrow> (nat \<Rightarrow> server \<Rightarrow> packet list) \<Rightarrow> (server \<Rightarrow> packet list) \<Rightarrow>
   server \<Rightarrow> server_event \<Rightarrow> server \<Rightarrow> bool" where
  "handler_relays takes holds hands sv e sv' \<longleftrightarrow>
     (\<exists>q. (\<forall>q'. q' \<noteq> q \<longrightarrow> holds q' sv' = holds q' sv \<and> takes q' e = []) \<and>
       (\<exists>new. hands sv' = hands sv @ new \<and> subseq (new @ holds q sv') (holds q sv @ takes q e)))"

lemma handler_relaysI:
  assumes "\<And>q'. q' \<noteq> q \<Longrightarrow> holds q' sv' = holds q' sv \<and> takes q' e = []"
    and "hands sv' = hands sv @ new" "subseq (new @ holds q sv') (holds q sv @ takes q e)"
  shows "handler_relays takes holds hands sv e sv'"
  using assms unfolding handler_relays_def by blast

lemma handler_idle:
  assumes "\<And>q. holds q sv' = holds q sv" "hands sv' = hands sv" "\<And>q. takes q e = []"
  shows "handler_relays takes holds hands sv e sv'"
  using assms by (intro handler_relaysI [where q = 0 and new = "[]"]) simp_all

lemma exec_proxy_relays:
  assumes "sv_proxys sv q = Some ps" "exec_proxy e q ps sv = Some sv'" "\<And>q' now ok m. e = ProxyRecv q' now ok m \<Longrightarrow> q' = q"
  shows "handler_relays proxy_stream_takes proxy_stream_holds to_clients sv e sv'"
proof (cases e)
  case (ProxyRecv q' now ok m)
  obtain ps' r' out where c: "ProxyService_recv now q ok m ps (sv_registry sv) = (ps', r', out)"
    by (cases "ProxyService_recv now q ok m ps (sv_registry sv)")
  have e: "e = ProxyRecv q now ok m" using assms(3) ProxyRecv by simp
  have l: "ps_pc ps = PLoop" using assms(2) e by (simp split: if_splits)
  then have sv': "sv' = put_proxy q ps' (sv\<lparr>sv_registry := r', sv_to_proxys := sv_to_proxys sv @ map (\<lambda>m. (q, m)) out\<rparr>)"
    using assms(2) e c by simp
  have "subseq (proxy_stream_holds q sv') (proxy_stream_takes q e)"
    using proxy_recv_packets(2) [OF c l] by (auto simp: e sv' put_proxy_def stream_relay_defs split: proxy_pc.splits)
  moreover have "proxy_stream_takes q' e = []" if "q' \<noteq> q" for q' using that by (cases m) (simp_all add: e)
  ultimately show ?thesis
    using l assms(1) by (intro handler_relaysI [where q = q and new = "[]"]) (auto simp: sv' put_proxy_def stream_relay_defs)
qed (use assms in \<open>auto simp: put_proxy_def stream_relay_defs split: proxy_pc.splits if_splits list.splits
  intro!: handler_relaysI [where q = q]\<close>)

lemma exec_client_relays:
  assumes "sv_clients sv s = Some cs" "exec_client e s cs sv = Some sv'" "\<And>s' now order ok m. e = ClientRecv s' now order ok m \<Longrightarrow> s' = s"
  shows "handler_relays client_stream_takes client_stream_holds to_proxys sv e sv'"
proof (cases e)
  case (ClientRecv s' now order ok m)
  obtain cs' r' out where c: "ClientService_recv now order s ok m cs (sv_registry sv) = (cs', r', out)"
    by (cases "ClientService_recv now order s ok m cs (sv_registry sv)")
  have e: "e = ClientRecv s now order ok m" using assms(3) ClientRecv by simp
  have l: "cs_pc cs = CLoop" using assms(2) e by (simp split: if_splits)
  then have sv': "sv' = put_client s cs' (sv\<lparr>sv_registry := r', sv_to_clients := sv_to_clients sv @ map (\<lambda>m. (s, m)) out\<rparr>)"
    using assms(2) e c by simp
  have "subseq (client_stream_holds s sv') (client_stream_takes s e)"
    using client_recv_packets(2) [OF c l] by (auto simp: e sv' put_client_def stream_relay_defs split: client_pc.splits)
  moreover have "client_stream_takes s' e = []" if "s' \<noteq> s" for s' using that by (cases m) (simp_all add: e)
  ultimately show ?thesis
    using l assms(1) by (intro handler_relaysI [where q = s and new = "[]"]) (auto simp: sv' put_client_def stream_relay_defs)
qed (use assms in \<open>auto simp: put_client_def stream_relay_defs split: client_pc.splits if_splits list.splits
  intro!: handler_relaysI [where q = s]\<close>)

text \<open>A step of a handler of one kind is no step of the other kind.\<close>

lemma exec_client_proxys:
  assumes "sv_clients sv s = Some cs" "exec_client e s cs sv = Some sv'"
  shows "handler_relays proxy_stream_takes proxy_stream_holds to_clients sv e sv'"
proof (cases e)
  case (ClientRecv s' now order ok m)
  obtain cs' r' out where c: "ClientService_recv now order s ok m cs (sv_registry sv) = (cs', r', out)"
    by (cases "ClientService_recv now order s ok m cs (sv_registry sv)")
  then show ?thesis
    using assms ClientRecv client_packets_none [OF client_recv_packets(1) [OF c]]
    by (auto simp: put_client_def stream_relay_defs comp_def split: if_splits intro!: handler_idle)
qed (use assms in \<open>auto simp: put_client_def stream_relay_defs split: client_pc.splits if_splits list.splits
  intro!: handler_idle\<close>)

lemma exec_proxy_clients:
  assumes "sv_proxys sv q = Some ps" "exec_proxy e q ps sv = Some sv'"
  shows "handler_relays client_stream_takes client_stream_holds to_proxys sv e sv'"
proof (cases e)
  case (ProxyRecv q' now ok m)
  obtain ps' r' out where c: "ProxyService_recv now q ok m ps (sv_registry sv) = (ps', r', out)"
    by (cases "ProxyService_recv now q ok m ps (sv_registry sv)")
  then show ?thesis
    using assms ProxyRecv sent_packets_none [OF proxy_recv_packets(1) [OF c]]
    by (auto simp: put_proxy_def stream_relay_defs comp_def split: if_splits intro!: handler_idle)
qed (use assms in \<open>auto simp: put_proxy_def stream_relay_defs split: proxy_pc.splits if_splits list.splits
  intro!: handler_idle\<close>)

lemma exec_relays:
  assumes e: "exec sv e = Some sv'"
  shows "handler_relays proxy_stream_takes proxy_stream_holds to_clients sv e sv'"
    and "handler_relays client_stream_takes client_stream_holds to_proxys sv e sv'"
proof -
  have c: "handler_relays proxy_stream_takes proxy_stream_holds to_clients sv e sv' \<and>
      handler_relays client_stream_takes client_stream_holds to_proxys sv e sv'"
    if "with_client s e sv = Some sv'" "\<And>s' now order ok m. e = ClientRecv s' now order ok m \<Longrightarrow> s' = s" for s
    using that exec_client_proxys exec_client_relays by (auto simp: with_client_def split: option.splits)
  have p: "handler_relays proxy_stream_takes proxy_stream_holds to_clients sv e sv' \<and>
      handler_relays client_stream_takes client_stream_holds to_proxys sv e sv'"
    if "with_proxy q e sv = Some sv'" "\<And>q' now ok m. e = ProxyRecv q' now ok m \<Longrightarrow> q' = q" for q
    using that exec_proxy_relays exec_proxy_clients by (auto simp: with_proxy_def split: option.splits)
  have "handler_relays proxy_stream_takes proxy_stream_holds to_clients sv e sv' \<and>
      handler_relays client_stream_takes client_stream_holds to_proxys sv e sv'"
  proof (cases e)
    case (OpenClient s)
    then show ?thesis
      using e by (auto split: if_splits option.splits simp: put_client_def new_client_session_def stream_relay_defs intro!: handler_idle)
  next
    case (OpenProxy s)
    then show ?thesis
      using e by (auto split: if_splits option.splits simp: put_proxy_def new_proxy_session_def stream_relay_defs intro!: handler_idle)
  next
    case (CleanupTick now order)
    then show ?thesis using e by (auto simp: stream_relay_defs intro!: handler_idle)
  qed (use e c p in auto)
  then show "handler_relays proxy_stream_takes proxy_stream_holds to_clients sv e sv'"
    "handler_relays client_stream_takes client_stream_holds to_proxys sv e sv'" by simp_all
qed

text \<open>The packets of one connection. As long as no other handler has to do with it, they pass through one
  handler of the server as through a relay.\<close>

definition sel :: "string \<Rightarrow> packet list \<Rightarrow> packet list" where
  "sel i ps = filter (\<lambda>p. ConnectionId p = i) ps"

lemma sel_simps [simp]: "sel i [] = []" "sel i (ps @ qs) = sel i ps @ sel i qs"
  by (simp_all add: sel_def)

lemma sel_mono: "subseq ps qs \<Longrightarrow> subseq (sel i ps) (sel i qs)"
  by (simp add: sel_def)

lemma sel_subset: "set ps \<subseteq> set qs \<Longrightarrow> sel i qs = [] \<Longrightarrow> sel i ps = []"
  by (auto simp: sel_def filter_empty_conv)

lemma handler_relays_sel:
  assumes "handler_relays takes holds hands sv e sv'" "\<And>q'. q' \<noteq> q \<Longrightarrow> sel i (holds q' sv @ takes q' e) = []"
  shows "\<exists>new. sel i (hands sv') = sel i (hands sv) @ new \<and> subseq (new @ sel i (holds q sv')) (sel i (holds q sv) @ sel i (takes q e))"
proof -
  obtain q0 new where q0: "\<And>q'. q' \<noteq> q0 \<Longrightarrow> holds q' sv' = holds q' sv \<and> takes q' e = []"
      "hands sv' = hands sv @ new" "subseq (new @ holds q0 sv') (holds q0 sv @ takes q0 e)"
    using assms(1) unfolding handler_relays_def by blast
  note s = sel_mono [OF q0(3), of i]
  show ?thesis
  proof (cases "q0 = q")
    case True
    then show ?thesis using s q0(2) by auto
  next
    case False
    then have "sel i new = []" using s assms(2) [of q0] by (auto dest: list_emb_Nil2)
    then show ?thesis using q0(1) [of q] q0(2) False by simp
  qed
qed

interpretation proxy_stream_relay: relay exec "\<lambda>e. sel i (proxy_stream_takes q e)" "\<lambda>sv. sel i (proxy_stream_holds q sv)"
    "\<lambda>sv. sel i (to_clients sv)" "\<lambda>sv e. \<forall>q'. q' \<noteq> q \<longrightarrow> sel i (proxy_stream_holds q' sv @ proxy_stream_takes q' e) = []" for i q
  by unfold_locales (use handler_relays_sel [OF exec_relays(1)] in blast)

interpretation client_stream_relay: relay exec "\<lambda>e. sel i (client_stream_takes s e)" "\<lambda>sv. sel i (client_stream_holds s sv)"
    "\<lambda>sv. sel i (to_proxys sv)" "\<lambda>sv e. \<forall>s'. s' \<noteq> s \<longrightarrow> sel i (client_stream_holds s' sv @ client_stream_takes s' e) = []" for i s
  by unfold_locales (use handler_relays_sel [OF exec_relays(2)] in blast)

text \<open>What a handler holds it has taken.\<close>

lemma handler_relays_holds:
  assumes "handler_relays takes holds hands sv e sv'"
  shows "set (holds q sv') \<subseteq> set (holds q sv @ takes q e)"
proof -
  obtain q0 where q0: "q \<noteq> q0 \<Longrightarrow> holds q sv' = holds q sv"
      "\<exists>new. subseq (new @ holds q0 sv') (holds q0 sv @ takes q0 e)"
    using assms unfolding handler_relays_def by blast
  then obtain new where "subseq (new @ holds q0 sv') (holds q0 sv @ takes q0 e)" by blast
  then have "set (new @ holds q0 sv') \<subseteq> set (holds q0 sv @ takes q0 e)" by (auto elim: list_emb_set)
  then show ?thesis using q0(1) by (cases "q = q0") auto
qed

section \<open>The system over streams that keep the order\<close>

datatype direction_link = FromClient nat | ToClient nat | FromProxy nat | ToProxy nat

fun sent_on :: "direction_link \<Rightarrow> system \<Rightarrow> packet list" where
  "sent_on (FromClient s) sy = client_packets (cl_sent (sy_clients sy s))"
| "sent_on (ToClient s) sy = client_packets (map snd (filter (\<lambda>(t, m). t = s) (sv_to_clients (sy_server sy))))"
| "sent_on (FromProxy q) sy = sent_packets (px_sent (sy_proxys sy q))"
| "sent_on (ToProxy q) sy = sent_packets (map snd (filter (\<lambda>(t, m). t = q) (sv_to_proxys (sy_server sy))))"

text \<open>What an event takes from a stream.\<close>

fun taken_from :: "direction_link \<Rightarrow> system_event \<Rightarrow> packet list" where
  "taken_from (FromClient s) (ServerStep e) = client_stream_takes s e"
| "taken_from (ToClient s) (ClientStep s' e) = (if s' = s then client_takes e else [])"
| "taken_from (FromProxy q) (ServerStep e) = proxy_stream_takes q e"
| "taken_from (ToProxy q) (ProxyStep q' e) = (if q' = q then proxy_takes e else [])"
| "taken_from _ _ = []"

text \<open>A state of the system with the packets taken from each stream so far, which are always the first ones
  that were sent on it.\<close>

record fifo_system =
  fi_sys :: system
  fi_taken :: "direction_link \<Rightarrow> packet list"

definition fifo_init :: fifo_system where
  "fifo_init = \<lparr>fi_sys = system_init, fi_taken = (\<lambda>l. [])\<rparr>"

definition fifo_step :: "(string \<Rightarrow> int option) \<Rightarrow> fifo_system \<Rightarrow> system_event \<Rightarrow> fifo_system \<Rightarrow> bool" where
  "fifo_step services fi e fi' \<longleftrightarrow> sys_exec services (fi_sys fi) e = Some (fi_sys fi') \<and>
     fi_taken fi' = (\<lambda>l. fi_taken fi l @ taken_from l e) \<and>
     (\<forall>l. prefix (fi_taken fi' l) (sent_on l (fi_sys fi)))"

inductive fifo_reachable :: "(string \<Rightarrow> int option) \<Rightarrow> fifo_system \<Rightarrow> bool" for services where
  fifo_init: "fifo_reachable services fifo_init"
| fifo_step: "fifo_reachable services fi \<Longrightarrow> fifo_step services fi e fi' \<Longrightarrow> fifo_reachable services fi'"

text \<open>The same with the events that led to the state.\<close>

inductive fifo_history :: "(string \<Rightarrow> int option) \<Rightarrow> system_event list \<Rightarrow> fifo_system \<Rightarrow> bool" for services where
  history_init: "fifo_history services [] fifo_init"
| history_step: "fifo_history services es fi \<Longrightarrow> fifo_step services fi e fi' \<Longrightarrow> fifo_history services (es @ [e]) fi'"

lemma history_reachable: "fifo_history services es fi \<Longrightarrow> fifo_reachable services fi"
  by (induction rule: fifo_history.induct) (auto intro: fifo_reachable.intros)

lemma fifo_reachable_sys: "fifo_reachable services fi \<Longrightarrow> sys_reachable services (fi_sys fi)"
  by (induction rule: fifo_reachable.induct) (auto simp: fifo_init_def fifo_step_def intro: sys_init sys_step)

text \<open>What was sent stays sent.\<close>

lemma cl_exec_sent_prefix:
  assumes "cl_exec services cl e = Some cl'"
  shows "prefix (cl_sent cl) (cl_sent cl')"
proof (cases e)
  case (RecvMsg m)
  then show ?thesis using assms by (cases m) (auto split: reader_pc.splits sum.splits)
qed (use assms in \<open>auto simp: accept_conn_def read_defs handler_return_def write_local_def
  Let_def split: option.splits if_splits reader_pc.splits list.splits sum.splits\<close>)

lemma px_exec_sent_prefix:
  assumes "px_exec px e = Some px'"
  shows "prefix (px_sent px) (px_sent px')"
  using assms
proof (cases rule: px_exec_cases)
  case server
  show ?thesis
  proof (cases e)
    case (PRecv m now dialed)
    then show ?thesis using server(2) by (cases m) (auto simp: recv_packet_def split: if_splits outcome.splits)
  qed (use server(2) in \<open>auto simp: write_target_def split: if_splits forward_pc.splits option.splits list.splits\<close>)
qed (use reader_step_writes_nothing in simp)

lemma exec_sent_prefix:
  assumes "exec sv e = Some sv'"
  shows "prefix (sv_to_clients sv) (sv_to_clients sv') \<and> prefix (sv_to_proxys sv) (sv_to_proxys sv')"
proof -
  have c: "prefix (sv_to_clients sv) (sv_to_clients sv') \<and> prefix (sv_to_proxys sv) (sv_to_proxys sv')"
    if "with_client s e sv = Some sv'" for s
    using that by (cases e) (auto simp: with_client_def put_client_def split: option.splits if_splits client_pc.splits list.splits prod.splits)
  have p: "prefix (sv_to_clients sv) (sv_to_clients sv') \<and> prefix (sv_to_proxys sv) (sv_to_proxys sv')"
    if "with_proxy s e sv = Some sv'" for s
    using that by (cases e) (auto simp: with_proxy_def put_proxy_def split: option.splits if_splits proxy_pc.splits list.splits prod.splits)
  show ?thesis
    using assms c p by (cases e) (auto simp: put_client_def put_proxy_def split: if_splits)
qed

lemma packets_prefix:
  "prefix xs ys \<Longrightarrow> prefix (client_packets (map snd (filter P xs))) (client_packets (map snd (filter P ys)))"
  "prefix us vs \<Longrightarrow> prefix (sent_packets (map snd (filter Q us))) (sent_packets (map snd (filter Q vs)))"
  "prefix ms ns \<Longrightarrow> prefix (client_packets ms) (client_packets ns)"
  "prefix ks ls \<Longrightarrow> prefix (sent_packets ks) (sent_packets ls)"
  by (auto simp: prefix_def)

lemma sys_exec_sent_prefix:
  assumes "sys_exec services sy e = Some sy'"
  shows "prefix (sent_on l sy) (sent_on l sy')"
proof (cases e)
  case (ClientStep s ev)
  then obtain cl where "cl_exec services (sy_clients sy s) ev = Some cl" "sy' = sy\<lparr>sy_clients := (sy_clients sy)(s := cl)\<rparr>"
    using assms by (auto split: if_splits)
  then show ?thesis by (cases l) (simp_all add: cl_exec_sent_prefix packets_prefix(3))
next
  case (ServerStep ev)
  then obtain sv where "exec (sy_server sy) ev = Some sv" "sy' = sy\<lparr>sy_server := sv\<rparr>"
    using assms by (auto split: if_splits)
  then show ?thesis by (cases l) (simp_all add: exec_sent_prefix packets_prefix(1,2))
next
  case (ProxyStep q ev)
  then obtain px where "px_exec (sy_proxys sy q) ev = Some px" "sy' = sy\<lparr>sy_proxys := (sy_proxys sy)(q := px)\<rparr>"
    using assms by (auto split: if_splits)
  then show ?thesis by (cases l) (simp_all add: px_exec_sent_prefix packets_prefix(4))
qed

lemma fifo_taken_sent:
  assumes "fifo_reachable services fi"
  shows "prefix (fi_taken fi l) (sent_on l (fi_sys fi))"
  using assms
proof cases
  case (fifo_step fi0 e)
  then show ?thesis unfolding fifo_step_def by (metis prefix_order.trans sys_exec_sent_prefix)
qed (simp add: fifo_init_def)

section \<open>The order through the system\<close>

definition only_from_proxy :: "string \<Rightarrow> nat \<Rightarrow> (direction_link \<Rightarrow> packet list) \<Rightarrow> bool" where
  "only_from_proxy i q ps \<longleftrightarrow> (\<forall>q'. q' \<noteq> q \<longrightarrow> sel i (ps (FromProxy q')) = [])"

definition only_from_client :: "string \<Rightarrow> nat \<Rightarrow> (direction_link \<Rightarrow> packet list) \<Rightarrow> bool" where
  "only_from_client i s ps \<longleftrightarrow> (\<forall>s'. s' \<noteq> s \<longrightarrow> sel i (ps (FromClient s')) = [])"

definition read_loops_inv :: "fifo_system \<Rightarrow> bool" where
  "read_loops_inv fi \<longleftrightarrow>
     (\<forall>s. subseq (client_hands (sy_clients (fi_sys fi) s) @ client_holds (sy_clients (fi_sys fi) s)) (fi_taken fi (ToClient s))) \<and>
     (\<forall>q. subseq (proxy_hands (sy_proxys (fi_sys fi) q) @ proxy_holds (sy_proxys (fi_sys fi) q)) (fi_taken fi (ToProxy q)))"

definition handlers_inv :: "fifo_system \<Rightarrow> bool" where
  "handlers_inv fi \<longleftrightarrow>
     (\<forall>q. set (proxy_stream_holds q (sy_server (fi_sys fi))) \<subseteq> set (fi_taken fi (FromProxy q))) \<and>
     (\<forall>s. set (client_stream_holds s (sy_server (fi_sys fi))) \<subseteq> set (fi_taken fi (FromClient s))) \<and>
     (\<forall>i q. only_from_proxy i q (fi_taken fi) \<longrightarrow>
        subseq (sel i (to_clients (sy_server (fi_sys fi))) @ sel i (proxy_stream_holds q (sy_server (fi_sys fi))))
          (sel i (fi_taken fi (FromProxy q)))) \<and>
     (\<forall>i s. only_from_client i s (fi_taken fi) \<longrightarrow>
        subseq (sel i (to_proxys (sy_server (fi_sys fi))) @ sel i (client_stream_holds s (sy_server (fi_sys fi))))
          (sel i (fi_taken fi (FromClient s))))"

lemma taken_none [simp]:
  "taken_from (ToClient s) (ServerStep e) = []" "taken_from (ToClient s) (ProxyStep q ev) = []"
  "taken_from (ToProxy q) (ServerStep e) = []" "taken_from (ToProxy q) (ClientStep s cev) = []"
  "taken_from (FromProxy q) (ClientStep s cev) = []" "taken_from (FromProxy q) (ProxyStep q' ev) = []"
  "taken_from (FromClient s) (ClientStep s' cev) = []" "taken_from (FromClient s) (ProxyStep q ev) = []"
  by simp_all

lemma fifo_step_cases:
  assumes "fifo_step services fi e fi'"
  obtains (client) s ev cl where "e = ClientStep s ev" "cl_exec services (sy_clients (fi_sys fi) s) ev = Some cl"
      "fi_sys fi' = (fi_sys fi)\<lparr>sy_clients := (sy_clients (fi_sys fi))(s := cl)\<rparr>"
    | (server) ev sv where "e = ServerStep ev" "exec (sy_server (fi_sys fi)) ev = Some sv"
      "fi_sys fi' = (fi_sys fi)\<lparr>sy_server := sv\<rparr>"
    | (proxy) q ev px where "e = ProxyStep q ev" "px_exec (sy_proxys (fi_sys fi) q) ev = Some px"
      "fi_sys fi' = (fi_sys fi)\<lparr>sy_proxys := (sy_proxys (fi_sys fi))(q := px)\<rparr>"
  using assms by (cases e) (auto simp: fifo_step_def split: if_splits)

lemma fifo_step_taken: "fifo_step services fi e fi' \<Longrightarrow> fi_taken fi' l = fi_taken fi l @ taken_from l e"
  by (simp add: fifo_step_def)

lemma read_loops_step:
  assumes "read_loops_inv fi" and st: "fifo_step services fi e fi'"
  shows "read_loops_inv fi'"
proof -
  note t = fifo_step_taken [OF st]
  note c = assms(1) [unfolded read_loops_inv_def, THEN conjunct1, THEN spec]
    and p = assms(1) [unfolded read_loops_inv_def, THEN conjunct2, THEN spec]
  from st show ?thesis
  proof (cases rule: fifo_step_cases)
    case (client s ev cl)
    have "subseq (client_hands cl @ client_holds cl) (fi_taken fi (ToClient s) @ client_takes ev)"
      by (rule client_relay.relay_step [OF c client(2)]) simp
    then show ?thesis using c p by (simp add: read_loops_inv_def t client)
  next
    case (server ev sv)
    then show ?thesis using c p by (simp add: read_loops_inv_def t)
  next
    case (proxy q ev px)
    have "subseq (proxy_hands px @ proxy_holds px) (fi_taken fi (ToProxy q) @ proxy_takes ev)"
      by (rule proxy_relay.relay_step [OF p proxy(2)]) simp
    then show ?thesis using c p by (simp add: read_loops_inv_def t proxy)
  qed
qed

lemma handlers_step:
  assumes inv: "handlers_inv fi" and st: "fifo_step services fi e fi'"
  shows "handlers_inv fi'"
  using st
proof (cases rule: fifo_step_cases)
  case (server ev sv)
  note t = fifo_step_taken [OF st, unfolded server(1)]
  let ?sv = "sy_server (fi_sys fi)"
  note hp = inv [unfolded handlers_inv_def, THEN conjunct1, THEN spec]
    and hc = inv [unfolded handlers_inv_def, THEN conjunct2, THEN conjunct1, THEN spec]
    and op = inv [unfolded handlers_inv_def, THEN conjunct2, THEN conjunct2, THEN conjunct1, rule_format]
    and oc = inv [unfolded handlers_inv_def, THEN conjunct2, THEN conjunct2, THEN conjunct2, rule_format]
  have "set (proxy_stream_holds q sv) \<subseteq> set (fi_taken fi' (FromProxy q))" for q
    using handler_relays_holds [OF exec_relays(1) [OF server(2)], of q] hp [of q] unfolding t taken_from.simps set_append by blast
  moreover have "set (client_stream_holds s sv) \<subseteq> set (fi_taken fi' (FromClient s))" for s
    using handler_relays_holds [OF exec_relays(2) [OF server(2)], of s] hc [of s] unfolding t taken_from.simps set_append by blast
  moreover have "subseq (sel i (to_clients sv) @ sel i (proxy_stream_holds q sv)) (sel i (fi_taken fi' (FromProxy q)))"
    if o: "only_from_proxy i q (fi_taken fi')" for i q
  proof -
    have o': "only_from_proxy i q (fi_taken fi)" using o by (simp add: only_from_proxy_def t)
    have "sel i (proxy_stream_holds q' ?sv @ proxy_stream_takes q' ev) = []" if "q' \<noteq> q" for q'
      
    proof (rule sel_subset)
      show "sel i (fi_taken fi' (FromProxy q')) = []" using o that by (simp add: only_from_proxy_def)
      show "set (proxy_stream_holds q' ?sv @ proxy_stream_takes q' ev) \<subseteq> set (fi_taken fi' (FromProxy q'))"
        using hp [of q'] unfolding t taken_from.simps set_append by blast
    qed
    then have "subseq (sel i (to_clients sv) @ sel i (proxy_stream_holds q sv)) (sel i (fi_taken fi (FromProxy q)) @ sel i (proxy_stream_takes q ev))"
      by (intro proxy_stream_relay.relay_step [OF op [OF o'] server(2)]) blast
    then show ?thesis by (simp add: t)
  qed
  moreover have "subseq (sel i (to_proxys sv) @ sel i (client_stream_holds s sv)) (sel i (fi_taken fi' (FromClient s)))"
    if o: "only_from_client i s (fi_taken fi')" for i s
  proof -
    have o': "only_from_client i s (fi_taken fi)" using o by (simp add: only_from_client_def t)
    have "sel i (client_stream_holds s' ?sv @ client_stream_takes s' ev) = []" if "s' \<noteq> s" for s'
      
    proof (rule sel_subset)
      show "sel i (fi_taken fi' (FromClient s')) = []" using o that by (simp add: only_from_client_def)
      show "set (client_stream_holds s' ?sv @ client_stream_takes s' ev) \<subseteq> set (fi_taken fi' (FromClient s'))"
        using hc [of s'] unfolding t taken_from.simps set_append by blast
    qed
    then have "subseq (sel i (to_proxys sv) @ sel i (client_stream_holds s sv)) (sel i (fi_taken fi (FromClient s)) @ sel i (client_stream_takes s ev))"
      by (intro client_stream_relay.relay_step [OF oc [OF o'] server(2)]) blast
    then show ?thesis by (simp add: t)
  qed
  ultimately show ?thesis by (simp add: handlers_inv_def server)
qed (use inv fifo_step_taken [OF st] in \<open>simp_all add: handlers_inv_def only_from_proxy_def only_from_client_def\<close>)

lemma fifo_reachable_inv: "fifo_reachable services fi \<Longrightarrow> read_loops_inv fi \<and> handlers_inv fi"
proof (induction rule: fifo_reachable.induct)
  case fifo_init
  show ?case
    by (simp add: read_loops_inv_def handlers_inv_def fifo_init_def system_init_def server_init_def client_init_def proxy_init_def
      client_relay_defs proxy_relay_defs stream_relay_defs)
qed (blast intro: read_loops_step handlers_step)

text \<open>What is sent on one stream is part of what is sent on all of them.\<close>

lemma sent_on_parts:
  "subseq (sent_on (ToClient s) sy) (to_clients (sy_server sy))" "subseq (sent_on (ToProxy q) sy) (to_proxys (sy_server sy))"
proof -
  have "subseq (client_packets (map snd (filter P xs))) (client_packets (map snd xs))" for P and xs :: "(nat \<times> client_message) list"
  proof (induction xs)
    case (Cons x xs)
    then show ?case by (cases x; cases "snd x") auto
  qed simp
  then show "subseq (sent_on (ToClient s) sy) (to_clients (sy_server sy))" by (simp add: to_clients_def)
  have "subseq (sent_packets (map snd (filter P xs))) (sent_packets (map snd xs))" for P and xs :: "(nat \<times> proxy_message) list"
  proof (induction xs)
    case (Cons x xs)
    then show ?case by (cases x; cases "snd x") auto
  qed simp
  then show "subseq (sent_on (ToProxy q) sy) (to_proxys (sy_server sy))" by (simp add: to_proxys_def)
qed

lemma only_from_taken:
  assumes "fifo_reachable services fi"
  shows "only_from_proxy i q (\<lambda>l. sent_on l (fi_sys fi)) \<Longrightarrow> only_from_proxy i q (fi_taken fi)"
    "only_from_client i q (\<lambda>l. sent_on l (fi_sys fi)) \<Longrightarrow> only_from_client i q (fi_taken fi)"
  using fifo_taken_sent [OF assms] unfolding only_from_proxy_def only_from_client_def
  by (metis sel_subset set_mono_prefix)+

text \<open>A packet on its way back, step by step.\<close>

lemma backward_order:
  assumes r: "fifo_reachable services fi" and o: "only_from_proxy i q (\<lambda>l. sent_on l (fi_sys fi))"
  shows "subseq (sel i (client_hands (sy_clients (fi_sys fi) s))) (sel i (sent_on (FromProxy q) (fi_sys fi)))"
proof -
  note inv = fifo_reachable_inv [OF r] and pre = prefix_imp_subseq [OF fifo_taken_sent [OF r], THEN sel_mono]
  have "subseq (client_hands (sy_clients (fi_sys fi) s)) (fi_taken fi (ToClient s))"
    using inv unfolding read_loops_inv_def by (metis list_emb_append2 prefixI prefix_imp_subseq subseq_order.trans)
  then have "subseq (sel i (client_hands (sy_clients (fi_sys fi) s))) (sel i (fi_taken fi (ToClient s)))" by (rule sel_mono)
  also have "subseq \<dots> (sel i (sent_on (ToClient s) (fi_sys fi)))" by (rule pre)
  also have "subseq \<dots> (sel i (to_clients (sy_server (fi_sys fi))))" by (rule sel_mono [OF sent_on_parts(1)])
  also have "subseq \<dots> (sel i (fi_taken fi (FromProxy q)))"
    using inv only_from_taken(1) [OF r o] unfolding handlers_inv_def by (metis prefixI prefix_imp_subseq subseq_order.trans)
  also have "subseq \<dots> (sel i (sent_on (FromProxy q) (fi_sys fi)))" by (rule pre)
  finally show ?thesis .
qed

lemma forward_order:
  assumes r: "fifo_reachable services fi" and o: "only_from_client i s (\<lambda>l. sent_on l (fi_sys fi))"
  shows "subseq (sel i (proxy_hands (sy_proxys (fi_sys fi) q))) (sel i (sent_on (FromClient s) (fi_sys fi)))"
proof -
  note inv = fifo_reachable_inv [OF r] and pre = prefix_imp_subseq [OF fifo_taken_sent [OF r], THEN sel_mono]
  have "subseq (proxy_hands (sy_proxys (fi_sys fi) q)) (fi_taken fi (ToProxy q))"
    using inv unfolding read_loops_inv_def by (metis prefixI prefix_imp_subseq subseq_order.trans)
  then have "subseq (sel i (proxy_hands (sy_proxys (fi_sys fi) q))) (sel i (fi_taken fi (ToProxy q)))" by (rule sel_mono)
  also have "subseq \<dots> (sel i (sent_on (ToProxy q) (fi_sys fi)))" by (rule pre)
  also have "subseq \<dots> (sel i (to_proxys (sy_server (fi_sys fi))))" by (rule sel_mono [OF sent_on_parts(2)])
  also have "subseq \<dots> (sel i (fi_taken fi (FromClient s)))"
    using inv only_from_taken(2) [OF r o] unfolding handlers_inv_def by (metis prefixI prefix_imp_subseq subseq_order.trans)
  also have "subseq \<dots> (sel i (sent_on (FromClient s) (fi_sys fi)))" by (rule pre)
  finally show ?thesis .
qed

text \<open>What a reader has queued is a prefix of what it has read.\<close>

lemma queued_bytes_read:
  assumes "px_reachable px"
  shows "prefix (bytes_of k (queued_data px)) (bytes_of k (px_read px))"
proof -
  have "if k < length (px_readers px) then stream_ok k (px_read px) (queued_data px) (px_readers px ! k)
      else bytes_of k (px_read px) = [] \<and> bytes_of k (queued_data px) = []"
    using stream_invD(1) [OF px_reachable_stream [OF assms]] unfolding streams_ok_def by blast
  then show ?thesis by (simp add: stream_ok_def split: if_splits)
qed

lemma queued_of_reader:
  assumes "stream_inv px" "\<And>k'. k' < length (pf_states (px_fwd px)) \<Longrightarrow> reader_id k' px = i \<Longrightarrow> k' = k"
  shows "subseq (sel i (sent_packets (px_sent px))) (map snd (filter (\<lambda>(j, p). j = k) (px_queued px)))"
proof -
  obtain gone where gone: "map snd (px_queued px) = gone @ px_responses px" "subseq (sent_packets (px_sent px)) gone"
    using stream_invD(4) [OF assms(1)] by (auto simp: channel_ok_def)
  have "subseq (sel i (sent_packets (px_sent px))) (sel i (map snd (px_queued px)))"
    by (rule sel_mono) (simp add: gone(1) subseq_rev_drop_many [OF gone(2)])
  also have "sel i (map snd (px_queued px)) = map snd (filter (\<lambda>(j, p). ConnectionId p = i) (px_queued px))"
    by (simp add: sel_def filter_map comp_def case_prod_unfold)
  also have "subseq \<dots> (map snd (filter (\<lambda>(j, p). j = k) (px_queued px)))"
  proof (rule subseq_map)
    have "j = k" if "(j, p) \<in> set (px_queued px)" "ConnectionId p = i" for j p
      using stream_invD(3) [OF assms(1)] assms(2) that by (auto simp: queued_ok_def resp_ok_def reader_id_def)
    then have "filter (\<lambda>(j, p). ConnectionId p = i) (px_queued px) =
        filter (\<lambda>(j, p). ConnectionId p = i) (filter (\<lambda>(j, p). j = k) (px_queued px))"
      by (auto intro!: filter_cong)
    then show "subseq (filter (\<lambda>(j, p). ConnectionId p = i) (px_queued px)) (filter (\<lambda>(j, p). j = k) (px_queued px))"
      by (metis subseq_filter_left)
  qed
  finally show ?thesis .
qed


text \<open>The packets written for a connection that only one client sends.\<close>

lemma packets_in_order:
  assumes "fifo_reachable services fi"
    and "\<And>s' p. s' \<noteq> s \<Longrightarrow> p \<in> set (client_packets (cl_sent (sy_clients (fi_sys fi) s'))) \<Longrightarrow> ConnectionId p \<noteq> i"
  shows "subseq [p \<leftarrow> map snd (px_written (sy_proxys (fi_sys fi) q)). ConnectionId p = i]
    [p \<leftarrow> client_packets (cl_sent (sy_clients (fi_sys fi) s)). ConnectionId p = i]"
proof -
  have "only_from_client i s (\<lambda>l. sent_on l (fi_sys fi))"
    using assms(2) by (auto simp: only_from_client_def sel_def filter_empty_conv)
  then show ?thesis using forward_order [OF assms(1)] by (simp add: proxy_hands_def sel_def)
qed

section \<open>A proxy's part of a history\<close>

fun proxy_part :: "nat \<Rightarrow> system_event list \<Rightarrow> proxy_event list" where
  "proxy_part q [] = []"
| "proxy_part q (ProxyStep q' e # es) = (if q' = q then e # proxy_part q es else proxy_part q es)"
| "proxy_part q (_ # es) = proxy_part q es"

lemma proxy_part_append [simp]: "proxy_part q (es @ es') = proxy_part q es @ proxy_part q es'"
  by (induction q es rule: proxy_part.induct) simp_all

lemma sys_exec_proxy:
  "sys_exec services sy e = Some sy' \<Longrightarrow> px_run (proxy_part q [e]) (sy_proxys sy q) = Some (sy_proxys sy' q)"
  by (cases e) (auto split: option.splits if_splits)

lemma history_proxy:
  "fifo_history services es fi \<Longrightarrow> px_run (proxy_part q es) proxy_init = Some (sy_proxys (fi_sys fi) q)"
proof (induction rule: fifo_history.induct)
  case (history_step es fi e fi')
  then show ?case
    using sys_exec_proxy [of services "fi_sys fi" e "fi_sys fi'" q] by (simp add: px_run_append fifo_step_def)
qed (simp add: fifo_init_def system_init_def)

text \<open>The packets of a connection that a client has written and a proxy has sent, and those one reader
  of the proxy has queued.\<close>

definition answers_written :: "nat \<Rightarrow> string \<Rightarrow> fifo_system \<Rightarrow> packet list" where
  "answers_written s i fi = [p \<leftarrow> map snd (cl_written (sy_clients (fi_sys fi) s)). ConnectionId p = i]"

definition answers_sent :: "nat \<Rightarrow> string \<Rightarrow> fifo_system \<Rightarrow> packet list" where
  "answers_sent q i fi = [p \<leftarrow> sent_packets (px_sent (sy_proxys (fi_sys fi) q)). ConnectionId p = i]"

definition answers_queued :: "nat \<Rightarrow> nat \<Rightarrow> fifo_system \<Rightarrow> packet list" where
  "answers_queued q k fi = map snd (filter (\<lambda>(j, p). j = k) (px_queued (sy_proxys (fi_sys fi) q)))"

lemma answers_queued_bytes:
  "concat (map Data (answers_queued q k fi)) = bytes_of k (queued_data (sy_proxys (fi_sys fi) q))"
  by (simp add: answers_queued_def bytes_of_def queued_data_def filter_map comp_def case_prod_unfold apsnd_def map_prod_def)

text \<open>When no \<open>Send\<close> fails, what was sent for an identifier is the start of what its only reader has queued.\<close>

lemma sent_prefix_queued:
  assumes h: "fifo_history services es fi" and ok: "False \<notin> set (send_results (proxy_part q es))"
    and target: "\<And>k'. k' < length (pf_states (px_fwd (sy_proxys (fi_sys fi) q))) \<Longrightarrow>
      reader_id k' (sy_proxys (fi_sys fi) q) = i \<Longrightarrow> k' = k"
  shows "prefix (answers_sent q i fi) (answers_queued q k fi)"
proof -
  let ?px = "sy_proxys (fi_sys fi) q"
  note run = history_proxy [OF h, of q]
  note reach = px_reachable_run [OF px_init run]
  obtain gone where gone: "map snd (px_queued ?px) = gone @ px_responses ?px" "length gone = length (send_results (proxy_part q es))"
      "sent_packets (px_sent ?px) = delivered gone (send_results (proxy_part q es))"
    using px_run_channel [OF run] by blast
  then have pre: "prefix (answers_sent q i fi) (sel i (map snd (px_queued ?px)))"
    using delivered_all [OF gone(2) ok] by (simp add: answers_sent_def sel_def)
  have own: "j = k \<and> reader_id k ?px = i" if "(j, p) \<in> set (px_queued ?px)" "ConnectionId p = i" for j p
    using queued_was_read [OF reach that(1)] target that(2) by auto
  show ?thesis
  proof (cases "reader_id k ?px = i")
    case True
    have same: "ConnectionId p = i \<longleftrightarrow> j = k" if "(j, p) \<in> set (px_queued ?px)" for j p
      using True own [OF that] queued_was_read(2) [OF reach that] by (cases "j = k") auto
    have "filter (\<lambda>(j, p). ConnectionId p = i) (px_queued ?px) = filter (\<lambda>(j, p). j = k) (px_queued ?px)"
    proof (rule filter_cong [OF refl])
      fix x assume "x \<in> set (px_queued ?px)"
      then show "(case x of (j, p) \<Rightarrow> ConnectionId p = i) = (case x of (j, p) \<Rightarrow> j = k)"
        using same [of "fst x" "snd x"] by (simp add: case_prod_unfold)
    qed
    then have "sel i (map snd (px_queued ?px)) = answers_queued q k fi"
      by (simp add: sel_def answers_queued_def filter_map comp_def case_prod_unfold)
    then show ?thesis using pre by simp
  next
    case False
    then have "sel i (map snd (px_queued ?px)) = []" unfolding sel_def filter_empty_conv using own by fastforce
    then show ?thesis using pre by simp
  qed
qed

section \<open>Properties\<close>

text \<open>C4: Answers arrive in order, from end to end. Let gRPC keep the order of each stream, and let, over the whole
  history, only one proxy have sent packets of an identifier and only one target of that proxy have been
  dialled for it. Then the packets a client writes to its local connections for the identifier are, in
  order and each at most once, packets the proxy has sent for it; these are, in order, packets the
  target's reader has queued; and the bytes of those are a prefix of what was read from the target.
  When no \<open>Send\<close> of the proxy has failed and every packet it has sent has been written, the bytes
  written are themselves a prefix of what was read.\<close>

theorem answers_in_order:
  assumes h: "fifo_history services es fi"
    and proxy: "\<And>q' p. q' \<noteq> q \<Longrightarrow> p \<in> set (sent_packets (px_sent (sy_proxys (fi_sys fi) q'))) \<Longrightarrow> ConnectionId p \<noteq> i"
    and target: "\<And>k'. k' < length (pf_states (px_fwd (sy_proxys (fi_sys fi) q))) \<Longrightarrow>
      reader_id k' (sy_proxys (fi_sys fi) q) = i \<Longrightarrow> k' = k"
  shows "subseq (answers_written s i fi) (answers_sent q i fi) \<and>
    subseq (answers_sent q i fi) (answers_queued q k fi) \<and>
    prefix (concat (map Data (answers_queued q k fi))) (bytes_of k (px_read (sy_proxys (fi_sys fi) q))) \<and>
    (False \<notin> set (send_results (proxy_part q es)) \<and> length (answers_written s i fi) = length (answers_sent q i fi) \<longrightarrow>
      prefix (concat (map Data (answers_written s i fi))) (bytes_of k (px_read (sy_proxys (fi_sys fi) q))))"
proof -
  let ?px = "sy_proxys (fi_sys fi) q"
  note r = history_reachable [OF h]
  have px: "px_reachable ?px" using sys_reachable_parts [OF fifo_reachable_sys [OF r]] by blast
  have "only_from_proxy i q (\<lambda>l. sent_on l (fi_sys fi))"
    using proxy by (auto simp: only_from_proxy_def sel_def filter_empty_conv)
  then have W: "subseq (answers_written s i fi) (answers_sent q i fi)"
    using backward_order [OF r] by (simp add: client_hands_def sel_def answers_written_def answers_sent_def)
  moreover have "subseq (answers_sent q i fi) (answers_queued q k fi)"
    using queued_of_reader [OF px_reachable_stream [OF px] target] by (simp add: answers_sent_def answers_queued_def sel_def)
  moreover have Q: "prefix (concat (map Data (answers_queued q k fi))) (bytes_of k (px_read ?px))"
    using queued_bytes_read [OF px] by (simp add: answers_queued_bytes)
  moreover have "prefix (concat (map Data (answers_written s i fi))) (bytes_of k (px_read ?px))"
    if "False \<notin> set (send_results (proxy_part q es))" "length (answers_written s i fi) = length (answers_sent q i fi)"
  proof -
    have "answers_written s i fi = answers_sent q i fi" by (rule subseq_same_length [OF W that(2)])
    then have "prefix (answers_written s i fi) (answers_queued q k fi)"
      using sent_prefix_queued [OF h that(1) target] by simp
    then have "prefix (concat (map Data (answers_written s i fi))) (concat (map Data (answers_queued q k fi)))"
      by (auto simp: prefix_def)
    then show ?thesis using Q by (rule prefix_order.trans)
  qed
  ultimately show ?thesis by blast
qed

text \<open>A run whose first event may take a packet and whose others take none.\<close>

lemma fifo_run_quiet:
  assumes "fifo_history services hs fi" "sys_run services es (fi_sys fi) = Some sy" "\<And>e l. e \<in> set es \<Longrightarrow> taken_from l e = []"
  shows "fifo_history services (hs @ es) (fi\<lparr>fi_sys := sy\<rparr>)"
  using assms
proof (induction es arbitrary: hs fi)
  case (Cons e es)
  obtain sy1 where sy1: "sys_exec services (fi_sys fi) e = Some sy1" "sys_run services es sy1 = Some sy"
    using Cons.prems(2) by (auto split: option.splits)
  have "fifo_step services fi e (fi\<lparr>fi_sys := sy1\<rparr>)"
    using sy1(1) fifo_taken_sent [OF history_reachable [OF Cons.prems(1)]] Cons.prems(3) by (simp add: fifo_step_def)
  then have "fifo_history services (hs @ [e]) (fi\<lparr>fi_sys := sy1\<rparr>)" by (rule history_step [OF Cons.prems(1)])
  then show ?case using Cons.IH [of "hs @ [e]" "fi\<lparr>fi_sys := sy1\<rparr>"] sy1(2) Cons.prems(3) by simp
qed (metis append_Nil2 fifo_system.surjective fifo_system.update_convs(1) option.inject sys_run.simps(1))

lemma fifo_run_take:
  assumes r: "fifo_history services hs fi" and run: "sys_run services (e # es) (fi_sys fi) = Some sy"
    and q: "\<And>e l. e \<in> set es \<Longrightarrow> taken_from l e = []" "\<And>l'. l' \<noteq> l \<Longrightarrow> taken_from l' e = []"
    and p: "prefix (fi_taken fi l @ taken_from l e) (sent_on l (fi_sys fi))"
  shows "fifo_history services (hs @ e # es) \<lparr>fi_sys = sy, fi_taken = (fi_taken fi)(l := fi_taken fi l @ taken_from l e)\<rparr>"
proof -
  obtain sy1 where sy1: "sys_exec services (fi_sys fi) e = Some sy1" "sys_run services es sy1 = Some sy"
    using run by (auto split: option.splits)
  let ?fi = "\<lparr>fi_sys = sy1, fi_taken = (fi_taken fi)(l := fi_taken fi l @ taken_from l e)\<rparr>"
  have "fifo_step services fi e ?fi"
    using sy1(1) fifo_taken_sent [OF history_reachable [OF r]] q(2) p by (auto simp: fifo_step_def)
  then have "fifo_history services (hs @ [e]) ?fi" by (rule history_step [OF r])
  then show ?thesis using fifo_run_quiet [of services "hs @ [e]" ?fi es sy] sy1(2) q(1) by simp
qed

text \<open>The run of System, first up to the target and then back.\<close>

definition up_events :: "system_event list" where
  "up_events = map ServerStep registrations @
     map (ClientStep 1) [Accept 1 sys_conn 0, ReadData 1 0 [1, 2, 3], WritePacket True] @
     map ServerStep [ClientRecv 1 0 [''p''] True (ClientMessage_Packet sys_request), ClientCount 1, ClientSend 1 True]"

definition back_events :: "system_event list" where
  "back_events = map (ProxyStep 9) [PRecv (ProxyMessage_Packet sys_request) 0 (Some 3), PWrite True, FCheck 0,
       FRead 0 [7, 8], FTouch 0 0 0, FSend 0, PSend True] @
     map ServerStep [ProxyRecv 9 0 True (ProxyMessage_Packet sys_response), ProxyCount 9, ProxySend 9 True] @
     map (ClientStep 1) [RecvMsg (ClientMessage_Packet sys_response), TouchState 0, WriteLocal True]"

lemma taken_from_quiet:
  "e \<in> set (map ServerStep registrations) \<Longrightarrow> taken_from l e = []"
  "e \<in> set (map (ClientStep s) [Accept c conn n, ReadData c n data, WritePacket ok]) \<Longrightarrow> taken_from l e = []"
  "e \<in> set (map (ClientStep s) [TouchState n, WriteLocal ok]) \<Longrightarrow> taken_from l e = []"
  "e \<in> set (map ServerStep [ClientCount s, ClientSend s ok]) \<Longrightarrow> taken_from l e = []"
  "e \<in> set (map ServerStep [ProxyCount s, ProxySend s ok]) \<Longrightarrow> taken_from l e = []"
  "e \<in> set (map (ProxyStep s) [PWrite ok, FCheck k, FRead k data, FTouch k n n', FSend k, PSend ok]) \<Longrightarrow> taken_from l e = []"
  by ((cases l; auto simp: registrations_def)[1])+

lemma taken_from_other:
  "l \<noteq> FromClient s \<Longrightarrow> taken_from l (ServerStep (ClientRecv s n o1 ok m)) = []"
  "l \<noteq> ToProxy s \<Longrightarrow> taken_from l (ProxyStep s (PRecv pm n d)) = []"
  "l \<noteq> FromProxy s \<Longrightarrow> taken_from l (ServerStep (ProxyRecv s n ok pm)) = []"
  "l \<noteq> ToClient s \<Longrightarrow> taken_from l (ClientStep s (RecvMsg m)) = []"
proof -
  show "l \<noteq> FromClient s \<Longrightarrow> taken_from l (ServerStep (ClientRecv s n o1 ok m)) = []" by (cases l; cases m) auto
  show "l \<noteq> ToProxy s \<Longrightarrow> taken_from l (ProxyStep s (PRecv pm n d)) = []" by (cases l) auto
  show "l \<noteq> FromProxy s \<Longrightarrow> taken_from l (ServerStep (ProxyRecv s n ok pm)) = []" by (cases l; cases pm) auto
  show "l \<noteq> ToClient s \<Longrightarrow> taken_from l (ClientStep s (RecvMsg m)) = []" by (cases l) auto
qed

lemma fifo_run_up:
  assumes cl: "cl_run no_services [Accept 1 sys_conn 0, ReadData 1 0 [1, 2, 3], WritePacket True] client_init = Some cl"
      "cl_sent cl = [ClientMessage_Packet sys_request]"
    and sv: "run [ClientRecv 1 0 [''p''] True (ClientMessage_Packet sys_request), ClientCount 1, ClientSend 1 True]
      registered_server = Some sv"
  shows "fifo_history no_services up_events
    \<lparr>fi_sys = system_init\<lparr>sy_server := sv, sy_clients := (sy_clients system_init)(1 := cl)\<rparr>,
     fi_taken = (\<lambda>l. [])(FromClient 1 := [sys_request])\<rparr>"
proof -
  let ?s0 = "system_init\<lparr>sy_server := registered_server\<rparr>"
  let ?s1 = "?s0\<lparr>sy_clients := (sy_clients ?s0)(1 := cl)\<rparr>"
  let ?ev = "ClientRecv 1 0 [''p''] True (ClientMessage_Packet sys_request)"
  let ?ces = "[Accept 1 sys_conn 0, ReadData 1 0 [1, 2, 3], WritePacket True]"
  let ?ses = "[ClientCount 1, ClientSend 1 True]"
  let ?es1 = "map ServerStep registrations @ map (ClientStep 1) ?ces"
  have s0: "sys_run no_services (map ServerStep registrations) system_init = Some ?s0"
    by (rule sys_run_server [OF registrations_may]) (simp add: system_init_def run_registrations)
  have s1: "sys_run no_services (map (ClientStep 1) ?ces) ?s0 = Some ?s1"
    by (rule sys_run_client) (simp, simp add: system_init_def cl(1) del: cl_run.simps One_nat_def)
  have s2: "sys_run no_services (map ServerStep (?ev # ?ses)) ?s1 = Some (?s1\<lparr>sy_server := sv\<rparr>)"
    by (rule sys_run_server) (simp_all add: cl(2) sv del: run.simps One_nat_def)
  have r1: "sys_run no_services ?es1 (fi_sys fifo_init) = Some ?s1"
    unfolding sys_run_append by (simp add: fifo_init_def s0 s1 del: sys_run.simps list.map One_nat_def)
  have f1: "fifo_history no_services ([] @ ?es1) (fifo_init\<lparr>fi_sys := ?s1\<rparr>)"
    by (rule fifo_run_quiet [OF history_init r1]) (metis Un_iff set_append taken_from_quiet(1,2))
  have "fifo_history no_services (([] @ ?es1) @ ServerStep ?ev # map ServerStep ?ses)
      \<lparr>fi_sys = ?s1\<lparr>sy_server := sv\<rparr>, fi_taken = (\<lambda>l. [])(FromClient 1 := [] @ taken_from (FromClient 1) (ServerStep ?ev))\<rparr>"
    using fifo_run_take [OF f1, where e = "ServerStep ?ev" and es = "map ServerStep ?ses" and l = "FromClient 1"
      and sy = "?s1\<lparr>sy_server := sv\<rparr>"] s2 taken_from_quiet(4) taken_from_other(1)
    by (simp add: fifo_init_def cl(2) del: sys_run.simps One_nat_def)
  then show ?thesis by (simp add: up_events_def fun_upd_def system_init_def del: One_nat_def)
qed

lemma fifo_run_events:
  "\<exists>fi. fifo_history no_services (up_events @ back_events) fi \<and> cl_written (sy_clients (fi_sys fi) 1) = [(1, sys_response)] \<and>
     client_packets (cl_sent (sy_clients (fi_sys fi) 1)) = [sys_request] \<and> (\<forall>s. s \<noteq> 1 \<longrightarrow> sy_clients (fi_sys fi) s = client_init) \<and>
     px_read (sy_proxys (fi_sys fi) 9) = [(0, [7, 8])] \<and> px_written (sy_proxys (fi_sys fi) 9) = [(3, sys_request)] \<and>
     length (pf_states (px_fwd (sy_proxys (fi_sys fi) 9))) = 1 \<and> (\<forall>q. q \<noteq> 9 \<longrightarrow> sy_proxys (fi_sys fi) q = proxy_init) \<and>
     sent_packets (px_sent (sy_proxys (fi_sys fi) 9)) = [sys_response]"
proof -
  let ?ces = "[TouchState 0, WriteLocal True]" and ?ses = "[ProxyCount 9, ProxySend 9 True]"
  let ?pes = "[PWrite True, FCheck 0, FRead 0 [7, 8], FTouch 0 0 0, FSend 0, PSend True]"
  let ?pev = "PRecv (ProxyMessage_Packet sys_request) 0 (Some 3)" and ?sev = "ProxyRecv 9 0 True (ProxyMessage_Packet sys_response)"
  let ?cev = "RecvMsg (ClientMessage_Packet sys_response)"
  obtain cl cl' where cl: "cl_run no_services [Accept 1 sys_conn 0, ReadData 1 0 [1, 2, 3], WritePacket True] client_init = Some cl"
     "cl_sent cl = [ClientMessage_Packet sys_request]" "cl_run no_services (?cev # ?ces) cl = Some cl'"
     "cl_written cl' = [(1, sys_response)]"
    using sys_client_part by blast
  have cl': "cl_sent cl' = cl_sent cl"
    using cl(3) by (auto simp: write_local_def split: option.splits sum.splits reader_pc.splits if_splits)
  obtain sv sv' where sv: "run [ClientRecv 1 0 [''p''] True (ClientMessage_Packet sys_request), ClientCount 1, ClientSend 1 True]
      registered_server = Some sv" "sv_to_proxys sv = sv_to_proxys registered_server @ [(9, ProxyMessage_Packet sys_request)]"
     "run (?sev # ?ses) sv = Some sv'"
     "sv_to_clients sv' = sv_to_clients registered_server @ [(1, ClientMessage_Packet sys_response)]"
    using sys_server_part by blast
  obtain px where px: "px_run (?pev # ?pes) proxy_init = Some px" "px_sent px = [ProxyMessage_Packet sys_response]"
      "px_read px = [(0, [7, 8])]" "px_written px = [(3, sys_request)]" "length (pf_states (px_fwd px)) = 1"
    using sys_proxy_part by blast
  let ?s2 = "system_init\<lparr>sy_server := sv, sy_clients := (sy_clients system_init)(1 := cl)\<rparr>"
  let ?s3 = "?s2\<lparr>sy_proxys := (sy_proxys ?s2)(9 := px)\<rparr>"
  let ?s4 = "?s3\<lparr>sy_server := sv'\<rparr>"
  let ?s5 = "?s4\<lparr>sy_clients := (sy_clients ?s4)(1 := cl')\<rparr>"
  let ?t2 = "(\<lambda>l. [])(FromClient 1 := [sys_request])"
  let ?t3 = "?t2(ToProxy 9 := ?t2 (ToProxy 9) @ taken_from (ToProxy 9) (ProxyStep 9 ?pev))"
  let ?t4 = "?t3(FromProxy 9 := ?t3 (FromProxy 9) @ taken_from (FromProxy 9) (ServerStep ?sev))"
  have s3: "sys_run no_services (map (ProxyStep 9) (?pev # ?pes)) ?s2 = Some ?s3"
    by (rule sys_run_proxy) (simp_all add: sv(2) system_init_def px(1) del: px_run.simps)
  have f3: "fifo_history no_services (up_events @ ProxyStep 9 ?pev # map (ProxyStep 9) ?pes) \<lparr>fi_sys = ?s3, fi_taken = ?t3\<rparr>"
    using fifo_run_take [OF fifo_run_up [OF cl(1,2) sv(1)], where e = "ProxyStep 9 ?pev" and es = "map (ProxyStep 9) ?pes"
      and l = "ToProxy 9" and sy = ?s3] s3 taken_from_quiet(6) taken_from_other(2)
    by (simp add: sv(2) registered_server_def del: sys_run.simps One_nat_def)
  have s4: "sys_run no_services (map ServerStep (?sev # ?ses)) ?s3 = Some ?s4"
    by (rule sys_run_server) (simp_all add: px(2) sv(3) del: run.simps One_nat_def)
  have f4: "fifo_history no_services ((up_events @ ProxyStep 9 ?pev # map (ProxyStep 9) ?pes) @ ServerStep ?sev # map ServerStep ?ses)
      \<lparr>fi_sys = ?s4, fi_taken = ?t4\<rparr>"
    using fifo_run_take [OF f3, where e = "ServerStep ?sev" and es = "map ServerStep ?ses" and l = "FromProxy 9" and sy = ?s4]
      s4 taken_from_quiet(5) taken_from_other(3)
    by (simp add: px(2) del: sys_run.simps One_nat_def)
  have s5: "sys_run no_services (map (ClientStep 1) (?cev # ?ces)) ?s4 = Some ?s5"
    by (rule sys_run_client) (simp_all add: sv(4) cl(3) del: cl_run.simps One_nat_def)
  have f5: "fifo_history no_services (((up_events @ ProxyStep 9 ?pev # map (ProxyStep 9) ?pes) @ ServerStep ?sev # map ServerStep ?ses) @
      ClientStep 1 ?cev # map (ClientStep 1) ?ces)
      \<lparr>fi_sys = ?s5, fi_taken = ?t4(ToClient 1 := ?t4 (ToClient 1) @ taken_from (ToClient 1) (ClientStep 1 ?cev))\<rparr>"
    using fifo_run_take [OF f4, where e = "ClientStep 1 ?cev" and es = "map (ClientStep 1) ?ces" and l = "ToClient 1" and sy = ?s5]
      s5 taken_from_quiet(3) taken_from_other(4)
    by (simp add: sv(4) registered_server_def del: sys_run.simps One_nat_def)
  have "fifo_history no_services (up_events @ back_events)
      \<lparr>fi_sys = ?s5, fi_taken = ?t4(ToClient 1 := ?t4 (ToClient 1) @ taken_from (ToClient 1) (ClientStep 1 ?cev))\<rparr>"
    using f5 by (simp add: back_events_def del: One_nat_def)
  then show ?thesis
    by (intro exI conjI) (assumption, simp_all add: cl' cl(2,4) px(2-5) system_init_def)
qed

theorem answers_in_order_witness:
  "\<exists>fi. fifo_history no_services (up_events @ back_events) fi \<and> answers_written 1 (h_connID sys_handler) fi = [sys_response] \<and>
     subseq [sys_response] (answers_queued 9 0 fi) \<and> prefix (concat (map Data [sys_response])) [7, 8]"
proof -
  obtain fi where fi: "fifo_history no_services (up_events @ back_events) fi" "cl_written (sy_clients (fi_sys fi) 1) = [(1, sys_response)]"
      "px_read (sy_proxys (fi_sys fi) 9) = [(0, [7, 8])]" "length (pf_states (px_fwd (sy_proxys (fi_sys fi) 9))) = 1"
      "\<And>q. q \<noteq> 9 \<Longrightarrow> sy_proxys (fi_sys fi) q = proxy_init" "sent_packets (px_sent (sy_proxys (fi_sys fi) 9)) = [sys_response]"
    using fifo_run_events by blast
  have w: "answers_written 1 (h_connID sys_handler) fi = [sys_response]" "answers_sent 9 (h_connID sys_handler) fi = [sys_response]"
    by (simp_all add: fi(2,6) answers_written_def answers_sent_def sys_response_def del: One_nat_def)
  have ok: "False \<notin> set (send_results (proxy_part 9 (up_events @ back_events)))"
    by (simp add: up_events_def back_events_def registrations_def send_results_def)
  have p: "ConnectionId p \<noteq> h_connID sys_handler"
    if "q' \<noteq> 9" "p \<in> set (sent_packets (px_sent (sy_proxys (fi_sys fi) q')))" for q' p
    using that fi(5) [OF that(1)] by (simp add: proxy_init_def)
  have t: "k' = 0" if "k' < length (pf_states (px_fwd (sy_proxys (fi_sys fi) 9)))" for k' using that fi(4) by simp
  have a: "subseq (answers_written 1 (h_connID sys_handler) fi) (answers_sent 9 (h_connID sys_handler) fi) \<and>
      subseq (answers_sent 9 (h_connID sys_handler) fi) (answers_queued 9 0 fi) \<and>
      prefix (concat (map Data (answers_queued 9 0 fi))) (bytes_of 0 (px_read (sy_proxys (fi_sys fi) 9))) \<and>
      (False \<notin> set (send_results (proxy_part 9 (up_events @ back_events))) \<and>
        length (answers_written 1 (h_connID sys_handler) fi) = length (answers_sent 9 (h_connID sys_handler) fi) \<longrightarrow>
       prefix (concat (map Data (answers_written 1 (h_connID sys_handler) fi))) (bytes_of 0 (px_read (sy_proxys (fi_sys fi) 9))))"
    by (rule answers_in_order [OF fi(1) p t])
  then have "prefix (concat (map Data [sys_response])) (bytes_of 0 (px_read (sy_proxys (fi_sys fi) 9)))"
    using ok by (simp only: w) simp
  then have "prefix (concat (map Data [sys_response])) [7, 8]" by (simp only: fi(3) bytes_of_def) simp
  moreover have "subseq [sys_response] (answers_queued 9 0 fi)" using a w by simp
  ultimately show ?thesis using fi(1) w(1) by blast
qed

end
