(* ===== verification/Uplink.thy ===== *)
theory Uplink
  imports Streams
begin

text \<open>
  The bytes from a local connection to its target. The client's handler puts a part of its only buffer into the
  channel and drops the packet when the channel is full (\<open>internal/client/handler.go\<close>), so the bytes survive under a
  condition: each read finds the earlier packets of its buffer sent and room in the channel. Under it the
  way up is as good as the way back.
\<close>

section \<open>A client whose buffers are not overwritten\<close>







lemma marshal_id [simp]: "ConnectionId (marshal bufs q) = ConnectionId (op_packet q)"
  by (simp add: marshal_def)









section \<open>The history of a run of the system\<close>

fun client_part :: "nat \<Rightarrow> system_event list \<Rightarrow> client_event list" where
  "client_part s [] = []"
| "client_part s (ClientStep s' e # es) = (if s' = s then e # client_part s es else client_part s es)"
| "client_part s (_ # es) = client_part s es"

lemma client_part_append [simp]: "client_part s (es @ es') = client_part s es @ client_part s es'"
  by (induction s es rule: client_part.induct) simp_all





section \<open>Properties\<close>




end
