(* ===== verification/Expiry.thy ===== *)
theory Expiry
  imports Session Client
begin

text \<open>
  Time and the cleanup tickers (\<open>internal/server/registry.go\<close>, \<open>internal/client/client.go\<close>). The times that the
  critical sections read form one clock, and the ticker of a cleanup loop is late by a bounded time.
  Then the table a loop cleans holds no connection that has been idle for longer than a bound.
\<close>

section \<open>Runs with a clock\<close>

text \<open>A state, the time it is reached at, and the time of the last cleanup. An event that reads the clock reads the
  present time; time passes until the next cleanup is due. \<open>tick\<close> gives the order in which a cleanup
  ranges over the table.\<close>

inductive clocked ::
  "('s \<Rightarrow> 'v \<Rightarrow> 's option) \<Rightarrow> ('v \<Rightarrow> int option) \<Rightarrow> ('v \<Rightarrow> string list option) \<Rightarrow> ('s \<Rightarrow> string \<rightharpoonup> 'e) \<Rightarrow> 's \<Rightarrow> int \<Rightarrow>
   's \<Rightarrow> int \<Rightarrow> int \<Rightarrow> bool"
  for exec time tick entries init period where
  clocked_init: "0 \<le> period \<Longrightarrow> clocked exec time tick entries init period init t t"
| clocked_wait: "clocked exec time tick entries init period s now cleaned \<Longrightarrow> now \<le> t \<Longrightarrow> t \<le> cleaned + period \<Longrightarrow>
    clocked exec time tick entries init period s t cleaned"
| clocked_event: "clocked exec time tick entries init period s now cleaned \<Longrightarrow> tick e = None \<Longrightarrow> time e \<in> {None, Some now} \<Longrightarrow>
    exec s e = Some s' \<Longrightarrow> clocked exec time tick entries init period s' now cleaned"
| clocked_tick: "clocked exec time tick entries init period s now cleaned \<Longrightarrow> tick e = Some order \<Longrightarrow> time e = Some now \<Longrightarrow>
    range_order (entries s) order \<Longrightarrow> exec s e = Some s' \<Longrightarrow> clocked exec time tick entries init period s' now now"

text \<open>A table that is cleaned by the ticks of a program: other events leave an entry as it is, or set its
  last activity to the present.\<close>

locale expiring = idle_table entry last_activity cleanup max_idle
  for entry :: "'t \<Rightarrow> string \<Rightarrow> 'e option" and last_activity :: "'t \<Rightarrow> 'e \<Rightarrow> int"
    and cleanup :: "int \<Rightarrow> string list \<Rightarrow> 't \<Rightarrow> 't" and max_idle :: int +
  fixes exec :: "'s \<Rightarrow> 'v \<Rightarrow> 's option"
    and time :: "'v \<Rightarrow> int option"
    and tick :: "'v \<Rightarrow> string list option"
    and table :: "'s \<Rightarrow> 't"
    and reach :: "'s \<Rightarrow> bool"
    and init :: 's
  assumes reach_init: "reach init"
    and reach_exec: "reach s \<Longrightarrow> exec s e = Some s' \<Longrightarrow> reach s'"
    and init_empty: "entry (table init) i = None"
    and exec_tick: "exec s e = Some s' \<Longrightarrow> tick e = Some order \<Longrightarrow> time e = Some now \<Longrightarrow> table s' = cleanup now order (table s)"
    and exec_other: "reach s \<Longrightarrow> exec s e = Some s' \<Longrightarrow> tick e = None \<Longrightarrow> entry (table s') i = Some x \<Longrightarrow>
      entry (table s) i = Some x \<and> last_activity (table s') x = last_activity (table s) x \<or>
      time e = Some (last_activity (table s') x)"
    and max_idle: "0 \<le> max_idle" "max_idle < max_duration"
begin

lemma clocked_reach: "clocked exec time tick (\<lambda>s. entry (table s)) init period s now cleaned \<Longrightarrow> reach s"
  by (induction rule: clocked.induct) (auto intro: reach_init reach_exec)

lemma clocked_order:
  "clocked exec time tick (\<lambda>s. entry (table s)) init period s now cleaned \<Longrightarrow> cleaned \<le> now \<and> now \<le> cleaned + period"
  by (induction rule: clocked.induct) auto

lemma clocked_active:
  "clocked exec time tick (\<lambda>s. entry (table s)) init period s now cleaned \<Longrightarrow> entry (table s) i = Some x \<Longrightarrow>
   cleaned - max_idle \<le> last_activity (table s) x"
proof (induction arbitrary: i x rule: clocked.induct)
  case (clocked_event s now cleaned e s')
  note o = clocked_order [OF clocked_event.hyps(1)]
  consider "entry (table s) i = Some x" "last_activity (table s') x = last_activity (table s) x"
    | "time e = Some (last_activity (table s') x)"
    using exec_other [OF clocked_reach [OF clocked_event.hyps(1)] clocked_event.hyps(4,2) clocked_event.prems] by blast
  then show ?case
  proof cases
    case 1
    then show ?thesis using clocked_event.IH [OF 1(1)] by simp
  next
    case 2
    then show ?thesis using clocked_event.hyps(3) o max_idle(1) by simp
  qed
next
  case (clocked_tick s now cleaned e order s')
  then have t: "table s' = cleanup now order (table s)" by (intro exec_tick)
  have "time_sub now (last_activity (table s) x) \<le> max_idle"
    using cleanup_fresh [OF clocked_tick.hyps(4), of now i x] clocked_tick.prems t by simp
  then have "now - last_activity (table s) x \<le> max_idle"
    using time_sub_gt [OF max_idle, of now "last_activity (table s) x"] by simp
  then show ?case by (simp add: t cleanup_activity)
qed (simp_all add: init_empty)

lemma idle_bound:
  "clocked exec time tick (\<lambda>s. entry (table s)) init period s now cleaned \<Longrightarrow> entry (table s) i = Some x \<Longrightarrow>
   now - last_activity (table s) x \<le> max_idle + period"
  using clocked_active [of period s now cleaned i x] clocked_order [of period s now cleaned] by simp

end

section \<open>The server\<close>

fun server_time :: "server_event \<Rightarrow> int option" where
  "server_time (ClientRecv s now order ok m) = Some now"
| "server_time (ProxyRecv s now ok m) = Some now"
| "server_time (CleanupTick now order) = Some now"
| "server_time e = None"

fun server_tick :: "server_event \<Rightarrow> string list option" where
  "server_tick (CleanupTick now order) = Some order"
| "server_tick e = None"

text \<open>What routing leaves of the table of routes.\<close>

definition active_at :: "int \<Rightarrow> registry \<Rightarrow> registry \<Rightarrow> bool" where
  "active_at now r r' \<longleftrightarrow> (\<forall>i ref. connections r' i = Some ref \<longrightarrow>
     connections r i = Some ref \<and> rt_LastActivity (routes r' ! ref) = rt_LastActivity (routes r ! ref) \<or>
     rt_LastActivity (routes r' ! ref) = now)"

lemma active_atD:
  "active_at now r r' \<Longrightarrow> connections r' i = Some ref \<Longrightarrow>
   connections r i = Some ref \<and> rt_LastActivity (routes r' ! ref) = rt_LastActivity (routes r ! ref) \<or>
   rt_LastActivity (routes r' ! ref) = now"
  by (simp add: active_at_def)

lemma active_at_same: "connections r' = connections r \<Longrightarrow> routes r' = routes r \<Longrightarrow> active_at now r r'"
  by (simp add: active_at_def)

lemma active_at_touch:
  "reg_ok r \<Longrightarrow> active_at now r (heap_update ref (\<lambda>rt. rt\<lparr>rt_LastActivity := now\<rparr>) r)"
  unfolding active_at_def heap_update_sel
  by (metis conn_route.select_convs(5) conn_route.surjective conn_route.update_convs(5) nth_list_update_eq nth_list_update_neq reg_okD(3))

lemma active_at_lookups:
  assumes "reg_ok r"
  shows "active_at now r (fst (RouteFromClient_lookup now order cid pkt r))"
    and "active_at now r (fst (RouteFromProxy_lookup now pkt r))"
proof -
  have new: "active_at now r (r\<lparr>routes := routes r @ [rt], connections := (connections r)(i \<mapsto> length (routes r))\<rparr>)"
    if "rt_LastActivity rt = now" for rt i
    using assms that by (auto simp: active_at_def nth_append dest: reg_okD(3))
  show "active_at now r (fst (RouteFromClient_lookup now order cid pkt r))"
    using active_at_touch [OF assms] new
    by (auto simp: RouteFromClient_lookup_def Let_def active_at_same split: option.split)
  show "active_at now r (fst (RouteFromProxy_lookup now pkt r))"
    using active_at_touch [OF assms] by (auto simp: RouteFromProxy_lookup_def Let_def active_at_same split: option.split)
qed

lemma active_at_others:
  "active_at now r (fst (RegisterClientStream t i s r))" "active_at now r (fst (RegisterProxyStream t i s cidr r))"
  "active_at now r (UnregisterClient i r)" "active_at now r (UnregisterProxy i r)"
  by (auto simp: RegisterClientStream_def RegisterProxyStream_def UnregisterClient_def UnregisterProxy_def Let_def
    split: option.split intro!: active_at_same)

lemma active_at_update:
  "(\<And>rt. rt_LastActivity (f rt) = rt_LastActivity rt) \<Longrightarrow> active_at now r (heap_update ref f r)"
  by (simp add: active_at_def nth_update_field [of rt_LastActivity])

lemma active_at_count:
  "active_at now r (RouteFromClient_count ref pkt r)" "active_at now r (RouteFromProxy_count ref pkt r)"
  by (simp_all add: RouteFromClient_count_def RouteFromProxy_count_def active_at_update)

text \<open>The registry after a message.\<close>

lemma recv_registry:
  "fst (snd (ClientService_recv now order s ok (ClientMessage_Packet pkt) cs r)) =
    (if cs_registered cs then fst (RouteFromClient_lookup now order (cs_clientID cs) pkt r) else r)"
  "fst (snd (ClientService_recv now order s ok (ClientMessage_Register m) cs r)) = fst (RegisterClientStream now (ClientId m) s r)"
  "fst (snd (ProxyService_recv now s ok (ProxyMessage_Packet pkt) ps r)) =
    (if ps_registered ps then fst (RouteFromProxy_lookup now pkt r) else r)"
  "fst (snd (ProxyService_recv now s ok (ProxyMessage_Register pm) ps r)) =
    fst (RegisterProxyStream now (ProxyId pm) s (ManagedCidr pm) r)"
  by (auto simp: Let_def split: prod.splits sum.splits)

lemma recv_active:
  assumes "reg_ok r"
  shows "active_at now r (fst (snd (ClientService_recv now order s ok m cs r)))"
    and "active_at now r (fst (snd (ProxyService_recv now s ok pm ps r)))"
proof -
  show "active_at now r (fst (snd (ClientService_recv now order s ok m cs r)))"
    by (cases m) (simp_all add: recv_registry(1,2) active_at_lookups [OF assms] active_at_others active_at_same
      del: ClientService_recv.simps(1,2))
  show "active_at now r (fst (snd (ProxyService_recv now s ok pm ps r)))"
    by (cases pm) (simp_all add: recv_registry(3,4) active_at_lookups [OF assms] active_at_others active_at_same
      del: ProxyService_recv.simps(1,2))
qed

text \<open>One event of the server that is not a tick.\<close>

lemma exec_active:
  assumes "server_inv sv" "exec sv e = Some sv'" "server_tick e = None" "server_time e \<in> {None, Some now}"
  shows "active_at now (sv_registry sv) (sv_registry sv')"
proof (cases e)
  case (ClientRecv s t order ok m)
  then show ?thesis using assms recv_active(1) [OF server_invD(1) [OF assms(1)], of t order s ok m]
    by (auto simp: with_client_def put_client_def Let_def split: option.splits if_splits prod.splits) (metis fst_conv snd_conv)
next
  case (ProxyRecv s t ok m)
  then show ?thesis using assms recv_active(2) [OF server_invD(1) [OF assms(1)], of t s ok m]
    by (auto simp: with_proxy_def put_proxy_def Let_def split: option.splits if_splits prod.splits) (metis fst_conv snd_conv)
qed (use assms in \<open>auto simp: with_client_def with_proxy_def put_client_def put_proxy_def active_at_others active_at_count active_at_same
    split: option.splits if_splits client_pc.splits proxy_pc.splits list.splits prod.splits\<close>)

interpretation server_expiry: expiring connections "\<lambda>r ref. rt_LastActivity (routes r ! ref)" cleanupStaleConnections idleTimeout
    exec server_time server_tick sv_registry reachable server_init
proof
  fix s s' e i x
  assume s: "reachable s" "exec s e = Some s'" "server_tick e = None" "connections (sv_registry s') i = Some x"
  let ?now = "case server_time e of None \<Rightarrow> rt_LastActivity (routes (sv_registry s') ! x) + 1 | Some t \<Rightarrow> t"
  have "active_at ?now (sv_registry s) (sv_registry s')"
    using reachable_inv [OF s(1)] s(2,3) by (rule exec_active) (simp split: option.split)
  then show "connections (sv_registry s) i = Some x \<and>
      rt_LastActivity (routes (sv_registry s') ! x) = rt_LastActivity (routes (sv_registry s) ! x) \<or>
      server_time e = Some (rt_LastActivity (routes (sv_registry s') ! x))"
    using active_atD [OF _ s(4)] by (fastforce split: option.splits)
next
  fix s s' e order now
  assume "exec s e = Some s'" "server_tick e = Some order" "server_time e = Some now"
  then show "sv_registry s' = cleanupStaleConnections now order (sv_registry s)" by (cases e) auto
qed (simp_all add: reachable_init reachable_step server_init_def [THEN arg_cong [where f = sv_registry]] NewRegistry_def
  idleTimeout_def minute_def max_duration_def)

section \<open>The client\<close>

fun client_time :: "client_event \<Rightarrow> int option" where
  "client_time (Accept c conn now) = Some now"
| "client_time (ReadData c now data) = Some now"
| "client_time (ReadQueues c now) = Some now"
| "client_time (WriteHeartbeat i now ok) = Some now"
| "client_time (TouchState now) = Some now"
| "client_time (ClientCleanup now order) = Some now"
| "client_time e = None"

fun client_tick :: "client_event \<Rightarrow> string list option" where
  "client_tick (ClientCleanup now order) = Some order"
| "client_tick e = None"

definition tracked_at :: "int \<Rightarrow> tracker \<Rightarrow> tracker \<Rightarrow> bool" where
  "tracked_at now t t' \<longleftrightarrow> (\<forall>i ref. tr_connections t' i = Some ref \<longrightarrow>
     tr_connections t i = Some ref \<and> st_LastActivity (tr_states t' ! ref) = st_LastActivity (tr_states t ! ref) \<or>
     st_LastActivity (tr_states t' ! ref) = now)"

lemma tracked_atD:
  "tracked_at now t t' \<Longrightarrow> tr_connections t' i = Some ref \<Longrightarrow>
   tr_connections t i = Some ref \<and> st_LastActivity (tr_states t' ! ref) = st_LastActivity (tr_states t ! ref) \<or>
   st_LastActivity (tr_states t' ! ref) = now"
  by (simp add: tracked_at_def)

lemma tracked_at_same: "tr_connections t' = tr_connections t \<Longrightarrow> tr_states t' = tr_states t \<Longrightarrow> tracked_at now t t'"
  by (simp add: tracked_at_def)

lemma tracked_at_touch: "tracker_ok t \<Longrightarrow> tracked_at now t (touch now ref t)"
  unfolding tracked_at_def touch_def
  by (auto dest: tracker_okD(1)) (metis conn_state.select_convs(5) conn_state.surjective conn_state.update_convs(5)
    nth_list_update_eq nth_list_update_neq tracker_okD(1))+

lemma tracked_at_Track: "tracker_ok t \<Longrightarrow> tracked_at now t (Track now i d c t)"
  by (auto simp: tracked_at_def Track_def Let_def nth_append dest: tracker_okD(1))

lemma tracked_at_ops:
  assumes "tracker_ok t"
  shows "tracked_at now t (UpdateActivity now i t)" "tracked_at now t (close_conn c t)"
    "tracked_at now t (close_conn c (Remove i t))"
  using tracked_at_touch [OF assms]
  by (auto simp: UpdateActivity_def close_conn_def Remove_def Let_def tracked_at_def split: option.split)

lemma recv_msg_tracker: "cl_tracker (recv_msg m cl) = cl_tracker cl"
  by (cases m) (auto split: sum.split)

lemma cl_exec_active:
  assumes "client_inv cl" "cl_exec services cl e = Some cl'" "client_tick e = None" "client_time e \<in> {None, Some now}"
  shows "tracked_at now (cl_tracker cl) (cl_tracker cl')"
proof -
  note ok = client_invD(1) [OF assms(1)]
  show ?thesis
    using assms(2-4) tracked_at_touch [OF ok] tracked_at_Track [OF ok] tracked_at_ops [OF ok] tracked_at_same
    by (cases e rule: client_tick.cases)
      (auto simp: recv_msg_tracker accept_conn_def read_defs handler_return_def write_local_def Let_def
        split: option.splits if_splits list.splits reader_pc.splits sum.splits)
qed

interpretation client_expiry: expiring tr_connections "\<lambda>t ref. st_LastActivity (tr_states t ! ref)"
    "\<lambda>now order t. fst (Cleanup now (5 * minute) order t)" "5 * minute" "cl_exec services" client_time client_tick cl_tracker
    "cl_reachable services" client_init for services
proof
  fix s s' e i x
  assume s: "cl_reachable services s" "cl_exec services s e = Some s'" "client_tick e = None"
    "tr_connections (cl_tracker s') i = Some x"
  let ?now = "case client_time e of None \<Rightarrow> st_LastActivity (tr_states (cl_tracker s') ! x) + 1 | Some t \<Rightarrow> t"
  have "tracked_at ?now (cl_tracker s) (cl_tracker s')"
    using cl_reachable_inv [OF s(1)] s(2,3) by (rule cl_exec_active) (simp split: option.split)
  then show "tr_connections (cl_tracker s) i = Some x \<and>
      st_LastActivity (tr_states (cl_tracker s') ! x) = st_LastActivity (tr_states (cl_tracker s) ! x) \<or>
      client_time e = Some (st_LastActivity (tr_states (cl_tracker s') ! x))"
    using tracked_atD [OF _ s(4)] by (fastforce split: option.splits)
next
  fix s s' e order now
  assume "cl_exec services s e = Some s'" "client_tick e = Some order" "client_time e = Some now"
  then show "cl_tracker s' = fst (Cleanup now (5 * minute) order (cl_tracker s))" by (cases e) auto
qed (simp_all add: cl_init cl_step client_init_def [THEN arg_cong [where f = cl_tracker]] NewConnectionTracker_def
  minute_def max_duration_def)

section \<open>Properties\<close>

text \<open>C20: the metrics of the registry never show a connection that has been idle for longer than five minutes and the
  time between two cleanups. Whatever the handlers do in between, in every state that the server reaches while its
  ticker is not late by more, each route was active after the last cleanup or not long before it.\<close>

theorem routes_expire:
  assumes "clocked exec server_time server_tick (\<lambda>sv. connections (sv_registry sv)) server_init period sv now cleaned"
    and "GetConnectionMetrics now i (sv_registry sv) = Some m"
  shows "cm_IdleTime m \<le> idleTimeout + period"
proof -
  obtain ref where ref: "connections (sv_registry sv) i = Some ref" "m = route_metrics now (routes (sv_registry sv) ! ref)"
    using assms(2) by (auto simp: GetConnectionMetrics_def)
  have p: "0 \<le> period" using server_expiry.clocked_order [OF assms(1)] by simp
  have "now - rt_LastActivity (routes (sv_registry sv) ! ref) \<le> idleTimeout + period"
    by (rule server_expiry.idle_bound [OF assms(1) ref(1)])
  then show ?thesis using p by (simp add: ref(2) route_metrics_def time_sub_def idleTimeout_def minute_def min_duration_def)
qed

text \<open>The client's tracker never holds a connection that has been idle for longer than five minutes and the time
  between two cleanups; the cleanup has closed the others.\<close>

theorem tracked_connections_expire:
  assumes "clocked (cl_exec services) client_time client_tick (\<lambda>cl. tr_connections (cl_tracker cl)) client_init period cl now cleaned"
    and "Get i (cl_tracker cl) = Some s"
  shows "now - st_LastActivity s \<le> 5 * minute + period"
  using assms(2) client_expiry.idle_bound [OF assms(1)] by (auto simp: Get_def)

text \<open>Events at one time.\<close>

lemma clocked_run_same:
  "run es sv = Some sv' \<Longrightarrow> clocked exec server_time server_tick ents init period sv now cleaned \<Longrightarrow>
   list_all (\<lambda>e. server_tick e = None \<and> server_time e \<in> {None, Some now}) es \<Longrightarrow>
   clocked exec server_time server_tick ents init period sv' now cleaned"
  by (induction es arbitrary: sv) (auto split: option.splits intro: clocked_event)

text \<open>A connection at time 0, and a tick after a minute.\<close>

theorem routes_expire_witness:
  "\<exists>sv m. clocked exec server_time server_tick (\<lambda>sv. connections (sv_registry sv)) server_init minute sv (2 * minute) minute \<and>
     GetConnectionMetrics (2 * minute) ''x'' (sv_registry sv) = Some m \<and> cm_IdleTime m \<le> idleTimeout + minute"
proof -
  let ?c = "clocked exec server_time server_tick (\<lambda>sv. connections (sv_registry sv)) server_init minute"
  have id: "ConnectionId request = ''x''" by (simp add: request_def)
  obtain sv where sv: "run (registrations @ [ClientRecv 1 0 [''p''] True (ClientMessage_Packet request)]) server_init = Some sv"
      "connections (sv_registry sv) = [''x'' \<mapsto> 0]" "routes (sv_registry sv) = [fresh_route 0 ''x'' ''a'' ''p'']"
    unfolding run_append run_registrations
    by (simp add: registered_server_def exec_simps session_lookup [unfolded id] id)
  have m: "0 \<le> minute" by (simp add: minute_def)
  have "?c sv 0 0"
    by (rule clocked_run_same [OF sv(1) clocked_init [OF m]]) (simp add: registrations_def)
  then have "?c sv minute 0" by (rule clocked_wait) (simp_all add: m)
  then have "?c (sv\<lparr>sv_registry := cleanupStaleConnections minute [''x''] (sv_registry sv)\<rparr>) minute minute"
    by (rule clocked_tick [where e = "CleanupTick minute [''x'']" and order = "[''x'']"]) (auto simp: sv(2) range_order_def)
  then have c: "?c (sv\<lparr>sv_registry := cleanupStaleConnections minute [''x''] (sv_registry sv)\<rparr>) (2 * minute) minute"
    by (rule clocked_wait) (simp_all add: m)
  have "connections (cleanupStaleConnections minute [''x''] (sv_registry sv)) = [''x'' \<mapsto> 0]"
    by (simp add: cleanupStaleConnections_def stale_ids_def sv(2,3) fresh_route_def idleTimeout_def minute_def time_sub_def
      min_duration_def delete_keys_apply fun_eq_iff)
  then obtain met where "GetConnectionMetrics (2 * minute) ''x'' (cleanupStaleConnections minute [''x''] (sv_registry sv)) = Some met"
    by (simp add: GetConnectionMetrics_def)
  then show ?thesis using c routes_expire [OF c] by fastforce
qed

theorem tracked_connections_expire_witness:
  "\<exists>s. clocked (cl_exec no_services) client_time client_tick (\<lambda>cl. tr_connections (cl_tracker cl)) client_init minute
       (sample_client no_services) minute 0 \<and>
     Get (h_connID (sample_handler no_services)) (cl_tracker (sample_client no_services)) = Some s \<and>
     minute - st_LastActivity s \<le> 6 * minute"
proof -
  let ?c = "clocked (cl_exec no_services) client_time client_tick (\<lambda>cl. tr_connections (cl_tracker cl)) client_init minute"
  have "?c (sample_client no_services) 0 0"
    by (rule clocked_event [OF clocked_init, where e = "Accept 1 sample_conn 0"])
      (simp_all add: minute_def sample_client_def, simp add: client_init_def)
  then have c: "?c (sample_client no_services) minute 0" by (rule clocked_wait) (simp_all add: minute_def)
  obtain s where s: "Get (h_connID (sample_handler no_services)) (cl_tracker (sample_client no_services)) = Some s"
    by (simp add: sample_client_def accept_conn_def sample_opens client_init_def Get_Track tracker_ok_new)
  then show ?thesis using c tracked_connections_expire [OF c s] by auto
qed

end
