(* ===== verification/Loops.thy ===== *)
theory Loops
  imports Session Client Proxy
begin

text \<open>
  The goroutines' loops as the sources have them: the cleanup loops of the registry and the client, the heartbeat loop
  of the proxy, and \<open>Handle\<close> of the client's connections. The events of the server, the client and the proxy are the
  rounds of these loops.
\<close>

section \<open>Tickers\<close>

text \<open>Each cleanup loop, and the heartbeat loop of the proxy, waits for its ticker and for the end of its context or
  of the connection; what each tick brings is in the input.\<close>

datatype 'a select = Ticked 'a | Ended

fun ticker_loop :: "('a \<Rightarrow> 's \<Rightarrow> 's) \<Rightarrow> 'a select list \<Rightarrow> 's \<Rightarrow> 's \<times> bool" where
  "ticker_loop f [] s = (s, False)"
| "ticker_loop f (Ticked a # ins) s = ticker_loop f ins (f a s)"
| "ticker_loop f (Ended # ins) s = (s, True)"

definition registry_cleanupLoop :: "(int \<times> string list) select list \<Rightarrow> registry \<Rightarrow> registry \<times> bool" where
  "registry_cleanupLoop = ticker_loop (\<lambda>(now, order). cleanupStaleConnections now order)"

definition client_cleanupLoop :: "(int \<times> string list) select list \<Rightarrow> client \<Rightarrow> client \<times> bool" where
  "client_cleanupLoop = ticker_loop (\<lambda>(now, order). cleanupLoop_tick now order)"

definition heartbeatLoop :: "(int \<times> bool) select list \<Rightarrow> proxy \<Rightarrow> proxy \<times> bool" where
  "heartbeatLoop = ticker_loop (\<lambda>(now, ok). SendHeartbeat now ok)"

text \<open>The ticks before the end.\<close>

fun ticks :: "'a select list \<Rightarrow> 'a list" where
  "ticks (Ticked a # ins) = a # ticks ins"
| "ticks ins = []"

text \<open>A loop does what its tick events do one after the other, so the events of the server, the client and the proxy
  are the rounds of the loops.\<close>

lemma registry_loop_events:
  "run (map (\<lambda>(now, order). CleanupTick now order) (ticks ins)) sv =
    Some (sv\<lparr>sv_registry := fst (registry_cleanupLoop ins (sv_registry sv))\<rparr>)"
  unfolding registry_cleanupLoop_def
  by (induction ins arbitrary: sv rule: ticks.induct) (auto split: prod.split)

lemma client_loop_events:
  "cl_run services (map (\<lambda>(now, order). ClientCleanup now order) (ticks ins)) cl = Some (fst (client_cleanupLoop ins cl))"
  unfolding client_cleanupLoop_def
  by (induction ins arbitrary: cl rule: ticks.induct) (auto simp del: cleanupLoop_tick_def split: prod.split)

lemma heartbeat_loop_events:
  "\<not> px_crashed px \<Longrightarrow> px_run (map (\<lambda>(now, ok). PHeartbeat now ok) (ticks ins)) px = Some (fst (heartbeatLoop ins px))"
  unfolding heartbeatLoop_def
  by (induction ins arbitrary: px rule: ticks.induct) (auto simp: px_exec_def split: prod.split)

section \<open>Handling a connection\<close>







text \<open>What a number of reads does to the channel and the buffer when the write loop does not run.\<close>

definition reads_done :: "nat \<Rightarrow> handler \<Rightarrow> (int \<times> byte list) list \<Rightarrow> client \<Rightarrow> client" where
  "reads_done c h reads cl = fold (\<lambda>(now, data). handler_read c h now data) reads cl"


lemma reads_done_Nil [simp]: "reads_done c h [] cl = cl"
  by (simp add: reads_done_def)

lemma reads_done_Cons [simp]:
  "reads_done c h ((now, data) # reads) cl = reads_done c h reads (handler_read c h now data cl)"
  by (simp add: reads_done_def)






section \<open>Properties\<close>



end
