(* ===== verification/Embedded.thy ===== *)
theory Embedded
  imports Certs Config
begin

text \<open>
  \<open>internal/certs/embed.go\<close>: the variables that the compiler fills with the files gencerts has written, and from
  which the programs take their certificates when their settings name none.
\<close>

section \<open>The variables\<close>

record embedded_certs = certs +
  CAKey :: "byte list"

text \<open>A build embeds the files that lie beside \<open>embed.go\<close>; it fails when one is missing.\<close>

definition embed :: "(string \<Rightarrow> byte list option) \<Rightarrow> embedded_certs option" where
  "embed file =
     (case (file ''ca.crt'', file ''ca.key'') of
        (Some caCert, Some caKey) \<Rightarrow>
          (case (file ''server.crt'', file ''server.key'', file ''client.crt'', file ''client.key'', file ''proxy.crt'', file ''proxy.key'') of
             (Some serverCert, Some serverKey, Some clientCert, Some clientKey, Some proxyCert, Some proxyKey) \<Rightarrow>
               Some \<lparr>CACert = caCert, certs.ServerCert = serverCert, ServerKey = serverKey, certs.ClientCert = clientCert,
                 ClientKey = clientKey, ProxyCert = proxyCert, ProxyKey = proxyKey, CAKey = caKey\<rparr>
           | _ \<Rightarrow> None)
      | _ \<Rightarrow> None)"

section \<open>What the TLS library promises\<close>

text \<open>PEM texts are not empty. A pair of PEM texts is a key pair of the TLS library when the first is a certificate that
  was created for the key the second holds, and a certificate in PEM can be added to a pool.\<close>

definition tls_behaves :: "('cert, 'key) x509_lib \<Rightarrow> 'tls tls_env \<Rightarrow> bool" where
  "tls_behaves x te \<longleftrightarrow> (\<forall>t \<in> set block_types. \<forall>b. x_EncodeToMemory x t b \<noteq> []) \<and>
     (\<forall>t parent key signer der cert kb. x_CreateCertificate x t parent key signer = Some der \<longrightarrow>
        x_ParseCertificate x der = Some cert \<longrightarrow> x_MarshalECPrivateKey x key = Some kb \<longrightarrow>
        (\<exists>c. te_X509KeyPair te (x_EncodeToMemory x ''CERTIFICATE'' der) (x_EncodeToMemory x ''EC PRIVATE KEY'' kb) = Some c)) \<and>
     (\<forall>der cert. x_ParseCertificate x der = Some cert \<longrightarrow> te_AppendCertsFromPEM te (x_EncodeToMemory x ''CERTIFICATE'' der))"

text \<open>A pair of texts the TLS library takes.\<close>

definition usable_pair :: "'tls tls_env \<Rightarrow> byte list \<Rightarrow> byte list \<Rightarrow> bool" where
  "usable_pair te cert key \<longleftrightarrow> cert \<noteq> [] \<and> key \<noteq> [] \<and> te_X509KeyPair te cert key \<noteq> None"

lemma role_usable:
  assumes "tls_behaves x te" "role_ok x fs ca dir s opts"
  obtains cert key where "f_ReadFile fs (path_join dir (co_CommonName opts @ ''.crt'')) s = Some cert"
    "f_ReadFile fs (path_join dir (co_CommonName opts @ ''.key'')) s = Some key" "usable_pair te cert key"
proof -
  obtain cert key serial t1 t2 der kb where
      "x_CreateCertificate x (cert_template opts serial t1 t2) (Inr (ca_Cert ca)) key (ca_PrivateKey ca) = Some der"
      "x_ParseCertificate x der = Some cert" "x_MarshalECPrivateKey x key = Some kb"
      "f_ReadFile fs (path_join dir (co_CommonName opts @ ''.crt'')) s = Some (x_EncodeToMemory x ''CERTIFICATE'' der)"
      "f_ReadFile fs (path_join dir (co_CommonName opts @ ''.key'')) s = Some (x_EncodeToMemory x ''EC PRIVATE KEY'' kb)"
    using assms(2) unfolding role_ok_def by blast
  moreover from this have "usable_pair te (x_EncodeToMemory x ''CERTIFICATE'' der) (x_EncodeToMemory x ''EC PRIVATE KEY'' kb)"
    using assms(1) unfolding tls_behaves_def usable_pair_def block_types_def by force
  ultimately show thesis using that by blast
qed

text \<open>Options that name nothing are filled with the embedded texts, and these load.\<close>

lemma filled_loads:
  assumes "usable_pair te cert key" "ca \<noteq> []" "te_AppendCertsFromPEM te ca"
  shows "\<exists>t. LoadTLSConfig te (fill_tls cert key ca no_tls_options) = Inr t \<and> tc_RootCAs t = ca \<and>
      te_X509KeyPair te cert key = Some (tc_Certificate t)"
    "\<exists>t. LoadServerTLSConfig te (fill_tls cert key ca no_tls_options) = Inr t \<and> tc_RootCAs t = ca \<and>
      te_X509KeyPair te cert key = Some (tc_Certificate t)"
  using assms by (auto simp: usable_pair_def LoadServerTLSConfig_def LoadTLSConfig_def load_cert_def load_ca_def
    fill_tls_def no_tls_options_def pem_bytes_def)

section \<open>Properties\<close>

text \<open>C40: A build after gencerts has certificates that all three programs can use. When gencerts has succeeded, the
  files it left can be embedded; and a program whose TLS options are all empty then gets its TLS configuration, whatever
  else it has loaded: with the certificate embedded for its role, and the one authority of gencerts as the pool.\<close>

theorem gencerts_build_has_tls:
  assumes x: "x509_behaves x" and fs: "files_behave same fs" and tls: "tls_behaves x te"
    and nl: "no_links same dir" and run: "gencerts_run x fs org dir generateEmbed r0 r1 r2 r3 s = (s', None)"
  shows "\<exists>cs. embed (\<lambda>n. f_ReadFile fs (path_join dir n) s') = Some cs \<and>
    (snd (client_LoadConfig b le order f env) = Inr ccfg \<and> cc_TLS ccfg = no_tls_options \<longrightarrow>
      (\<exists>t. client_ProvideConfig b le order te (certs.truncate cs) f env = Inr (ccfg, t) \<and> tc_RootCAs t = CACert cs \<and>
        te_X509KeyPair te (certs.ClientCert cs) (ClientKey cs) = Some (tc_Certificate t))) \<and>
    (snd (server_LoadConfig b le' order' f' env') = Inr scfg \<and> sc_TLS scfg = no_tls_options \<longrightarrow>
      (\<exists>t. server_ProvideConfig b le' order' te (certs.truncate cs) f' env' = Inr (scfg, t) \<and> tc_RootCAs t = CACert cs \<and>
        te_X509KeyPair te (certs.ServerCert cs) (ServerKey cs) = Some (tc_Certificate t))) \<and>
    (\<exists>t. proxy_ProvideConfig b te (certs.truncate cs) = Inr (proxy_DefaultConfig b, t) \<and> tc_RootCAs t = CACert cs \<and>
      te_X509KeyPair te (ProxyCert cs) (ProxyKey cs) = Some (tc_Certificate t))"
proof -
  let ?file = "\<lambda>n. f_ReadFile fs (path_join dir n) s'"
  obtain ca der pem where ca: "x_ParseCertificate x der = Some (ca_Cert ca)"
      "?file ''ca.crt'' = Some (x_EncodeToMemory x ''CERTIFICATE'' der)" "?file ''ca.key'' = Some pem"
      "role_ok x fs ca dir s' server_options" "role_ok x fs ca dir s' client_options" "role_ok x fs ca dir s' proxy_options"
    using gencerts_leaves [OF x fs nl run] by blast
  let ?ca = "x_EncodeToMemory x ''CERTIFICATE'' der"
  have pool: "?ca \<noteq> []" "te_AppendCertsFromPEM te ?ca" using tls ca(1) unfolding tls_behaves_def block_types_def by (force, blast)
  obtain sc sk where server: "?file ''server.crt'' = Some sc" "?file ''server.key'' = Some sk" "usable_pair te sc sk"
    using role_usable [OF tls ca(4)] by (auto simp: server_options_def)
  obtain cc ck where client: "?file ''client.crt'' = Some cc" "?file ''client.key'' = Some ck" "usable_pair te cc ck"
    using role_usable [OF tls ca(5)] by (auto simp: client_options_def)
  obtain pc pk where proxy: "?file ''proxy.crt'' = Some pc" "?file ''proxy.key'' = Some pk" "usable_pair te pc pk"
    using role_usable [OF tls ca(6)] by (auto simp: proxy_options_def)
  let ?cs = "\<lparr>CACert = ?ca, certs.ServerCert = sc, ServerKey = sk, certs.ClientCert = cc, ClientKey = ck, ProxyCert = pc,
    ProxyKey = pk, CAKey = pem\<rparr>"
  have "embed ?file = Some ?cs" using ca(2,3) server client proxy by (simp add: embed_def)
  moreover note filled_loads(1) [OF client(3) pool] filled_loads(2) [OF server(3) pool] filled_loads(1) [OF proxy(3) pool]
  ultimately show ?thesis
    by (intro exI [of _ ?cs]) (auto simp: client_ProvideConfig_def server_ProvideConfig_def proxy_ProvideConfig_def
      LoadClientTLSConfig_def proxy_DefaultConfig_def Let_def certs.truncate_def)
qed


text \<open>A TLS library over the certificates of \<open>sample_x509\<close>, which takes every pair.\<close>

definition sample_tls :: "byte list tls_env" where
  "sample_tls = \<lparr>te_LoadX509KeyPair = (\<lambda>c k. None), te_X509KeyPair = (\<lambda>c k. Some c), te_ReadFile = (\<lambda>f. None),
     te_AppendCertsFromPEM = (\<lambda>pem. True)\<rparr>"

lemma sample_tls_behaves: "tls_behaves sample_x509 sample_tls"
  by (simp add: tls_behaves_def sample_x509_def sample_tls_def)

theorem gencerts_build_has_tls_witness:
  "\<exists>s' cs t. gencerts_run sample_x509 sample_files ''Org'' ''certs'' True \<lparr>rn_Key = Some 1, rn_Serial = Some 7, rn_Now1 = 0, rn_Now2 = 1\<rparr>
       \<lparr>rn_Key = Some 2, rn_Serial = Some 8, rn_Now1 = 0, rn_Now2 = 1\<rparr> \<lparr>rn_Key = Some 3, rn_Serial = Some 9, rn_Now1 = 0, rn_Now2 = 1\<rparr>
       \<lparr>rn_Key = Some 4, rn_Serial = Some 10, rn_Now1 = 0, rn_Now2 = 1\<rparr> Map.empty = (s', None) \<and>
     embed (\<lambda>n. s' (path_join ''certs'' n)) = Some cs \<and>
     client_ProvideConfig release_build sample_load_env [] sample_tls (certs.truncate cs) '''' Map.empty =
       Inr (client_DefaultConfig release_build, t) \<and> tc_RootCAs t = CACert cs"
proof -
  let ?run = "gencerts_run sample_x509 sample_files ''Org'' ''certs'' True \<lparr>rn_Key = Some 1, rn_Serial = Some 7, rn_Now1 = 0, rn_Now2 = 1\<rparr>
       \<lparr>rn_Key = Some 2, rn_Serial = Some 8, rn_Now1 = 0, rn_Now2 = 1\<rparr> \<lparr>rn_Key = Some 3, rn_Serial = Some 9, rn_Now1 = 0, rn_Now2 = 1\<rparr>
       \<lparr>rn_Key = Some 4, rn_Serial = Some 10, rn_Now1 = 0, rn_Now2 = 1\<rparr> Map.empty"
  have "snd ?run = None"
    by (simp add: gencerts_run_def GenerateCA_def SaveToFiles_def SaveCert_def make_cert_def GenerateCert_def generateEmbedFile_def
      sample_x509_def sample_files_def Let_def del: fun_upd_apply)
  then obtain s' where run: "?run = (s', None)" by (metis prod.collapse)
  have read: "(\<lambda>n. f_ReadFile sample_files (path_join ''certs'' n) s') = (\<lambda>n. s' (path_join ''certs'' n))"
    by (simp add: sample_files_def)
  have cfg: "snd (client_LoadConfig release_build sample_load_env [] '''' Map.empty) = Inr (client_DefaultConfig release_build)"
    "cc_TLS (client_DefaultConfig release_build) = no_tls_options"
    by (simp_all add: client_LoadConfig_def Load_def client_loads.default_valid) (simp add: client_DefaultConfig_def)
  note all = gencerts_build_has_tls [OF samples_behave(1,2) sample_tls_behaves samples_behave(3) run, unfolded read,
    where b = release_build and le = sample_load_env and order = "[]" and f = "''''" and env = Map.empty and ccfg = "client_DefaultConfig release_build"]
  then show ?thesis using run cfg by blast
qed

end
