(* ===== verification/Logging.thy ===== *)
theory Logging
  imports Config
begin

text \<open>
  \<open>pkg/logger\<close>: the fields of a log record, the adapter of \<open>log/slog\<close>, and the events of the container
  that \<open>fx.go\<close> writes. A logger is a handler with the fields that \<open>With\<close> has added; what it writes
  is the list of records that reach its output.
\<close>

section \<open>Fields\<close>

text \<open>The dynamic type of a value and the value. A floating point value is given by its bits; an error may be nil;
  the values of other types, of which the programs log none, are a number of their own.\<close>

datatype log_value =
    StringValue string
  | IntValue int
  | Int64Value int
  | UintValue nat
  | Uint64Value u64
  | Float64Value u64
  | BoolValue bool
  | DurationValue int
  | TimeValue int
  | ErrorValue "string option"
  | OtherValue nat

record log_field =
  Key :: string
  Val :: log_value

definition String :: "string \<Rightarrow> string \<Rightarrow> log_field" where
  "String k v = \<lparr>Key = k, Val = StringValue v\<rparr>"

definition Int_field :: "string \<Rightarrow> int \<Rightarrow> log_field" where
  "Int_field k v = \<lparr>Key = k, Val = IntValue v\<rparr>"

definition Int64 :: "string \<Rightarrow> int \<Rightarrow> log_field" where
  "Int64 k v = \<lparr>Key = k, Val = Int64Value v\<rparr>"

definition Uint :: "string \<Rightarrow> nat \<Rightarrow> log_field" where
  "Uint k v = \<lparr>Key = k, Val = UintValue v\<rparr>"

definition Uint64 :: "string \<Rightarrow> u64 \<Rightarrow> log_field" where
  "Uint64 k v = \<lparr>Key = k, Val = Uint64Value v\<rparr>"

definition Float64 :: "string \<Rightarrow> u64 \<Rightarrow> log_field" where
  "Float64 k v = \<lparr>Key = k, Val = Float64Value v\<rparr>"

definition Bool :: "string \<Rightarrow> bool \<Rightarrow> log_field" where
  "Bool k v = \<lparr>Key = k, Val = BoolValue v\<rparr>"

definition Time :: "string \<Rightarrow> int \<Rightarrow> log_field" where
  "Time k v = \<lparr>Key = k, Val = TimeValue v\<rparr>"

definition NamedError :: "string \<Rightarrow> string option \<Rightarrow> log_field" where
  "NamedError k err = \<lparr>Key = k, Val = ErrorValue err\<rparr>"

definition Duration :: "string \<Rightarrow> int \<Rightarrow> log_field" where
  "Duration k v = \<lparr>Key = k, Val = DurationValue v\<rparr>"

definition Error :: "string option \<Rightarrow> log_field" where
  "Error err = \<lparr>Key = ''error'', Val = ErrorValue err\<rparr>"

definition Any :: "string \<Rightarrow> log_value \<Rightarrow> log_field" where
  "Any k v = \<lparr>Key = k, Val = v\<rparr>"

section \<open>The adapter\<close>

definition slog_Debug :: int where "slog_Debug = - 4"
definition slog_Info :: int where "slog_Info = 0"
definition slog_Warn :: int where "slog_Warn = 4"
definition slog_Error :: int where "slog_Error = 8"

definition mapLevelToSlog :: "string \<Rightarrow> int" where
  "mapLevelToSlog l =
     (if l = ''debug'' then slog_Debug
      else if l = ''info'' then slog_Info
      else if l = ''warn'' then slog_Warn
      else if l = ''error'' then slog_Error
      else slog_Info)"

datatype handler_kind = JSONHandler | TextHandler

text \<open>\<open>slog\<close> takes keys and values alternating in one list of any type; a key stands as a string.\<close>

fun convertToSlogAttrs :: "log_field list \<Rightarrow> log_value list" where
  "convertToSlogAttrs [] = []"
| "convertToSlogAttrs (f # fs) = StringValue (Key f) # Val f # convertToSlogAttrs fs"

text \<open>How \<open>slog\<close> reads the list: a string is the key of the value after it; a string at the end, and anything
  else in the place of a key, is a value without key.\<close>

fun slog_attrs :: "log_value list \<Rightarrow> (string \<times> log_value) list" where
  "slog_attrs (StringValue k # v # rest) = (k, v) # slog_attrs rest"
| "slog_attrs [v] = [(''!BADKEY'', v)]"
| "slog_attrs (v # rest) = (''!BADKEY'', v) # slog_attrs rest"
| "slog_attrs [] = []"

record 'w slog_logger =
  lg_Handler :: handler_kind
  lg_Level :: int
  lg_Output :: 'w
  lg_Attrs :: "(string \<times> log_value) list"

text \<open>The configuration and the writer may be nil; the default configuration is the one of the package.\<close>

definition logger_DefaultConfig :: log_config where
  "logger_DefaultConfig = \<lparr>Level = ''info'', Format = ''json'', Development = False\<rparr>"

definition NewSlogLogger :: "'w \<Rightarrow> (log_config \<times> 'w option) option \<Rightarrow> 'w slog_logger" where
  "NewSlogLogger stdout config =
     (let (cfg, out) = (case config of None \<Rightarrow> (logger_DefaultConfig, None) | Some c \<Rightarrow> c);
          output = (case out of None \<Rightarrow> stdout | Some w \<Rightarrow> w);
          handler = (if Format cfg = ''json'' then JSONHandler
                     else if Format cfg = ''text'' \<or> Format cfg = ''console'' then TextHandler
                     else JSONHandler)
      in \<lparr>lg_Handler = handler, lg_Level = mapLevelToSlog (Level cfg), lg_Output = output, lg_Attrs = []\<rparr>)"

definition logger_DevelopmentConfig :: log_config where
  "logger_DevelopmentConfig = \<lparr>Level = ''debug'', Format = ''console'', Development = True\<rparr>"

definition logger_New :: "'w \<Rightarrow> 'w slog_logger" where
  "logger_New stdout = NewSlogLogger stdout (Some (logger_DefaultConfig, None))"

definition NewDevelopment :: "'w \<Rightarrow> 'w slog_logger" where
  "NewDevelopment stdout = NewSlogLogger stdout (Some (logger_DevelopmentConfig, None))"

text \<open>A context is not used, and there is nothing to flush.\<close>

definition WithContext :: "'ctx \<Rightarrow> 'w slog_logger \<Rightarrow> 'w slog_logger" where
  "WithContext ctx lg = lg"

definition logger_Sync :: "'w slog_logger \<Rightarrow> 'e option" where
  "logger_Sync lg = None"

definition With :: "log_field list \<Rightarrow> 'w slog_logger \<Rightarrow> 'w slog_logger" where
  "With fs lg = lg\<lparr>lg_Attrs := lg_Attrs lg @ slog_attrs (convertToSlogAttrs fs)\<rparr>"

text \<open>A record: its level, message and attributes. A handler drops the records below its level.\<close>

type_synonym log_record = "int \<times> string \<times> (string \<times> log_value) list"

definition log_at :: "int \<Rightarrow> string \<Rightarrow> log_field list \<Rightarrow> 'w slog_logger \<Rightarrow> log_record list" where
  "log_at level msg fs lg =
     (if lg_Level lg \<le> level then [(level, msg, lg_Attrs lg @ slog_attrs (convertToSlogAttrs fs))] else [])"

definition log_Debug :: "string \<Rightarrow> log_field list \<Rightarrow> 'w slog_logger \<Rightarrow> log_record list" where
  "log_Debug = log_at slog_Debug"

definition log_Info :: "string \<Rightarrow> log_field list \<Rightarrow> 'w slog_logger \<Rightarrow> log_record list" where
  "log_Info = log_at slog_Info"

definition log_Warn :: "string \<Rightarrow> log_field list \<Rightarrow> 'w slog_logger \<Rightarrow> log_record list" where
  "log_Warn = log_at slog_Warn"

definition log_Error :: "string \<Rightarrow> log_field list \<Rightarrow> 'w slog_logger \<Rightarrow> log_record list" where
  "log_Error = log_at slog_Error"

text \<open>\<open>NewLogger\<close> of the module: the configuration of the container, or none.\<close>

definition NewLogger :: "'w \<Rightarrow> (log_config \<times> 'w option) option \<Rightarrow> 'w slog_logger" where
  "NewLogger stdout config =
     NewSlogLogger stdout (Some (case config of None \<Rightarrow> (logger_DefaultConfig, None) | Some c \<Rightarrow> c))"

section \<open>The events of the container\<close>

datatype fx_event =
    OnStartExecuting string string
  | OnStartExecuted string string int "string option"
  | OnStopExecuting string string
  | OnStopExecuted string string int "string option"
  | Supplied string string
  | Provided string string "string list"
  | Decorated string string "string list"
  | Invoking string string
  | Invoked string string "string option"
  | Stopping string
  | Stopped "string option"
  | RollingBack "string option"
  | RolledBack "string option"
  | Started "string option"
  | LoggerInitialized string "string option"
  | OtherEvent

definition NewFxLogger :: "'w slog_logger \<Rightarrow> 'w slog_logger" where
  "NewFxLogger = With [String ''component'' ''fx'']"

fun LogEvent :: "fx_event \<Rightarrow> 'w slog_logger \<Rightarrow> log_record list" where
  "LogEvent (OnStartExecuting callee caller) lg =
     log_Debug ''OnStart hook executing'' [String ''callee'' callee, String ''caller'' caller] lg"
| "LogEvent (OnStartExecuted callee caller runtime err) lg =
     (if err \<noteq> None
      then log_Error ''OnStart hook failed'' [String ''callee'' callee, String ''caller'' caller, Error err] lg
      else log_Debug ''OnStart hook executed'' [String ''callee'' callee, String ''caller'' caller, Duration ''runtime'' runtime] lg)"
| "LogEvent (OnStopExecuting callee caller) lg =
     log_Debug ''OnStop hook executing'' [String ''callee'' callee, String ''caller'' caller] lg"
| "LogEvent (OnStopExecuted callee caller runtime err) lg =
     (if err \<noteq> None
      then log_Error ''OnStop hook failed'' [String ''callee'' callee, String ''caller'' caller, Error err] lg
      else log_Debug ''OnStop hook executed'' [String ''callee'' callee, String ''caller'' caller, Duration ''runtime'' runtime] lg)"
| "LogEvent (Supplied typeName moduleName) lg =
     log_Debug ''supplied'' [String ''type'' typeName, Any ''module'' (StringValue moduleName)] lg"
| "LogEvent (Provided constructorName moduleName outputTypeNames) lg =
     concat (map (\<lambda>rtype. log_Debug ''provided'' [String ''constructor'' constructorName,
       Any ''module'' (StringValue moduleName), String ''type'' rtype] lg) outputTypeNames)"
| "LogEvent (Decorated decoratorName moduleName outputTypeNames) lg =
     concat (map (\<lambda>rtype. log_Debug ''decorated'' [String ''decorator'' decoratorName,
       Any ''module'' (StringValue moduleName), String ''type'' rtype] lg) outputTypeNames)"
| "LogEvent (Invoking functionName moduleName) lg =
     log_Debug ''invoking'' [String ''function'' functionName, Any ''module'' (StringValue moduleName)] lg"
| "LogEvent (Invoked functionName moduleName err) lg =
     (if err \<noteq> None
      then log_Error ''invoke failed'' [String ''function'' functionName, Any ''module'' (StringValue moduleName), Error err] lg
      else [])"
| "LogEvent (Stopping sig) lg = log_Info ''received signal'' [String ''signal'' (map to_upper sig)] lg"
| "LogEvent (Stopped err) lg = (if err \<noteq> None then log_Error ''stop failed'' [Error err] lg else [])"
| "LogEvent (RollingBack startErr) lg = log_Error ''start failed, rolling back'' [Error startErr] lg"
| "LogEvent (RolledBack err) lg = (if err \<noteq> None then log_Error ''rollback failed'' [Error err] lg else [])"
| "LogEvent (Started err) lg =
     (if err \<noteq> None then log_Error ''start failed'' [Error err] lg else log_Info ''started'' [] lg)"
| "LogEvent (LoggerInitialized constructorName err) lg =
     (if err \<noteq> None then log_Error ''custom logger initialization failed'' [Error err] lg
      else log_Debug ''initialized custom fxevent.Logger'' [String ''constructor'' constructorName] lg)"
| "LogEvent OtherEvent lg = []"

section \<open>Lemmas\<close>

text \<open>No value can be taken for a key: the list read by \<open>slog\<close> gives the fields back.\<close>

lemma attrs_of_fields: "slog_attrs (convertToSlogAttrs fs) = map (\<lambda>f. (Key f, Val f)) fs"
  by (induction fs) auto

lemma mapLevelToSlog_le: "mapLevelToSlog l \<le> slog_Error"
  by (simp add: mapLevelToSlog_def slog_Debug_def slog_Info_def slog_Warn_def slog_Error_def)

lemma NewLogger_Level: "lg_Level (NewLogger stdout config) \<le> slog_Error" "lg_Attrs (NewLogger stdout config) = []"
  by (simp_all add: NewLogger_def NewSlogLogger_def Let_def mapLevelToSlog_le split: prod.split)

lemma log_at_fields:
  "log_at level msg fs lg =
     (if lg_Level lg \<le> level then [(level, msg, lg_Attrs lg @ map (\<lambda>f. (Key f, Val f)) fs)] else [])"
  by (simp add: log_at_def attrs_of_fields)

text \<open>Fields added by \<open>With\<close> come first in every record, as if each call had named them.\<close>

lemma With_With: "With gs (With fs lg) = With (fs @ gs) lg"
  by (simp add: With_def attrs_of_fields)

lemma log_With: "log_at level msg gs (With fs lg) = log_at level msg (fs @ gs) lg"
  by (simp add: log_at_fields With_def attrs_of_fields)

text \<open>The error an event carries.\<close>

fun event_error :: "fx_event \<Rightarrow> string option option" where
  "event_error (OnStartExecuted _ _ _ err) = map_option Some err"
| "event_error (OnStopExecuted _ _ _ err) = map_option Some err"
| "event_error (Invoked _ _ err) = map_option Some err"
| "event_error (Stopped err) = map_option Some err"
| "event_error (RollingBack err) = Some err"
| "event_error (RolledBack err) = map_option Some err"
| "event_error (Started err) = map_option Some err"
| "event_error (LoggerInitialized _ err) = map_option Some err"
| "event_error _ = None"

lemma LogEvent_failure:
  assumes "event_error e = Some err" "lg_Level lg \<le> slog_Error"
  obtains msg attrs where "LogEvent e lg = [(slog_Error, msg, lg_Attrs lg @ attrs @ [(''error'', ErrorValue err)])]"
  using assms by (cases e) (auto simp: log_Error_def log_at_fields Error_def)

lemma LogEvent_success:
  assumes "event_error e = None" "r \<in> set (LogEvent e lg)"
  shows "fst r \<le> slog_Info"
  using assms
  by (cases e) (auto simp: log_Debug_def log_Info_def log_at_def slog_Debug_def slog_Info_def split: if_splits)

section \<open>Properties\<close>

text \<open>No failure is lost. Whatever the log settings are, unknown levels included, an event of the container
  that carries an error gives exactly one record, at the highest level, that names the component
  and ends with the error; an event without one gives no record above the information level, and with the
  level of errors none at all.\<close>

theorem failures_always_logged:
  "(\<forall>err. event_error e = Some err \<longrightarrow>
      (\<exists>msg attrs. LogEvent e (NewFxLogger (NewLogger stdout config)) =
        [(slog_Error, msg, (''component'', StringValue ''fx'') # attrs @ [(''error'', ErrorValue err)])])) \<and>
    (event_error e = None \<longrightarrow>
      (\<forall>r \<in> set (LogEvent e (NewFxLogger (NewLogger stdout config))). fst r \<le> slog_Info) \<and>
      (\<forall>c w. config = Some (c, w) \<longrightarrow> Level c = ''error'' \<longrightarrow> LogEvent e (NewFxLogger (NewLogger stdout config)) = []))"
proof -
  let ?lg = "NewFxLogger (NewLogger stdout config)"
  have lg: "lg_Level ?lg = lg_Level (NewLogger stdout config)" "lg_Attrs ?lg = [(''component'', StringValue ''fx'')]"
    by (simp_all add: NewFxLogger_def With_def String_def NewLogger_Level)
  then have le: "lg_Level ?lg \<le> slog_Error" by (simp add: NewLogger_Level)
  have "\<exists>msg attrs. LogEvent e ?lg = [(slog_Error, msg, (''component'', StringValue ''fx'') # attrs @ [(''error'', ErrorValue err)])]"
    if "event_error e = Some err" for err
    by (rule LogEvent_failure [OF that le]) (simp add: lg)
  moreover have "LogEvent e ?lg = []" if "event_error e = None" "config = Some (c, w)" "Level c = ''error''" for c w
  proof -
    have l: "lg_Level ?lg = slog_Error"
      using that unfolding lg(1) by (simp add: NewLogger_def NewSlogLogger_def Let_def mapLevelToSlog_def)
    then have quiet: "log_Debug msg fs ?lg = []" "log_Info msg fs ?lg = []" for msg fs
      by (simp_all add: log_Debug_def log_Info_def log_at_def slog_Debug_def slog_Info_def slog_Error_def)
    show ?thesis using that(1) by (cases e) (simp_all add: quiet)
  qed
  moreover have "\<forall>r \<in> set (LogEvent e ?lg). fst r \<le> slog_Info" if "event_error e = None"
    using LogEvent_success [OF that] by blast
  ultimately show ?thesis by blast
qed

theorem failures_always_logged_witness:
  "\<exists>msg attrs. LogEvent (OnStartExecuted ''client.New.func1()'' ''client.New'' 0 (Some ''failed to connect''))
     (NewFxLogger (NewLogger 1 (Some (\<lparr>Level = ''ERROR'', Format = ''json'', Development = False\<rparr>, None)))) =
     [(slog_Error, msg, (''component'', StringValue ''fx'') # attrs @ [(''error'', ErrorValue (Some ''failed to connect''))])]"
  using failures_always_logged [of "OnStartExecuted ''client.New.func1()'' ''client.New'' 0 (Some ''failed to connect'')" 1
    "Some (\<lparr>Level = ''ERROR'', Format = ''json'', Development = False\<rparr>, None)"] by simp

end
