(* ===== verification/TestHelpers.thy ===== *)
theory TestHelpers
  imports Logging GoNet
begin

text \<open>
  \<open>internal/testing/helpers.go\<close>: the logger of the tests and the connection that reads from one buffer and writes to
  another. Pipes are the library's.
\<close>

definition NewTestLogger :: "'w \<Rightarrow> 'w slog_logger" where
  "NewTestLogger stdout = NewSlogLogger stdout (Some (\<lparr>Level = ''debug'', Format = ''console'', Development = True\<rparr>, None))"

text \<open>The buffers hold what is still to be read. Reading an empty one ends the file, except into no bytes.\<close>

record mock_conn =
  ReadBuf :: "byte list"
  WriteBuf :: "byte list"
  Closed :: bool
  LocalAddress :: "ip \<times> nat"
  RemoteAddress :: "ip \<times> nat"

datatype io_error = EOF

definition NewMockNetConn :: mock_conn where
  "NewMockNetConn = \<lparr>ReadBuf = [], WriteBuf = [], Closed = False, LocalAddress = (parse_ip ''127.0.0.1'', 8080),
     RemoteAddress = (parse_ip ''127.0.0.1'', 12345)\<rparr>"

definition mock_Read :: "nat \<Rightarrow> mock_conn \<Rightarrow> mock_conn \<times> byte list \<times> io_error option" where
  "mock_Read n m =
     (if ReadBuf m = [] then (m, [], if n = 0 then None else Some EOF)
      else (m\<lparr>ReadBuf := drop n (ReadBuf m)\<rparr>, take n (ReadBuf m), None))"

definition mock_Write :: "byte list \<Rightarrow> mock_conn \<Rightarrow> mock_conn \<times> nat" where
  "mock_Write b m = (m\<lparr>WriteBuf := WriteBuf m @ b\<rparr>, length b)"

definition mock_Close :: "mock_conn \<Rightarrow> mock_conn" where
  "mock_Close m = m\<lparr>Closed := True\<rparr>"

definition mock_LocalAddr :: "mock_conn \<Rightarrow> ip \<times> nat" where
  "mock_LocalAddr m = LocalAddress m"

definition mock_RemoteAddr :: "mock_conn \<Rightarrow> ip \<times> nat" where
  "mock_RemoteAddr m = RemoteAddress m"

text \<open>The three deadlines are ignored.\<close>

definition mock_SetDeadline :: "int \<Rightarrow> mock_conn \<Rightarrow> mock_conn" where
  "mock_SetDeadline t m = m"

text \<open>Reading until the end of the file with buffers of any positive sizes.\<close>

fun mock_reads :: "nat list \<Rightarrow> mock_conn \<Rightarrow> byte list" where
  "mock_reads [] m = []"
| "mock_reads (n # ns) m = (case mock_Read n m of (m', b, err) \<Rightarrow> b @ mock_reads ns m')"

text \<open>Chunked reads give what is in the buffer, in order and once, as far as the buffers of the reader reach; whether the
  connection has been closed does not matter, unlike for a connection of the network.\<close>

theorem mock_reads_all:
  "mock_reads ns m = take (sum_list ns) (ReadBuf m)" "mock_reads ns (mock_Close m) = mock_reads ns m"
proof -
  show all: "mock_reads ns m = take (sum_list ns) (ReadBuf m)" for m
    by (induction ns arbitrary: m) (auto simp: mock_Read_def take_add)
  show "mock_reads ns (mock_Close m) = mock_reads ns m" by (simp add: all mock_Close_def)
qed

text \<open>Writes append, whatever has been read in between.\<close>

theorem mock_writes_append:
  "WriteBuf (fst (mock_Write b (fst (mock_Read n m)))) = WriteBuf m @ b"
  "ReadBuf (fst (mock_Write b m)) = ReadBuf m"
  by (simp_all add: mock_Write_def mock_Read_def)

text \<open>The logger of the tests writes every record.\<close>

theorem test_logger_writes_all: "lg_Level (NewTestLogger w) = slog_Debug" "lg_Handler (NewTestLogger w) = TextHandler"
  by (simp_all add: NewTestLogger_def NewSlogLogger_def mapLevelToSlog_def Let_def)

end
