(* ===== verification/Spec2Isabelle.thy ===== *)
theory Spec2Isabelle
  imports Checksum CommandLine Shutdown GracefulStop Uplink Expiry Loops Embedded TestHelpers
begin

text \<open>
  The network tunneler: clients redirect the TCP connections of their hosts into gRPC streams, a
  server routes the packets, proxies dial the destinations. This file composes the parts and
  holds the properties that span them; the other theories model one part each.

  \<^bold>\<open>How the program works, and where each part is modelled.\<close>

  \<^enum> A client (\<open>cmd/client\<close>) installs an iptables rule that redirects the connections to its target
    network to its own port (\<open>pkg/netfilter\<close>, \<open>internal/client/netfilter.go\<close>: Netfilter). A handler accepts
    each connection, asks the kernel for the original destination (\<open>pkg/network/original_dst.go\<close>:
    OriginalDst), derives the connection's identifier from the two endpoints (\<open>pkg/network/connection.go\<close>:
    Connection, over Sha256), registers it with the tracker (\<open>internal/client/tracker.go\<close>: Tracker) and
    puts what it reads into a channel, which the write loop empties into the stream while the read
    loop writes the answers to the tracked connections (\<open>handler.go\<close>, \<open>server_conn.go\<close>: Client).
  \<^enum> The server keeps clients, proxies and routes in a registry (\<open>internal/server/registry.go\<close>: Registry). One
    handler runs on each stream (\<open>grpc_client.go\<close>, \<open>grpc_proxy.go\<close>: Session). The first packet of a connection
    chooses the proxy whose network contains the destination; later ones and the answers follow the route.
  \<^enum> A proxy dials the destination of each new identifier, writes the data there, and one reader for
    each target sends what it reads back (\<open>internal/proxy/forwarder.go\<close>: Forwarder; \<open>server_conn.go\<close>,
    \<open>proxy.go\<close>: Proxy).
  \<^enum> Configuration files, environment, flags and TLS settings are in Config (\<open>internal/config\<close>, the \<open>config.go\<close> and
    \<open>module.go\<close> of each program, \<open>pkg/crypto/tls.go\<close>, the flags of \<open>cmd/*/main.go\<close>, \<open>internal/version\<close>); starting and
    stopping in Lifecycle (\<open>client.go\<close>, \<open>proxy.go\<close>, \<open>server.go\<close>, \<open>grpc_server.go\<close>); the commands, from the settings to
    the exit status, in Commands (\<open>run\<close> of \<open>cmd/*/main.go\<close>, the hooks), and from the arguments to the settings in
    CommandLine (\<open>main\<close>). Shutdown lets the stop of the client run beside its loops, where Lifecycle has it as one step,
    and GracefulStop does so for the server and its handlers. Logging is \<open>pkg/logger\<close>; the
    certificates and the command that makes them are in Certs (\<open>pkg/crypto/ca.go\<close>, \<open>cert.go\<close>, \<open>cmd/gencerts\<close>), and Embedded
    follows them into the programs (\<open>internal/certs/embed.go\<close>). TestHelpers is \<open>internal/testing\<close>.
  \<^enum> Packet and Checksum model the packet library (\<open>pkg/network/packet.go\<close>, \<open>checksum.go\<close>); Proto the messages
    (\<open>proto/packet.pb.go\<close>). Prelude, GoStrings and GoNet hold what the sources use of Go: results with
    errors and panics, slices, iteration over maps, times; decimal and hexadecimal text; IP addresses,
    networks and their text. IdleTable is the contract of a table that is cleaned of idle entries.
  \<^enum> System puts a server, a client on every client stream and a proxy on every proxy stream together; Streams
    adds that each gRPC stream keeps its order, and Uplink follows the bytes a client reads. Expiry adds a clock to the server and to the client. Loops has
    the goroutines' loops as the sources write them, with what \<open>Handle\<close> does for a whole connection.

  \<^bold>\<open>How the models correspond to the code.\<close> A struct is a record and a method a function on it, with the
  source's name where HOL allows it. A Go map is a map; wherever the source ranges over one, the order
  is an argument constrained by \<open>range_order\<close>. An object that is reached through a pointer after its table's
  lock was released lives in a list that serves as heap, and the table holds its index: the routes
  of the registry, the states of the tracker and the forwarder. Each critical section is one function,
  and goroutines interleave between them: Client, Session, Proxy and System have an event for each step of
  each loop (\<open>cl_exec\<close>, \<open>exec\<close>, \<open>px_exec\<close>, \<open>sys_exec\<close>, and \<open>rc_exec\<close> of Shutdown, which adds to the client's events where each loop is), \<open>None\<close> meaning that the step is blocked or its
  goroutine is elsewhere, and inductive predicates for the reachable states. What the environment
  decides is in the event: the time, the bytes read, whether a dial, a write or a send succeeds. Where two goroutines of
  the client share a buffer, a round is cut where the other can come between: a handler's after its \<open>Read\<close>
  (\<open>ReadFills\<close>, \<open>ReadQueues\<close>) and the write loop's after the receive from the channel (\<open>TakePacket\<close>, \<open>SendTaken\<close>);
  \<open>ReadData\<close> and \<open>WritePacket\<close> are the rounds in which nothing does. \<open>cl_written\<close> and \<open>px_written\<close> list the packets whose
  data was written whole; a write that fails part of the way is a failed write. Integers have the width
  of the source where they can wrap; durations and ports of configurations are \<open>int\<close>. An error is a
  value, a panic the result \<open>Panic\<close> or a crashed state.

  \<^bold>\<open>What the groups of lemmas show.\<close>

  \<^item> The whole tunnel: \<open>tunnel_round_trip\<close> follows bytes to their destination and back;
    \<open>System.no_cross_talk\<close> and \<open>System.answers_come_from_destination\<close> hold in every reachable state
    of the system, and \<open>Streams.answers_in_order\<close> and \<open>Uplink.request_bytes_in_order\<close> when streams keep their order; \<open>equal_endpoints_mixed_up\<close>, \<open>default_networks_disjoint\<close> and
    \<open>flags_bypass_validation\<close> are ways in which the parts do not fit.
  \<^item> Server: invariants of the registry and of all handlers under any interleaving (\<open>reg_ok\<close>,
    \<open>server_sessions_consistent\<close>), refinement of the routing by a specification without pointers,
    the choice of the proxy, counters, cleanup, and what deferred calls of old handlers do.
  \<^item> Client and proxy: what is sent and written belongs to its connection; what a target's reader queues is
    complete and in order, and a packet is lost only when its \<open>Send\<close> fails; no target connection is leaked; the proxy
    stops within a bounded number of steps, once the reads in progress have ended. \<open>second_read_overwrites_first\<close>,
    \<open>full_channel_loses_bytes\<close>, \<open>stale_reader_closes_new\<close> and \<open>stale_handler_closes_new\<close> say what goes wrong, and when:
    between a handler and the write loop, and between old and new goroutines of one identifier.
  \<^item> Netfilter and Lifecycle: the rules installed and removed, for any order of failures. The arguments
    determine the rule, and it is known exactly which rules are valid. Commands carries this to the process:
    \<open>client_command_leaves_no_rule\<close> says which rules are left, and with which exit status, for every way the command
    can end; only where the container's \<open>Stop\<close> fails is the answer left to \<open>stop_deadline_leaves_rule\<close>.
  \<^item> Stopping: \<open>client_stop_refines\<close> relates the stop that waits for the loops to the one step of Lifecycle,
    \<open>client_stop_completes\<close> bounds it once the stream has ended, if writes to local connections return, and \<open>stop_deadline_leaves_rule\<close> says what is left when the
    container's deadline comes first; \<open>server_stop_waits_for_clients\<close> is the same question for the server.
  \<^item> Certificates: \<open>gencerts_build_has_tls\<close> leads from a run of gencerts to the TLS configurations of the three programs.
  \<^item> Time: \<open>Expiry.routes_expire\<close> and \<open>tracked_connections_expire\<close> bound how long an idle connection stays in a table.
  \<^item> Libraries: serialisers and parsers are inverse, checksums agree with RFC 1071, the identifier
    determines the unordered pair of endpoints up to collisions of the hash, addresses survive being
    printed and parsed, certificates survive being saved and loaded.
  \<^item> The locales hold what several components share, and each is interpreted by the models of those components:
    \<open>idle_table\<close> and its extension \<open>expiring\<close> (tables with a cleanup), \<open>session_table\<close> (the server's two tables of
    streams), \<open>stream_handlers\<close> (the handlers of one kind of stream, which can all return), \<open>relay\<close> (a part that hands
    on what it takes, in order), \<open>loadable\<close> (a configuration) and \<open>program\<close> (what a command provides, starts and stops).

  \<^bold>\<open>Bounds.\<close> The client's channel holds 100 packets and those of the proxy 100 too (\<open>channelBuffer\<close>);
  every read buffer has 65535 bytes, as in the source. No definition uses fuel: every loop of the sources
  is structural, has a measure, or is a sequence of events of any length.

  \<^bold>\<open>What is assumed of code outside the repository.\<close> \<open>iptables_behaves\<close>: iptables checks, inserts and deletes the rules
  it accepts. \<open>x509_behaves\<close> and \<open>files_behave\<close>: what is encoded can be decoded, what is written can be read.
  The readers of configuration files (viper, godotenv), the TLS library and the services database are
  arguments without any assumption, and their witnesses use concrete ones; only in Embedded, \<open>tls_behaves\<close> says which
  pairs and pools the TLS library takes. gRPC: what is received on a stream was sent on it, no more;
  in Streams and Uplink, also in the order of sending and at most once. \<open>fx_behaves\<close>: the container calls the
  providers, then the start hook, and at the end the stop hook, which has run to its end whenever \<open>Stop\<close> reports no error;
  \<open>fx_deadline\<close>: how far it has run when its deadline comes. \<open>GracefulStop\<close> waits for the handlers of all streams.
  \<open>cobra_behaves\<close>: flags have their defaults or the last value given.

  \<^bold>\<open>Not modelled.\<close> The wire format, reflection and stubs of protocol buffers and gRPC, which are generated code;
  how the container finds the constructor of each argument; signals, and the inside of the command line library; \<open>Set\<close> and
  \<open>Get\<close> of the configuration loader, which nothing calls; the text of log lines; contexts' deadlines, other than the
  events they cause; the pipes of the tests.
\<close>

section \<open>One connection through the whole tunnel\<close>

text \<open>The packet that the first bytes of an accepted connection become.\<close>

definition first_packet :: "handler \<Rightarrow> int \<Rightarrow> byte list \<Rightarrow> packet" where
  "first_packet h now data = \<lparr>ConnectionId = h_connID h, Data = data, ConnTuple = Some (handler_tuple h),
     PktProtocol = Protocol_PROTOCOL_TCP, Direction = Direction_DIRECTION_FORWARD, Timestamp = unix_time now\<rparr>"

lemma first_packet_sel [simp]:
  "ConnectionId (first_packet h now data) = h_connID h" "Data (first_packet h now data) = data"
  "ConnTuple (first_packet h now data) = Some (handler_tuple h)"
  by (simp_all add: first_packet_def)

lemma accept_read_send:
  assumes "cl_reachable services cl" "cl_handlers cl k = None" "k \<notin> set (tr_closed (cl_tracker cl))"
    and h: "Handle_open services conn = Some h" "h_state h = Running"
    and "data \<noteq> []" "length data \<le> 65535" "in_flight cl = []"
  obtains cl1 s where "cl_run services [Accept k conn now, ReadData k now data, WritePacket True] cl = Some cl1"
    "cl_sent cl1 = cl_sent cl @ [ClientMessage_Packet (first_packet h now data)]" "cl_reader cl1 = cl_reader cl"
    "Get (h_connID h) (cl_tracker cl1) = Some s" "st_LocalConn s = k" "cl_written cl1 = cl_written cl"
    "k \<notin> set (tr_closed (cl_tracker cl1))"
proof -
  let ?t = "UpdateActivity now (h_connID h) (Track now (h_connID h) (h_originalDest h) k (cl_tracker cl))"
  note inv = cl_reachable_inv [OF assms(1)]
  have idle: "cl_pending cl k = None" by (rule no_handler_no_pending [OF assms(1,2)])
  have "length (cl_bufs cl k) = 65535" using client_invD(4) [OF inv] by (simp add: queue_ok_def)
  then have data: "take (length data) (copy_at 0 data (cl_bufs cl k)) = data"
    using assms(7) take_copy_at [of "length data" data "cl_bufs cl k"] by simp
  have m: "marshal ((cl_bufs cl)(k := copy_at 0 data (cl_bufs cl k))) (handler_packet k h now (length data)) =
      first_packet h now data"
    by (simp add: marshal_def handler_packet_def first_packet_def data)
  have "tr_closed (UpdateActivity n i t) = tr_closed t" for n i t by (simp add: UpdateActivity_def split: option.split)
  then have c: "tr_closed ?t = tr_closed (cl_tracker cl)" by (simp add: Track_def Let_def)
  have run: "cl_run services [Accept k conn now, ReadData k now data, WritePacket True] cl =
      Some (cl\<lparr>cl_handlers := (cl_handlers cl)(k \<mapsto> h), cl_tracker := ?t,
        cl_bufs := (cl_bufs cl)(k := copy_at 0 data (cl_bufs cl k)), cl_queue := [],
        cl_sent := cl_sent cl @ [ClientMessage_Packet (first_packet h now data)]\<rparr>)"
    using assms(2-8) idle by (simp add: accept_conn_def read_defs packetChan_cap_def Let_def m)
      (simp add: Track_def Let_def)
  have g: "\<exists>s. Get (h_connID h) ?t = Some s \<and> st_LocalConn s = k"
    using client_invD(1) [OF inv] by (simp add: Get_UpdateActivity tracker_ok_Track Get_Track)
  show thesis using that [OF run] g c assms(3) by auto
qed

lemma deliver_tracked:
  assumes "cl_reachable services cl" "cl_reader cl = RIdle"
    and "Get (ConnectionId pkt) (cl_tracker cl) = Some s" "st_LocalConn s \<notin> set (tr_closed (cl_tracker cl))"
  obtains cl1 where "cl_run services [RecvMsg (ClientMessage_Packet pkt), TouchState now, WriteLocal True] cl = Some cl1"
    "cl_written cl1 = cl_written cl @ [(st_LocalConn s, pkt)]"
proof -
  obtain ref where ref: "tr_connections (cl_tracker cl) (ConnectionId pkt) = Some ref" "s = tr_states (cl_tracker cl) ! ref"
    using assms(3) by (auto simp: Get_def)
  have "ref < length (tr_states (cl_tracker cl))"
    using tracker_okD [OF client_invD(1) [OF cl_reachable_inv [OF assms(1)]] ref(1)] by simp
  with assms(2,4) ref have "\<exists>cl1. cl_run services [RecvMsg (ClientMessage_Packet pkt), TouchState now, WriteLocal True] cl =
      Some cl1 \<and> cl_written cl1 = cl_written cl @ [(st_LocalConn s, pkt)]"
    by (simp add: DeliverResponse_lookup_def write_local_def DeliverResponse_write_def touch_def Let_def)
  with that show thesis by blast
qed

lemma first_packet_routed:
  assumes ok: "reg_ok r" and none: "connections r (ConnectionId pkt) = None" and order: "range_order (proxys r) order"
    and serves: "\<exists>p \<in> ran (proxys r). proxy_serves (packet_dest pkt) p"
  obtains r1 p where "RouteFromClient now order cid pkt r = (r1, Inr (pc_Stream p, ProxyMessage_Packet pkt))"
    "p \<in> ran (proxys r)" "proxy_serves (packet_dest pkt) p"
proof -
  obtain p where f: "findProxyByCIDR order (packet_dest pkt) r = Some p"
    using find_proxy_None [OF order, of "packet_dest pkt"] serves by (cases "findProxyByCIDR order (packet_dest pkt) r") auto
  then have p: "p \<in> ran (proxys r)" "proxy_serves (packet_dest pkt) p" using find_proxy_Some [OF order] by auto
  then have "proxys r (pc_ID p) = Some p" using reg_okD(2) [OF ok] by (fastforce simp: ran_def)
  then show thesis using p that by (simp add: RouteFromClient_def lookup_new [OF none f])
qed

lemma first_packet_forwarded:
  assumes ok: "forwarder_ok pf" and none: "pf_connections pf (ConnectionId pkt) = None"
    and "ConnTuple pkt = Some t" "c \<notin> set (pf_closed pf)"
  obtains pf1 s where "Forward now (Some c) True pkt pf = (pf1, Ok (c, Data pkt))"
    "targets pf1 (ConnectionId pkt) = Some s" "ts_TargetConn s = c" "ts_TargetAddr s = target_addr t"
    "ts_ConnectionID s = ConnectionId pkt"
  using ok
proof (cases rule: Forward_enter_cases [of pf pkt now "Some c"])
  case (dialled t' c' s pf' ref)
  then show thesis using assms that [of pf' s] by (simp add: Forward_def Forward_write_def Let_def)
qed (use assms in \<open>simp_all add: targets_def\<close>)

text \<open>C1: A round trip through the tunnel. A redirected connection from \<open>s:sp\<close> to \<open>d:dp\<close> is accepted, its
  first bytes are read and sent; the server routes them, by the text of the destination, to a proxy
  whose network contains \<open>d\<close>; the proxy dials exactly \<open>d:dp\<close> and writes exactly these bytes there; the
  bytes read from that target come back as a packet that the server sends to the stream of the
  client, and the client writes them to the connection that was accepted.\<close>

theorem tunnel_round_trip:
  assumes cl: "cl_reachable services cl" "cl_handlers cl k = None" "k \<notin> set (tr_closed (cl_tracker cl))"
      "in_flight cl = []" "cl_reader cl = RIdle"
    and conn: "cn_TCP conn" "cn_File conn" "cn_OriginalDst4 conn = Some \<lparr>sa_Port = be16 l h, sa_Addr = d\<rparr>" "length d = 4"
      "length s = 4" "cn_RemoteAddr conn = join_host_port (v4_string s) (dec (unat sp))"
    and data: "data \<noteq> []" "length data \<le> 65535"
    and i: "i = GenerateConnectionID (v4_mapped s) sp (v4_mapped d) (be16 h l)"
    and server: "reg_ok r" "clients r cid = Some cc" "connections r i = None" "range_order (proxys r) order"
      "\<exists>p \<in> ran (proxys r). proxy_serves (v4_string d) p"
    and proxy: "forwarder_ok pf" "pf_connections pf i = None" "c \<notin> set (pf_closed pf)"
  shows "\<exists>cl1 pkt r1 p pf1 st r2 cl2.
    cl_run services [Accept k conn now, ReadData k now data, WritePacket True] cl = Some cl1 \<and>
    cl_sent cl1 = cl_sent cl @ [ClientMessage_Packet pkt] \<and> ConnectionId pkt = i \<and>
    RouteFromClient now1 order cid pkt r = (r1, Inr (pc_Stream p, ProxyMessage_Packet pkt)) \<and>
    p \<in> ran (proxys r) \<and> proxy_serves (v4_string d) p \<and>
    Forward now2 (Some c) True pkt pf = (pf1, Ok (c, data)) \<and> targets pf1 i = Some st \<and>
    ts_TargetConn st = c \<and> ts_TargetAddr st = join_host_port (v4_string d) (dec (unat (be16 h l))) \<and>
    RouteFromProxy now3 pid (responsePkt st stamp reply) r1 =
      (r2, Inr (cc_Stream cc, ClientMessage_Packet (responsePkt st stamp reply))) \<and>
    cl_run services [RecvMsg (ClientMessage_Packet (responsePkt st stamp reply)), TouchState now4, WriteLocal True] cl1 =
      Some cl2 \<and>
    cl_written cl2 = cl_written cl @ [(k, responsePkt st stamp reply)]"
proof -
  have str: "ip_string (v4_mapped d) = v4_string d" using conn(4) by (subst ip_string_v4) auto
  obtain hd where hd: "Handle_open services conn = Some hd" "h_state hd = Running" "h_connID hd = i"
      "DstIp (handler_tuple hd) = v4_string d" "unat (DstPortN (handler_tuple hd)) = unat (be16 h l)"
    using Handle_open_v4 [OF conn] str by (auto simp: i handler_tuple_def unat_ucast_u16)
  let ?pkt = "first_packet hd now data"
  obtain cl1 t where cl1: "cl_run services [Accept k conn now, ReadData k now data, WritePacket True] cl = Some cl1"
      "cl_sent cl1 = cl_sent cl @ [ClientMessage_Packet ?pkt]" "cl_reader cl1 = cl_reader cl"
      "Get (h_connID hd) (cl_tracker cl1) = Some t" "st_LocalConn t = k" "cl_written cl1 = cl_written cl"
      "k \<notin> set (tr_closed (cl_tracker cl1))"
    by (rule accept_read_send [OF cl(1-3) hd(1,2) data cl(4), of now])
  have dest: "packet_dest ?pkt = v4_string d" by (simp add: packet_dest_def hd(4))
  obtain r1 p where r1: "RouteFromClient now1 order cid ?pkt r = (r1, Inr (pc_Stream p, ProxyMessage_Packet ?pkt))"
      "p \<in> ran (proxys r)" "proxy_serves (v4_string d) p"
    using first_packet_routed [OF server(1), of ?pkt order now1 cid] server(3-5) by (auto simp: dest hd(3))
  obtain pf1 st where pf1: "Forward now2 (Some c) True ?pkt pf = (pf1, Ok (c, data))" "targets pf1 i = Some st"
      "ts_TargetConn st = c" "ts_TargetAddr st = target_addr (handler_tuple hd)" "ts_ConnectionID st = i"
    using first_packet_forwarded [OF proxy(1), of ?pkt "handler_tuple hd" c now2] proxy(2,3) by (auto simp: hd(3))
  have id: "ConnectionId (responsePkt st stamp reply) = i" by (simp add: responsePkt_def pf1(5))
  obtain r2 where r2: "RouteFromProxy now3 pid (responsePkt st stamp reply) r1 =
      (r2, Inr (cc_Stream cc, ClientMessage_Packet (responsePkt st stamp reply)))"
    using response_path [OF server(1) _ server(2) r1(1), of "responsePkt st stamp reply" now3 pid] server(3)
    by (auto simp: id hd(3))
  obtain cl2 where "cl_run services [RecvMsg (ClientMessage_Packet (responsePkt st stamp reply)), TouchState now4,
      WriteLocal True] cl1 = Some cl2" "cl_written cl2 = cl_written cl1 @ [(st_LocalConn t, responsePkt st stamp reply)]"
    using deliver_tracked [OF cl_reachable_run [OF cl(1) cl1(1)], of "responsePkt st stamp reply" t now4] cl1 cl(5) hd(3) id
    by auto
  moreover have "target_addr (handler_tuple hd) = join_host_port (v4_string d) (dec (unat (be16 h l)))"
    by (simp add: target_addr_def hd(4,5))
  ultimately show ?thesis using cl1 r1 pf1 r2 hd(3) by (metis first_packet_sel(1))
qed

definition tunnel_registry :: registry where
  "tunnel_registry = NewRegistry\<lparr>clients := [''c'' \<mapsto> \<lparr>cc_ID = ''c'', cc_Stream = 1, cc_RemoteAddr = '''', cc_ConnectedAt = 0\<rparr>],
     proxys := [''p'' \<mapsto> \<lparr>pc_ID = ''p'', pc_Stream = 2, pc_RemoteAddr = '''', pc_ManagedCIDR = v4_string [192, 168, 0, 0] @ ''/'' @ dec 8,
       pc_ConnectedAt = 0\<rparr>]\<rparr>"

theorem tunnel_round_trip_witness:
  "\<exists>cl1 cl2 m. cl_run no_services [Accept 1 sample_conn 0, ReadData 1 0 [71, 69, 84], WritePacket True] client_init = Some cl1 \<and>
     cl_run no_services [RecvMsg (ClientMessage_Packet m), TouchState 9, WriteLocal True] cl1 = Some cl2 \<and>
     cl_written cl2 = [(1, m)] \<and> Data m = [50, 48, 48]"
proof -
  have conn: "cn_TCP sample_conn" "cn_File sample_conn"
      "cn_OriginalDst4 sample_conn = Some \<lparr>sa_Port = be16 0xbb 0x01, sa_Addr = [192, 168, 1, 10]\<rparr>"
      "cn_RemoteAddr sample_conn = join_host_port (v4_string [10, 0, 0, 5]) (dec (unat (40000 :: u16)))"
    by (simp_all add: sample_conn_def v4_string_def join_host_port_def dec_eval)
  have client: "cl_handlers client_init 1 = None" "1 \<notin> set (tr_closed (cl_tracker client_init))"
      "in_flight client_init = []" "cl_reader client_init = RIdle" "cl_written client_init = []"
    by (simp_all add: client_init_def NewConnectionTracker_def)
  have server: "reg_ok tunnel_registry" "connections tunnel_registry i = None"
      "clients tunnel_registry ''c'' = Some \<lparr>cc_ID = ''c'', cc_Stream = 1, cc_RemoteAddr = '''', cc_ConnectedAt = 0\<rparr>"
      "range_order (proxys tunnel_registry) [''p'']" for i
    by (simp_all add: tunnel_registry_def reg_ok_def NewRegistry_def range_order_def)
  have serves: "\<exists>p \<in> ran (proxys tunnel_registry). proxy_serves (v4_string [192, 168, 1, 10]) p"
    using proxy_serves_v4 [of "[192, 168, 0, 0]" "[192, 168, 1, 10]" 8]
    by (simp add: tunnel_registry_def ip_bit_def)
  have targets: "pf_connections NewPacketForwarder i = None" "3 \<notin> set (pf_closed NewPacketForwarder)" for i
    by (simp_all add: NewPacketForwarder_def)
  obtain st where "\<exists>cl1 cl2. cl_run no_services [Accept 1 sample_conn 0, ReadData 1 0 [71, 69, 84], WritePacket True] client_init =
      Some cl1 \<and> cl_run no_services [RecvMsg (ClientMessage_Packet (responsePkt st 0 [50, 48, 48])), TouchState 9, WriteLocal True]
      cl1 = Some cl2 \<and> cl_written cl2 = [(1, responsePkt st 0 [50, 48, 48])]"
    using tunnel_round_trip [OF cl_init client(1-4) conn(1-3) _ _ conn(4) _ _ refl server(1,3,2,4) serves forwarder_ok_new
      targets, of "[71, 69, 84]"] unfolding client(5) by fastforce
  moreover have "Data (responsePkt st 0 [50, 48, 48]) = [50, 48, 48]" by (simp add: responsePkt_def)
  ultimately show ?thesis by blast
qed

section \<open>The configurations of the programs together\<close>

text \<open>C34: A client and proxies with their default configurations cannot talk. If every proxy manages the
  default network of the proxy, then for every address in the default target of the client, which
  are the destinations its rule redirects, the server answers a connection's first packet with
  an error and routes nothing.\<close>

theorem default_networks_disjoint:
  assumes "\<forall>p \<in> ran (proxys r). pc_ManagedCIDR p = pc_Managed (proxy_DefaultConfig b)"
    and "parse_cidr (cc_TargetCIDR (client_DefaultConfig b)) = Some target" "contains target (v4_mapped ip)" "length ip = 4"
    and "range_order (proxys r) order" "connections r (ConnectionId pkt) = None" "packet_dest pkt = v4_string ip"
  shows "RouteFromClient now order cid pkt r = (r, Inl (NoProxyForDestination (v4_string ip)))"
proof -
  have c: "cc_TargetCIDR (client_DefaultConfig b) = v4_string [100, 64, 0, 0] @ CHR ''/'' # dec 10"
    and p: "pc_Managed (proxy_DefaultConfig b) = v4_string [192, 168, 1, 0] @ ''/'' @ dec 24"
    by (simp_all add: client_DefaultConfig_def proxy_DefaultConfig_def v4_string_def dec_eval)
  have "same_prefix 10 [100, 64, 0, 0] ip"
    using assms(2-4) unfolding c by (auto simp: parse_cidr_v4_string contains_v4_net simp del: append_Cons)
  then have "ip_bit ip 0 = ip_bit [100, 64, 0, 0] 0" by (simp add: same_prefix_iff)
  moreover have "\<not> ip_bit [100, 64, 0, 0] 0" "ip_bit [192, 168, 1, 0] 0" by (simp_all add: ip_bit_def)
  ultimately have bit0: "ip_bit [192, 168, 1, 0] 0 \<noteq> ip_bit ip 0" by simp
  have "\<not> proxy_serves (v4_string ip) q" if "q \<in> ran (proxys r)" for q
    using proxy_serves_v4 [of "[192, 168, 1, 0]" ip 24 q] assms(1,4) that bit0 unfolding p by auto
  then have "findProxyByCIDR order (packet_dest pkt) r = None"
    using find_proxy_None [OF assms(5)] by (simp add: assms(7))
  then show ?thesis
    using lookup_no_proxy [OF assms(6), of order now cid] assms(7) by (simp add: RouteFromClient_def)
qed

definition default_registry :: registry where
  "default_registry = NewRegistry\<lparr>proxys := [''proxy-1'' \<mapsto>
     \<lparr>pc_ID = ''proxy-1'', pc_Stream = 2, pc_RemoteAddr = '''', pc_ManagedCIDR = ''192.168.1.0/24'', pc_ConnectedAt = 0\<rparr>]\<rparr>"

theorem default_networks_disjoint_witness:
  "RouteFromClient 5 [''proxy-1''] ''c'' (sample_packet\<lparr>ConnTuple := Some \<lparr>SrcIp = '''', SrcPortN = 0,
     DstIp = v4_string [100, 64, 1, 5], DstPortN = 80\<rparr>\<rparr>) default_registry =
   (default_registry, Inl (NoProxyForDestination (v4_string [100, 64, 1, 5])))"
proof -
  have c: "cc_TargetCIDR (client_DefaultConfig b) = v4_string [100, 64, 0, 0] @ CHR ''/'' # dec 10" for b
    by (simp add: client_DefaultConfig_def v4_string_def dec_eval)
  have bits: "(\<forall>j<10. P j) \<longleftrightarrow> P 0 \<and> P 1 \<and> P 2 \<and> P 3 \<and> P 4 \<and> P 5 \<and> P 6 \<and> P 7 \<and> P 8 \<and> P (9::nat)" for P
    by (auto simp: numeral_eq_Suc All_less_Suc)
  have "same_prefix 10 [100, 64, 0, 0] [100, 64, 1, 5]"
    unfolding same_prefix_iff bits by (simp add: ip_bit_def)
  moreover have "v4_mapped [100, 64, 1, 5] \<noteq> []" by (simp add: v4_mapped_def)
  ultimately have "\<exists>target. parse_cidr (cc_TargetCIDR (client_DefaultConfig b)) = Some target \<and>
      contains target (v4_mapped [100, 64, 1, 5])" for b
    unfolding c by (simp add: parse_cidr_v4_string contains_v4_net del: append_Cons)
  then obtain target where "parse_cidr (cc_TargetCIDR (client_DefaultConfig b)) = Some target"
      "contains target (v4_mapped [100, 64, 1, 5])" for b
    by (metis c)
  then show ?thesis
    by (intro default_networks_disjoint)
      (simp_all add: default_registry_def NewRegistry_def proxy_DefaultConfig_def range_order_def packet_dest_def)
qed

text \<open>C35: The flags of the client are applied after validation. With a port flag out of range, whatever
  the configuration file says, the settings are provided all the same although they are not valid,
  and a client that starts with them connects to the server and then panics.\<close>

theorem flags_bypass_validation:
  assumes "client_ProvideConfig b le order te cs (cf_config f) env = Inr (cfg, tls)"
    and "cf_port f \<noteq> 0" "\<not> (1 \<le> cf_port f \<and> cf_port f \<le> 65535)" "- (2 ^ 63) \<le> cf_port f" "cf_port f < 2 ^ 63"
  shows "\<exists>cfg'. client_settings b le order te cs f env = Inr (cfg', tls) \<and> client_Validate cfg' \<noteq> None \<and>
    (\<forall>ipt lo s. snd (client_start ipt True True None lo cfg' (new_client_app cfg' s)) = Panic)"
proof (intro exI conjI allI)
  let ?cfg = "client_applyOverrides f cfg"
  have port: "cc_ListenPort ?cfg = cf_port f" using assms(2) by (simp add: client_applyOverrides_def Let_def)
  show "client_settings b le order te cs f env = Inr (?cfg, tls)" by (simp add: client_settings_def assms(1))
  show "client_Validate ?cfg \<noteq> None" using assms(3) port by (auto simp: client_Validate_def)
  show "snd (client_start ipt True True None lo ?cfg (new_client_app ?cfg s)) = Panic" for ipt lo s
    using Setup_panics_iff [OF assms(4,5), of ipt "cc_TargetCIDR ?cfg" s] assms(3)
    by (auto simp: client_start_def client_Connect_def new_client_app_def port Let_def split: prod.split)
qed

theorem flags_bypass_validation_witness:
  "\<exists>cfg' tls. client_settings release_build sample_load_env [] sample_tls_env sample_certs
      \<lparr>cf_config = '''', cf_server = '''', cf_cidr = '''', cf_port = 70000\<rparr> Map.empty = Inr (cfg', tls) \<and> client_Validate cfg' \<noteq> None"
proof -
  obtain cfg tls where "client_ProvideConfig release_build sample_load_env [] sample_tls_env sample_certs '''' Map.empty = Inr (cfg, tls)"
    by (simp add: client_ProvideConfig_def client_LoadConfig_def client_DefaultConfig_def client_Validate_def
      LoadClientTLSConfig_def settings_simps)
  then show ?thesis
    using flags_bypass_validation [of release_build sample_load_env "[]" sample_tls_env sample_certs
      "\<lparr>cf_config = '''', cf_server = '''', cf_cidr = '''', cf_port = 70000\<rparr>" Map.empty cfg tls] by auto
qed

text \<open>A packet of a connection that has a route takes the route, whoever sends it.\<close>

lemma routed_packet_follows:
  assumes ok: "reg_ok r" and rt: "route_of r (ConnectionId pkt) = Some rt" "proxys r (rt_ProxyID rt) = Some p"
    "clients r (rt_ClientID rt) = Some c" and reply: "ConnectionId reply = ConnectionId pkt"
  obtains r1 r2 where "RouteFromClient now order cid pkt r = (r1, Inr (pc_Stream p, ProxyMessage_Packet pkt))"
    "RouteFromProxy now' pid reply r1 = (r2, Inr (cc_Stream c, ClientMessage_Packet reply))"
proof -
  obtain r1 x where r1: "RouteFromClient now order cid pkt r = (r1, x)" by (cases "RouteFromClient now order cid pkt r")
  note sp = RouteFromClient_spec [OF ok r1]
  have x: "x = Inr (pc_Stream p, ProxyMessage_Packet pkt)"
    using sp rt by (auto simp: spec_RouteFromClient_def spec_route_def)
  have ok1: "reg_ok r1" using RouteFromClient_ok [OF ok] r1 by (metis fst_conv)
  obtain rt' where rt': "route_of r1 (ConnectionId pkt) = Some rt'" "same_ends rt rt'"
    using spec_client_frame(2) [OF sp, of "ConnectionId pkt" rt] rt(1) by auto
  have "clients r1 (rt_ClientID rt') = Some c"
    using spec_client_frame(3) [OF sp] rt(3) rt'(2) by (simp add: same_ends_def)
  then have "snd (spec_RouteFromProxy now' reply (abs_reg r1)) = Inr (cc_Stream c, ClientMessage_Packet reply)"
    using spec_proxy_delivers [of "abs_reg r1" reply rt' c now'] rt' reply by simp
  moreover obtain r2 y where r2: "RouteFromProxy now' pid reply r1 = (r2, y)" by (cases "RouteFromProxy now' pid reply r1")
  ultimately have "y = Inr (cc_Stream c, ClientMessage_Packet reply)" using RouteFromProxy_spec [OF ok1 r2] by simp
  with r1 r2 x show thesis using that by simp
qed

text \<open>C38: Clients with the same addresses mix up their connections. The identifier is made of the two
  endpoints only, so when connections with the same endpoints are accepted on the hosts of two clients,
  as private addresses make possible, they have one identifier: once a packet of the first client
  has been routed, those of the second one go to the same proxy, which writes them to the first one's
  target connection, and the answers are sent to the first client.\<close>

theorem equal_endpoints_mixed_up:
  fixes sp :: u16
  assumes a: "cn_TCP conn" "cn_File conn" "cn_OriginalDst4 conn = Some \<lparr>sa_Port = be16 l h, sa_Addr = d\<rparr>" "length d = 4"
      "length s = 4" "cn_RemoteAddr conn = join_host_port (v4_string s) (dec (unat sp))"
    and b: "cn_TCP conn'" "cn_File conn'" "cn_OriginalDst4 conn' = cn_OriginalDst4 conn" "cn_RemoteAddr conn' = cn_RemoteAddr conn"
    and server: "reg_ok r" "clients r cid = Some c" "connections r (h_connID ha) = None"
    and first: "Handle_open services conn = Some ha"
      "RouteFromClient now order cid (first_packet ha ta da) r = (r1, Inr (ps, ProxyMessage_Packet (first_packet ha ta da)))"
    and target: "pf_connections pf (h_connID ha) = Some ref" "ts_TargetConn (pf_states pf ! ref) = t" "t \<notin> set (pf_closed pf)"
      "forwarder_ok pf"
  shows "\<exists>hb r2 r3 pf2. Handle_open services' conn' = Some hb \<and>
    RouteFromClient now2 order2 cid' (first_packet hb tb db) r1 = (r2, Inr (ps, ProxyMessage_Packet (first_packet hb tb db))) \<and>
    Forward now3 None True (first_packet hb tb db) pf = (pf2, Ok (t, db)) \<and>
    RouteFromProxy now4 pid (responsePkt (pf_states pf2 ! ref) stamp data) r2 =
      (r3, Inr (cc_Stream c, ClientMessage_Packet (responsePkt (pf_states pf2 ! ref) stamp data)))"
proof -
  note b' = b(1,2) b(3) [unfolded a(3)] a(4,5) b(4) [unfolded a(6)]
  obtain hb where hb: "Handle_open services' conn' = Some hb" "h_connID hb = h_connID ha"
    using Handle_open_v4 [OF a, of services] Handle_open_v4 [OF b', of services'] first(1) by auto
  have ok1: "reg_ok r1" using RouteFromClient_ok [OF server(1)] first(2) by (metis fst_conv)
  note sp = RouteFromClient_spec [OF server(1) first(2)]
  obtain rt p where rt: "route_of r1 (h_connID ha) = Some rt" "rt_ClientID rt = cid" "proxys r (rt_ProxyID rt) = Some p" "ps = pc_Stream p"
    using response_path [OF server(1) _ server(2) first(2) refl, of now4 pid] server(3) by auto
  have "clients r1 (rt_ClientID rt) = Some c" "proxys r1 (rt_ProxyID rt) = Some p"
    using spec_client_frame(3,4) [OF sp] rt server(2) by simp_all
  moreover have fwd: "Forward now3 None True (first_packet hb tb db) pf = (touch_target now3 ref pf, Ok (t, db))"
    using target forwarder_okD(1) [OF target(4,1)]
    by (simp add: Forward_def Forward_enter_def hb(2) Forward_write_def Let_def touch_target_field [of ts_TargetConn])
  moreover have "ConnectionId (responsePkt (pf_states (touch_target now3 ref pf) ! ref) stamp data) = h_connID hb"
    using forwarder_okD(2) [OF target(4,1)] by (simp add: responsePkt_def touch_target_field [of ts_ConnectionID] hb(2))
  ultimately show ?thesis
    using routed_packet_follows [OF ok1, of "first_packet hb tb db" rt p c
        "responsePkt (pf_states (touch_target now3 ref pf) ! ref) stamp data" now2 order2 cid' now4 pid] rt hb
    by (metis first_packet_sel(1))
qed

definition mixed_pf :: forwarder where
  "mixed_pf = \<lparr>pf_connections = [h_connID sys_handler \<mapsto> 0], pf_states = [\<lparr>ts_ConnectionID = h_connID sys_handler,
     ts_TargetAddr = ''10.1.2.3:443'', ts_TargetConn = 3, ts_CreatedAt = 0, ts_LastActivity = 0\<rparr>], pf_closed = [],
     pf_cancelled = False\<rparr>"

theorem equal_endpoints_mixed_up_witness:
  "\<exists>r1 r2 r3 pf2 hb. RouteFromClient 0 [''p''] ''a'' (first_packet sys_handler 0 [1]) (sv_registry registered_server) =
      (r1, Inr (9, ProxyMessage_Packet (first_packet sys_handler 0 [1]))) \<and>
     RouteFromClient 0 [''p''] ''b'' (first_packet hb 0 [2]) r1 = (r2, Inr (9, ProxyMessage_Packet (first_packet hb 0 [2]))) \<and>
     Forward 0 None True (first_packet hb 0 [2]) mixed_pf = (pf2, Ok (3, [2])) \<and>
     RouteFromProxy 0 ''p'' (responsePkt (pf_states pf2 ! 0) 0 [7]) r2 =
       (r3, Inr (1, ClientMessage_Packet (responsePkt (pf_states pf2 ! 0) 0 [7])))"
proof -
  have r: "reg_ok (sv_registry registered_server)"
      "clients (sv_registry registered_server) ''a'' = Some \<lparr>cc_ID = ''a'', cc_Stream = 1, cc_RemoteAddr = ''grpc-stream'', cc_ConnectedAt = 0\<rparr>"
      "connections (sv_registry registered_server) i = None" "proxys (sv_registry registered_server) ''p'' = Some session_proxy" for i
    by (simp_all add: registered_server_def reg_ok_def session_proxy_def)
  obtain r1 where r1: "RouteFromClient 0 [''p''] ''a'' (first_packet sys_handler 0 [1]) (sv_registry registered_server) =
      (r1, Inr (9, ProxyMessage_Packet (first_packet sys_handler 0 [1])))"
    using lookup_new [of "sv_registry registered_server" "first_packet sys_handler 0 [1]" "[''p'']" session_proxy 0 "''a''"]
      find_session_proxy [OF r(4)] r(3,4)
    by (simp add: RouteFromClient_def packet_dest_def sys_handler) (simp add: session_proxy_def)
  have t: "pf_connections mixed_pf (h_connID sys_handler) = Some 0" "ts_TargetConn (pf_states mixed_pf ! 0) = 3"
      "3 \<notin> set (pf_closed mixed_pf)" "forwarder_ok mixed_pf"
    by (simp_all add: mixed_pf_def forwarder_ok_def)
  show ?thesis
    using equal_endpoints_mixed_up [OF sys_conn_v4 sys_conn_v4(1,2) refl refl r(1,2,3) sys_handler(1) r1 t,
      where services' = no_services and ?now2.0 = 0 and ?order2.0 = "[''p'']" and cid' = "''b''" and tb = 0 and db = "[2]"
        and ?now3.0 = 0 and ?now4.0 = 0 and pid = "''p''" and stamp = 0 and data = "[7]"] r1 by auto
qed

end
